(* ===== verification/Prelude.thy ===== *)
theory Prelude
  imports Main
begin

text \<open>
  The shared layer of the development: JavaScript strings, the result and action types that carry
  exceptions, the transition-system vocabulary, and the two generic interfaces (a codec, a machine
  with an invariant) that the components interpret.

  A JavaScript string is a \<^typ>\<open>string\<close>: one \<^typ>\<open>char\<close> per UTF-16 code unit, so the model
  speaks of strings whose code units are below 256. A value that may be undefined is an option.
\<close>

named_theorems js_defs \<open>definitions of the JavaScript string and option helpers\<close>
named_theorems act_simps \<open>unfolding rules of the action combinators\<close>


section \<open>JavaScript strings\<close>

abbreviation ord :: "char \<Rightarrow> nat" where
  "ord c \<equiv> of_char c"

abbreviation chr :: "nat \<Rightarrow> char" where
  "chr n \<equiv> char_of n"

text \<open>The empty string is falsy, every other string is truthy.\<close>

definition truthy_str :: "string \<Rightarrow> bool" where
  [js_defs]: "truthy_str s \<longleftrightarrow> s \<noteq> []"

definition truthy_ostr :: "string option \<Rightarrow> bool" where
  [js_defs]: "truthy_ostr m = (case m of None \<Rightarrow> False | Some s \<Rightarrow> truthy_str s)"

definition starts_with :: "string \<Rightarrow> string \<Rightarrow> bool" where
  [js_defs]: "starts_with s p \<longleftrightarrow> take (length p) s = p"

text \<open>\<open>s.split(c)\<close> for a one-character separator; it never returns an empty array.\<close>

fun split_on :: "char \<Rightarrow> string \<Rightarrow> string list" where
  "split_on c [] = [[]]"
| "split_on c (x # xs) =
     (if x = c then [] # split_on c xs
      else case split_on c xs of [] \<Rightarrow> [[x]] | y # ys \<Rightarrow> (x # y) # ys)"

text \<open>Reading an array past its end yields undefined.\<close>

definition js_nth :: "'a list \<Rightarrow> nat \<Rightarrow> 'a option" where
  [js_defs]: "js_nth xs i = (if i < length xs then Some (xs ! i) else None)"

text \<open>The white space that \<open>trim\<close> removes, as far as it lies below code unit 256.\<close>

definition js_space :: "char \<Rightarrow> bool" where
  "js_space c \<longleftrightarrow> ord c \<in> {9, 10, 11, 12, 13, 32, 160}"

definition trim :: "string \<Rightarrow> string" where
  "trim s = rev (dropWhile js_space (rev (dropWhile js_space s)))"

text \<open>
  \<open>toUpperCase\<close> on code units below 256. Two Latin-1 letters have their capital outside this range
  (the micro sign and y with diaeresis); they are left as they are.
\<close>

definition upper_char :: "char \<Rightarrow> string" where
  "upper_char c =
     (if 97 \<le> ord c \<and> ord c \<le> 122 then [chr (ord c - 32)]
      else if 224 \<le> ord c \<and> ord c \<le> 254 \<and> ord c \<noteq> 247 then [chr (ord c - 32)]
      else if ord c = 223 then ''SS''
      else [c])"

definition to_upper :: "string \<Rightarrow> string" where
  "to_upper s = concat (map upper_char s)"

fun intercalate :: "string \<Rightarrow> string list \<Rightarrow> string" where
  "intercalate sep [] = []"
| "intercalate sep [x] = x"
| "intercalate sep (x # y # ys) = x @ sep @ intercalate sep (y # ys)"

lemma ord_less [simp]: "ord c < 256"
  by simp

lemma ord_chr [simp]: "n < 256 \<Longrightarrow> ord (chr n) = n"
  by simp

lemma ord_eq_iff: "ord c = ord d \<longleftrightarrow> c = d"
  by simp

lemma starts_with_append [simp]: "starts_with (p @ s) p"
  by (simp add: starts_with_def)

lemma starts_with_simps [simp]:
  "starts_with s []"
  "starts_with [] (y # p) \<longleftrightarrow> False"
  "starts_with (x # s) (y # p) \<longleftrightarrow> x = y \<and> starts_with s p"
  by (auto simp: starts_with_def)

lemma starts_withE: "starts_with s p \<Longrightarrow> \<exists>r. s = p @ r"
  by (metis starts_with_def append_take_drop_id)

lemma split_on_neq_Nil [simp]: "split_on c s \<noteq> []"
  by (induction s) (auto split: list.splits)

lemma split_on_absent: "c \<notin> set s \<Longrightarrow> split_on c s = [s]"
  by (induction s) auto

lemma split_on_append:
  "c \<notin> set s \<Longrightarrow> split_on c (s @ c # t) = s # split_on c t"
  by (induction s) auto

lemma set_intercalate: "set (intercalate sep xs) \<subseteq> set sep \<union> \<Union> (set ` set xs)"
  by (induction sep xs rule: intercalate.induct) auto

lemma intercalate_Cons:
  "xs \<noteq> [] \<Longrightarrow> intercalate sep (x # xs) = x @ sep @ intercalate sep xs"
  by (cases xs) auto

text \<open>Joining strings that do not hold the separator and splitting the result returns them.\<close>

lemma split_on_intercalate:
  "xs \<noteq> [] \<Longrightarrow> \<forall>x \<in> set xs. c \<notin> set x \<Longrightarrow> split_on c (intercalate [c] xs) = xs"
proof (induction xs)
  case Nil
  then show ?case by simp
next
  case (Cons x xs)
  then show ?case
    by (cases xs) (auto simp: split_on_append split_on_absent)
qed

lemma dropWhile_rev_append:
  "xs \<noteq> [] \<Longrightarrow> \<not> P (last xs) \<Longrightarrow> dropWhile P (rev xs) = rev xs"
  by (cases "rev xs") (auto simp: last_rev hd_rev [symmetric] simp del: hd_rev)

lemma trim_subset: "set (trim s) \<subseteq> set s"
  unfolding trim_def by (auto dest!: set_dropWhileD)

lemma trim_trim: "trim (trim s) = trim s"
proof -
  let ?a = "dropWhile js_space s" and ?t = "dropWhile js_space (rev (dropWhile js_space s))"
  have "dropWhile js_space (rev ?t) = rev ?t"
  proof (cases "?t = []")
    case False
    then have ne: "?a \<noteq> []" by (metis dropWhile.simps(1) rev.simps(1))
    have "rev ?a = takeWhile js_space (rev ?a) @ ?t" by simp
    with False ne have "last ?t = hd ?a" by (metis last_rev last_append)
    with hd_dropWhile [OF ne] have "\<not> js_space (last ?t)" by simp
    with False show ?thesis by (rule dropWhile_rev_append)
  qed (simp only: rev.simps dropWhile.simps)
  then show ?thesis unfolding trim_def by simp
qed

lemma trim_hd: "trim s \<noteq> [] \<Longrightarrow> \<not> js_space (last (trim s))"
  unfolding trim_def by (metis hd_dropWhile last_rev rev_is_Nil_conv)


section \<open>Lists where only the last element is active\<close>

lemma only_last:
  assumes "\<forall>x \<in> set (butlast xs). P x" and "i < length xs" and "\<not> P (xs ! i)"
  shows "xs = butlast xs @ [xs ! i]" and "i = length xs - 1" and "xs[i := y] = butlast xs @ [y]"
proof -
  have ne: "xs \<noteq> []" using assms(2) by auto
  show i: "i = length xs - 1"
  proof (rule ccontr)
    assume "i \<noteq> length xs - 1"
    with assms(2) have "i < length (butlast xs)" by simp
    then have "xs ! i \<in> set (butlast xs)" by (metis nth_butlast nth_mem)
    with assms(1,3) show False by blast
  qed
  then show eq: "xs = butlast xs @ [xs ! i]" using ne by (metis append_butlast_last_id last_conv_nth)
  show "xs[i := y] = butlast xs @ [y]"
    using i ne by (metis butlast_list_update last_list_update list_update_nonempty snoc_eq_iff_butlast)
qed


section \<open>Results, exceptions and actions\<close>

text \<open>
  An asynchronous function that is awaited is an action: it takes the state, returns the new
  state, and either throws (\<open>Inl\<close>) or resolves (\<open>Inr\<close>).
\<close>

type_synonym ('s, 'e, 'a) act = "'s \<Rightarrow> ('e + 'a) \<times> 's"

definition ret :: "'a \<Rightarrow> ('s, 'e, 'a) act" where
  "ret x = (\<lambda>s. (Inr x, s))"

definition throw :: "'e \<Rightarrow> ('s, 'e, 'a) act" where
  "throw e = (\<lambda>s. (Inl e, s))"

definition andThen :: "('s, 'e, 'a) act \<Rightarrow> ('a \<Rightarrow> ('s, 'e, 'b) act) \<Rightarrow> ('s, 'e, 'b) act" where
  "andThen m f = (\<lambda>s. case m s of (Inl e, s') \<Rightarrow> (Inl e, s') | (Inr a, s') \<Rightarrow> f a s')"

definition catching :: "('s, 'e, 'a) act \<Rightarrow> ('e \<Rightarrow> ('s, 'e, 'a) act) \<Rightarrow> ('s, 'e, 'a) act" where
  "catching m h = (\<lambda>s. case m s of (Inl e, s') \<Rightarrow> h e s' | (Inr a, s') \<Rightarrow> (Inr a, s'))"

definition get_state :: "('s \<Rightarrow> 'a) \<Rightarrow> ('s, 'e, 'a) act" where
  "get_state f = (\<lambda>s. (Inr (f s), s))"

definition modify :: "('s \<Rightarrow> 's) \<Rightarrow> ('s, 'e, unit) act" where
  "modify f = (\<lambda>s. (Inr (), f s))"

lemmas act_defs [act_simps] =
  ret_def throw_def andThen_def catching_def get_state_def modify_def

lemma andThen_Inr: "m s = (Inr a, s') \<Longrightarrow> andThen m f s = f a s'"
  by (simp add: andThen_def)

lemma andThen_Inl: "m s = (Inl e, s') \<Longrightarrow> andThen m f s = (Inl e, s')"
  by (simp add: andThen_def)

lemma andThen_ret [simp]: "andThen (ret x) f = f x"
  by (simp add: andThen_def ret_def)

lemma andThen_assoc: "andThen (andThen m f) g = andThen m (\<lambda>x. andThen (f x) g)"
  by (auto simp: andThen_def split: prod.splits sum.splits)

lemma andThen_eq_Inr:
  "andThen m f s = (Inr b, s'') \<longleftrightarrow> (\<exists>a s'. m s = (Inr a, s') \<and> f a s' = (Inr b, s''))"
  by (auto simp: andThen_def split: prod.splits sum.splits)

lemma catching_eq_Inr_iff:
  "catching m h s = (Inr b, s'') \<longleftrightarrow>
     m s = (Inr b, s'') \<or> (\<exists>e s'. m s = (Inl e, s') \<and> h e s' = (Inr b, s''))"
  by (auto simp: catching_def split: prod.splits sum.splits)


text \<open>
  An action that leaves a part \<open>f\<close> of the state as it was, whatever it returns. The rules follow the
  structure of an action, so that \<open>intro keeps_intros\<close> proves the property for a whole operation.
\<close>

named_theorems keeps_intros \<open>introduction rules of \<open>keeps\<close>\<close>

definition keeps :: "('s \<Rightarrow> 'b) \<Rightarrow> ('s, 'e, 'a) act \<Rightarrow> bool" where
  "keeps f m \<longleftrightarrow> (\<forall>s. f (snd (m s)) = f s)"

lemma keepsD: "keeps f m \<Longrightarrow> m s = (r, s') \<Longrightarrow> f s' = f s"
  by (metis keeps_def snd_conv)

lemma keeps_basic [keeps_intros]:
  "keeps f (ret x)" "keeps f (throw e)" "keeps f (get_state g)"
  by (simp_all add: keeps_def ret_def throw_def get_state_def)

lemma keeps_modify [keeps_intros]: "(\<And>s. f (g s) = f s) \<Longrightarrow> keeps f (modify g)"
  by (simp add: keeps_def modify_def)

lemma keeps_andThen [keeps_intros]:
  "keeps f m \<Longrightarrow> (\<And>a. keeps f (k a)) \<Longrightarrow> keeps f (andThen m k)"
  by (simp add: keeps_def andThen_def split: prod.splits sum.splits) (metis snd_conv)

lemma keeps_catching [keeps_intros]:
  "keeps f m \<Longrightarrow> (\<And>e. keeps f (h e)) \<Longrightarrow> keeps f (catching m h)"
  by (simp add: keeps_def catching_def split: prod.splits sum.splits) (metis snd_conv)

lemma keeps_cases [keeps_intros]:
  "(c \<Longrightarrow> keeps f m) \<Longrightarrow> (\<not> c \<Longrightarrow> keeps f n) \<Longrightarrow> keeps f (if c then m else n)"
  "keeps f m \<Longrightarrow> (\<And>a. keeps f (k a)) \<Longrightarrow> keeps f (case v of None \<Rightarrow> m | Some a \<Rightarrow> k a)"
  "(\<And>a. keeps f (i a)) \<Longrightarrow> (\<And>b. keeps f (j b)) \<Longrightarrow> keeps f (case w of Inl a \<Rightarrow> i a | Inr b \<Rightarrow> j b)"
  by (simp_all split: option.splits sum.splits)


text \<open>An action only adds to a log of the state, and only entries that satisfy \<open>P\<close>.\<close>

named_theorems adds_to_intros \<open>introduction rules of \<open>adds_to\<close>\<close>

definition adds_to :: "('s \<Rightarrow> 'x list) \<Rightarrow> ('x \<Rightarrow> bool) \<Rightarrow> ('s, 'e, 'a) act \<Rightarrow> bool" where
  "adds_to f P m \<longleftrightarrow> (\<forall>s. \<exists>xs. f (snd (m s)) = f s @ xs \<and> list_all P xs)"

lemma adds_to_basic [adds_to_intros]: "adds_to f P (ret x)" "adds_to f P (throw e)" "adds_to f P (get_state g)"
  by (simp_all add: adds_to_def ret_def throw_def get_state_def)

lemma adds_to_modify [adds_to_intros]: "(\<And>s. f (g s) = f s) \<Longrightarrow> adds_to f P (modify g)"
  by (simp add: adds_to_def modify_def)

lemma adds_to_after:
  assumes "adds_to f P m" and "\<And>a. adds_to f P (k a)" and "m s = (r, s1)"
  shows "\<exists>xs. f (snd (k a s1)) = f s @ xs \<and> list_all P xs"
proof -
  from assms(1,3) obtain xs where "f s1 = f s @ xs" "list_all P xs" unfolding adds_to_def by (metis snd_conv)
  moreover from assms(2) obtain ys where "f (snd (k a s1)) = f s1 @ ys" "list_all P ys" unfolding adds_to_def by blast
  ultimately show ?thesis by (intro exI [of _ "xs @ ys"]) simp
qed

lemma adds_to_andThen [adds_to_intros]:
  assumes "adds_to f P m" and "\<And>a. adds_to f P (k a)"
  shows "adds_to f P (andThen m k)"
  unfolding adds_to_def
proof
  fix s
  obtain r s1 where m: "m s = (r, s1)" by fastforce
  show "\<exists>xs. f (snd (andThen m k s)) = f s @ xs \<and> list_all P xs"
  proof (cases r)
    case (Inl e)
    with m assms(1) show ?thesis unfolding adds_to_def by (metis andThen_Inl snd_conv)
  next
    case (Inr a)
    with m adds_to_after [OF assms m] show ?thesis by (simp add: andThen_Inr)
  qed
qed

lemma adds_to_catching [adds_to_intros]:
  assumes "adds_to f P m" and "\<And>e. adds_to f P (h e)"
  shows "adds_to f P (catching m h)"
  unfolding adds_to_def
proof
  fix s
  obtain r s1 where m: "m s = (r, s1)" by fastforce
  show "\<exists>xs. f (snd (catching m h s)) = f s @ xs \<and> list_all P xs"
  proof (cases r)
    case (Inl e)
    with m adds_to_after [OF assms m] show ?thesis by (simp add: catching_def)
  next
    case (Inr a)
    with m have "snd (catching m h s) = snd (m s)" by (simp add: catching_def)
    with assms(1) show ?thesis unfolding adds_to_def by metis
  qed
qed

lemma adds_to_cases [adds_to_intros]:
  "(c \<Longrightarrow> adds_to f P m) \<Longrightarrow> (\<not> c \<Longrightarrow> adds_to f P n) \<Longrightarrow> adds_to f P (if c then m else n)"
  "adds_to f P m \<Longrightarrow> (\<And>a. adds_to f P (k a)) \<Longrightarrow> adds_to f P (case v of None \<Rightarrow> m | Some a \<Rightarrow> k a)"
  "(\<And>a b. adds_to f P (q a b)) \<Longrightarrow> adds_to f P (case p of (a, b) \<Rightarrow> q a b)"
  by (simp_all split: option.splits prod.splits)


section \<open>Transition systems\<close>

inductive run :: "('s \<Rightarrow> 'e \<Rightarrow> 's \<Rightarrow> bool) \<Rightarrow> 's \<Rightarrow> 'e list \<Rightarrow> 's \<Rightarrow> bool"
  for step :: "'s \<Rightarrow> 'e \<Rightarrow> 's \<Rightarrow> bool" where
  run_Nil: "run step s [] s"
| run_Cons: "step s e t \<Longrightarrow> run step t es u \<Longrightarrow> run step s (e # es) u"

inductive_simps run_Nil_iff [simp]: "run step s [] t"
inductive_simps run_Cons_iff: "run step s (e # es) u"

definition reachable :: "('s \<Rightarrow> bool) \<Rightarrow> ('s \<Rightarrow> 'e \<Rightarrow> 's \<Rightarrow> bool) \<Rightarrow> 's \<Rightarrow> bool" where
  "reachable ini step s \<longleftrightarrow> (\<exists>s0 es. ini s0 \<and> run step s0 es s)"

lemma run_append_iff:
  "run step s (es @ fs) u \<longleftrightarrow> (\<exists>t. run step s es t \<and> run step t fs u)"
  by (induction es arbitrary: s) (auto simp: run_Cons_iff)

lemma reachableI: "ini s0 \<Longrightarrow> run step s0 es s \<Longrightarrow> reachable ini step s"
  by (auto simp: reachable_def)

text \<open>
  A machine and an invariant of it. Every component that is a state machine interprets this
  interface on its own step relation, and reads off that the invariant holds on every run.
\<close>

locale invariant_machine =
  fixes ini :: "'s \<Rightarrow> bool"
    and step :: "'s \<Rightarrow> 'e \<Rightarrow> 's \<Rightarrow> bool"
    and inv :: "'s \<Rightarrow> bool"
  assumes inv_init: "ini s \<Longrightarrow> inv s"
    and inv_step: "inv s \<Longrightarrow> step s e t \<Longrightarrow> inv t"
begin

lemma run_keeps_inv: "run step s es t \<Longrightarrow> inv s \<Longrightarrow> inv t"
  by (induction rule: run.induct) (auto intro: inv_step)

lemma reachable_inv: "reachable ini step s \<Longrightarrow> inv s"
  unfolding reachable_def using inv_init run_keeps_inv by blast

lemma reachable_step_inv: "reachable ini step s \<Longrightarrow> step s e t \<Longrightarrow> inv t"
  using reachable_inv inv_step by blast

end


section \<open>Codecs\<close>

text \<open>
  An encoder with a decoder that undoes it on the values of its domain. The base64, UTF-8, JSON
  and percent encodings of the client are interpretations; \<open>codec_compose\<close> stacks two of them.
\<close>

locale codec =
  fixes enc :: "'a \<Rightarrow> 'b"
    and dec :: "'b \<Rightarrow> 'a option"
    and valid :: "'a \<Rightarrow> bool"
  assumes dec_enc: "valid x \<Longrightarrow> dec (enc x) = Some x"
begin

lemma enc_inj: "valid x \<Longrightarrow> valid y \<Longrightarrow> enc x = enc y \<Longrightarrow> x = y"
  by (metis dec_enc option.inject)

lemma enc_inj_on: "inj_on enc {x. valid x}"
  by (auto intro: inj_onI enc_inj)

end

locale codec_compose =
  inner: codec enc1 dec1 valid1 + outer: codec enc2 dec2 valid2
  for enc1 :: "'a \<Rightarrow> 'b" and dec1 valid1
    and enc2 :: "'b \<Rightarrow> 'c" and dec2 valid2 +
  assumes valid_enc: "valid1 x \<Longrightarrow> valid2 (enc1 x)"

sublocale codec_compose \<subseteq> codec
  "\<lambda>x. enc2 (enc1 x)" "\<lambda>y. Option.bind (dec2 y) dec1" valid1
  by unfold_locales (simp add: valid_enc outer.dec_enc inner.dec_enc)

end
