(* ===== verification/Js_Json.thy ===== *)
theory Js_Json
  imports Prelude
begin

text \<open>
  \<open>JSON.stringify\<close> and \<open>JSON.parse\<close> of the JavaScript library, as the client uses them, and their
  round trip. A number is an integer: every number the client writes or reads (time stamps,
  counts, role and type codes) is one, and \<open>JSON.parse\<close> of a numeral with a fraction or an
  exponent is outside the model (the parser gives None). The parser runs on fuel;
  \<open>parse_value_fuel\<close> shows that twice the length of the text is enough for every text.
\<close>

datatype json =
    JNull
  | JBool bool
  | JNum int
  | JStr string
  | JArr "json list"
  | JObj "(string \<times> json) list"

abbreviation quote :: char where "quote \<equiv> CHR 0x22"
abbreviation backslash :: char where "backslash \<equiv> CHR 0x5C"


section \<open>Reading values\<close>

text \<open>A property of an object; of two entries with one name the last one counts.\<close>

definition jfield :: "string \<Rightarrow> json \<Rightarrow> json option" where
  "jfield k v = (case v of JObj kvs \<Rightarrow> map_of (rev kvs) k | _ \<Rightarrow> None)"

definition jstring :: "json option \<Rightarrow> string option" where
  "jstring v = (case v of Some (JStr s) \<Rightarrow> Some s | _ \<Rightarrow> None)"

definition jnumber :: "json option \<Rightarrow> int option" where
  "jnumber v = (case v of Some (JNum i) \<Rightarrow> Some i | _ \<Rightarrow> None)"

definition jtruthy :: "json option \<Rightarrow> bool" where
  "jtruthy v =
     (case v of None \<Rightarrow> False | Some JNull \<Rightarrow> False | Some (JBool b) \<Rightarrow> b
      | Some (JNum i) \<Rightarrow> i \<noteq> 0 | Some (JStr s) \<Rightarrow> s \<noteq> [] | Some _ \<Rightarrow> True)"

text \<open>An object literal: a property whose value is undefined is not written out.\<close>

definition jobject :: "(string \<times> json option) list \<Rightarrow> json" where
  "jobject kvs = JObj (List.map_filter (\<lambda>(k, v). map_option (Pair k) v) kvs)"


section \<open>JSON.stringify\<close>

fun show_nat :: "nat \<Rightarrow> string" where
  "show_nat n =
     (if n < 10 then [chr (48 + n)] else show_nat (n div 10) @ [chr (48 + n mod 10)])"

declare show_nat.simps [simp del]

definition show_int :: "int \<Rightarrow> string" where
  "show_int i = (if i < 0 then CHR ''-'' # show_nat (nat (- i)) else show_nat (nat i))"

definition hex_digit :: "nat \<Rightarrow> char" where
  "hex_digit n = (if n < 10 then chr (48 + n) else chr (87 + n))"

definition escape_char :: "char \<Rightarrow> string" where
  "escape_char c =
     (if c = quote then [backslash, quote]
      else if c = backslash then [backslash, backslash]
      else if ord c = 8 then [backslash, CHR ''b'']
      else if ord c = 12 then [backslash, CHR ''f'']
      else if ord c = 10 then [backslash, CHR ''n'']
      else if ord c = 13 then [backslash, CHR ''r'']
      else if ord c = 9 then [backslash, CHR ''t'']
      else if ord c < 32 then
        [backslash, CHR ''u'', CHR ''0'', CHR ''0'', hex_digit (ord c div 16), hex_digit (ord c mod 16)]
      else [c])"

definition show_string :: "string \<Rightarrow> string" where
  "show_string s = quote # concat (map escape_char s) @ [quote]"

fun stringify :: "json \<Rightarrow> string" where
  "stringify JNull = ''null''"
| "stringify (JBool b) = (if b then ''true'' else ''false'')"
| "stringify (JNum i) = show_int i"
| "stringify (JStr s) = show_string s"
| "stringify (JArr vs) = CHR ''['' # intercalate '','' (map stringify vs) @ '']''"
| "stringify (JObj kvs) =
     CHR ''{'' # intercalate '',''
       (map (\<lambda>kv. show_string (fst kv) @ CHR '':'' # stringify (snd kv)) kvs) @ ''}''"


section \<open>JSON.parse\<close>

definition json_space :: "char \<Rightarrow> bool" where
  "json_space c \<longleftrightarrow> ord c \<in> {9, 10, 13, 32}"

definition skip_ws :: "string \<Rightarrow> string" where
  "skip_ws s = dropWhile json_space s"

definition eat :: "char \<Rightarrow> string \<Rightarrow> string option" where
  "eat c s = (case skip_ws s of [] \<Rightarrow> None | d # t \<Rightarrow> if d = c then Some t else None)"

definition is_digit :: "char \<Rightarrow> bool" where
  "is_digit c \<longleftrightarrow> 48 \<le> ord c \<and> ord c \<le> 57"

definition read_nat :: "string \<Rightarrow> nat" where
  "read_nat ds = foldl (\<lambda>n c. 10 * n + (ord c - 48)) 0 ds"

definition parse_nat :: "string \<Rightarrow> (nat \<times> string) option" where
  "parse_nat s =
     (let ds = takeWhile is_digit s; r = dropWhile is_digit s
      in if ds = [] then None
         else if hd ds = CHR ''0'' \<and> 1 < length ds then None
         else if r \<noteq> [] \<and> hd r \<in> {CHR ''.'', CHR ''e'', CHR ''E''} then None
         else Some (read_nat ds, r))"

definition parse_num :: "string \<Rightarrow> (int \<times> string) option" where
  "parse_num s =
     (case s of
        c # t \<Rightarrow> if c = CHR ''-'' then map_option (\<lambda>(n, r). (- int n, r)) (parse_nat t)
                 else map_option (\<lambda>(n, r). (int n, r)) (parse_nat s)
      | [] \<Rightarrow> None)"

definition hex_val :: "char \<Rightarrow> nat option" where
  "hex_val c =
     (if 48 \<le> ord c \<and> ord c \<le> 57 then Some (ord c - 48)
      else if 97 \<le> ord c \<and> ord c \<le> 102 then Some (ord c - 87)
      else if 65 \<le> ord c \<and> ord c \<le> 70 then Some (ord c - 55)
      else None)"

definition unescape :: "char \<Rightarrow> char option" where
  "unescape d =
     (if d = quote \<or> d = backslash \<or> d = CHR ''/'' then Some d
      else if d = CHR ''b'' then Some (chr 8)
      else if d = CHR ''f'' then Some (chr 12)
      else if d = CHR ''n'' then Some (chr 10)
      else if d = CHR ''r'' then Some (chr 13)
      else if d = CHR ''t'' then Some (chr 9)
      else None)"

text \<open>The value of four hexadecimal digits; a code unit above 255 is outside the model.\<close>

definition unicode_escape :: "char \<Rightarrow> char \<Rightarrow> char \<Rightarrow> char \<Rightarrow> char option" where
  "unicode_escape a b x y =
     (case (hex_val a, hex_val b, hex_val x, hex_val y) of
        (Some i, Some j, Some k, Some l) \<Rightarrow>
          (let n = ((i * 16 + j) * 16 + k) * 16 + l in if n < 256 then Some (chr n) else None)
      | _ \<Rightarrow> None)"

text \<open>What follows a backslash: the character meant and the rest of the text.\<close>

definition parse_escape :: "string \<Rightarrow> (char \<times> string) option" where
  "parse_escape s =
     (case s of [] \<Rightarrow> None
      | d # t \<Rightarrow>
          if d = CHR ''u'' then
            (case t of a # b # x # y # u \<Rightarrow> map_option (\<lambda>e. (e, u)) (unicode_escape a b x y)
             | _ \<Rightarrow> None)
          else map_option (\<lambda>e. (e, t)) (unescape d))"

lemma parse_escape_length: "parse_escape s = Some (e, t) \<Longrightarrow> length t < length s"
  by (auto simp: parse_escape_def split: list.splits if_splits)

function parse_chars :: "string \<Rightarrow> (string \<times> string) option" where
  "parse_chars [] = None"
| "parse_chars (c # s) =
     (if c = quote then Some ([], s)
      else if c = backslash then
        (case parse_escape s of None \<Rightarrow> None
         | Some p \<Rightarrow> map_option (apfst (Cons (fst p))) (parse_chars (snd p)))
      else if ord c < 32 then None
      else map_option (apfst (Cons c)) (parse_chars s))"
  by pat_completeness auto
termination
  by (relation "measure length")
    (auto dest: parse_escape_length [OF HOL.trans [OF _ arg_cong [of _ _ Some, OF prod.collapse [symmetric]]]])

fun parse_value :: "nat \<Rightarrow> string \<Rightarrow> (json \<times> string) option"
  and parse_elems :: "nat \<Rightarrow> string \<Rightarrow> (json list \<times> string) option"
  and parse_members :: "nat \<Rightarrow> string \<Rightarrow> ((string \<times> json) list \<times> string) option" where
  "parse_value 0 s = None"
| "parse_value (Suc f) s =
     (case skip_ws s of [] \<Rightarrow> None
      | c # t \<Rightarrow>
          if c = CHR ''{'' then
            (case eat (CHR ''}'') t of Some u \<Rightarrow> Some (JObj [], u)
             | None \<Rightarrow> map_option (apfst JObj) (parse_members f t))
          else if c = CHR ''['' then
            (case eat (CHR '']'') t of Some u \<Rightarrow> Some (JArr [], u)
             | None \<Rightarrow> map_option (apfst JArr) (parse_elems f t))
          else if c = quote then map_option (apfst JStr) (parse_chars t)
          else if starts_with (c # t) ''null'' then Some (JNull, drop 4 (c # t))
          else if starts_with (c # t) ''true'' then Some (JBool True, drop 4 (c # t))
          else if starts_with (c # t) ''false'' then Some (JBool False, drop 5 (c # t))
          else map_option (apfst JNum) (parse_num (c # t)))"
| "parse_elems 0 s = None"
| "parse_elems (Suc f) s =
     (case parse_value f s of None \<Rightarrow> None
      | Some (v, r) \<Rightarrow>
          (case eat (CHR '','') r of
             Some u \<Rightarrow> map_option (apfst (Cons v)) (parse_elems f u)
           | None \<Rightarrow> map_option (Pair [v]) (eat (CHR '']'') r)))"
| "parse_members 0 s = None"
| "parse_members (Suc f) s =
     (case Option.bind (eat quote s) parse_chars of None \<Rightarrow> None
      | Some (k, r) \<Rightarrow>
          (case Option.bind (eat (CHR '':'') r) (parse_value f) of None \<Rightarrow> None
           | Some (v, r') \<Rightarrow>
               (case eat (CHR '','') r' of
                  Some u \<Rightarrow> map_option (apfst (Cons (k, v))) (parse_members f u)
                | None \<Rightarrow> map_option (Pair [(k, v)]) (eat (CHR ''}'') r'))))"

lemmas parse_value_Suc = parse_value.simps(2)
lemmas parse_elems_Suc = parse_elems.simps(2)
lemmas parse_members_Suc = parse_members.simps(2)

declare parse_value.simps(2) [simp del] parse_elems.simps(2) [simp del]
  parse_members.simps(2) [simp del]

definition json_parse :: "string \<Rightarrow> json option" where
  "json_parse s =
     (case parse_value (2 * length s + 1) s of
        Some (v, r) \<Rightarrow> if skip_ws r = [] then Some v else None
      | None \<Rightarrow> None)"


section \<open>The parser consumes its input\<close>

lemma length_skip_ws: "length (skip_ws s) \<le> length s"
  by (simp add: skip_ws_def length_dropWhile_le)

lemma eat_length: "eat c s = Some t \<Longrightarrow> length t < length s"
  using length_skip_ws [of s] by (auto simp: eat_def split: list.splits if_splits)

lemma parse_nat_length: "parse_nat s = Some (n, r) \<Longrightarrow> length r < length s"
proof -
  assume "parse_nat s = Some (n, r)"
  then have "takeWhile is_digit s \<noteq> []" and r: "r = dropWhile is_digit s"
    by (auto simp: parse_nat_def Let_def split: if_splits)
  then have "0 < length (takeWhile is_digit s)" by simp
  moreover have "length (takeWhile is_digit s) + length (dropWhile is_digit s) = length s"
    by (metis length_append takeWhile_dropWhile_id)
  ultimately show ?thesis unfolding r by linarith
qed

lemma parse_num_length: "parse_num s = Some (n, r) \<Longrightarrow> length r < length s"
  by (auto simp: parse_num_def dest!: parse_nat_length split: list.splits if_splits)

lemma parse_chars_length: "parse_chars s = Some (x, r) \<Longrightarrow> length r < length s"
proof (induction s arbitrary: x r rule: parse_chars.induct)
  case (2 c s)
  show ?case
  proof (cases "c = backslash")
    case True
    with "2.prems" obtain p x' where p: "parse_escape s = Some p"
      and "parse_chars (snd p) = Some (x', r)"
      by (auto split: option.splits)
    then have "length r < length (snd p)" using "2.IH"(1) True by simp
    moreover have "length (snd p) < length s" using p parse_escape_length by (metis prod.collapse)
    ultimately show ?thesis by simp
  next
    case False
    with 2 show ?thesis by (fastforce split: if_splits)
  qed
qed simp

lemma drop_less: "0 < n \<Longrightarrow> s \<noteq> [] \<Longrightarrow> length (drop n s) < length s"
  by (cases s) auto

definition shrinks :: "(string \<Rightarrow> ('a \<times> string) option) \<Rightarrow> bool" where
  "shrinks p \<longleftrightarrow> (\<forall>s x r. p s = Some (x, r) \<longrightarrow> length r < length s)"

lemma shrinksD: "shrinks p \<Longrightarrow> p s = Some (x, r) \<Longrightarrow> length r < length s"
  unfolding shrinks_def by blast

lemma bind_eat_length:
  "shrinks p \<Longrightarrow> Option.bind (eat c s) p = Some (x, r) \<Longrightarrow> length r < length s"
  by (auto simp: bind_eq_Some_conv dest!: eat_length shrinksD)

lemma shrinks_chars: "shrinks parse_chars"
  unfolding shrinks_def using parse_chars_length by blast

lemma parse_value_Cons_length:
  assumes "skip_ws s = c # t" and "shrinks (parse_elems f)" and "shrinks (parse_members f)"
    and "parse_value (Suc f) s = Some (v, r)"
  shows "length r < length (c # t)"
proof -
  consider "c = CHR ''{''" | "c = CHR ''[''" | "c \<noteq> CHR ''{''" "c \<noteq> CHR ''[''" by blast
  then show ?thesis
  proof cases
    case 1
    with assms show ?thesis
      by (auto simp: parse_value_Suc split: option.splits dest!: eat_length shrinksD)
  next
    case 2
    with assms show ?thesis
      by (auto simp: parse_value_Suc split: option.splits dest!: eat_length shrinksD)
  next
    case 3
    with assms(1,4) show ?thesis
      by (auto simp: parse_value_Suc split: if_splits dest!: parse_chars_length parse_num_length simp del: drop_Suc_Cons)
  qed
qed

lemma parse_shrinks:
  "shrinks (parse_value f) \<and> shrinks (parse_elems f) \<and> shrinks (parse_members f)"
proof (induction f)
  case 0
  show ?case by (simp add: shrinks_def)
next
  case (Suc f)
  then have v: "shrinks (parse_value f)" and e: "shrinks (parse_elems f)"
    and m: "shrinks (parse_members f)" by blast+
  have "length r < length s" if "parse_value (Suc f) s = Some (x, r)" for s x r
  proof (cases "skip_ws s")
    case Nil
    with that show ?thesis by (simp add: parse_value_Suc)
  next
    case (Cons c t)
    have "length r < length (c # t)" by (rule parse_value_Cons_length [OF Cons e m that])
    then show ?thesis using length_skip_ws [of s] Cons by simp
  qed
  moreover have "length r < length s" if "parse_elems (Suc f) s = Some (x, r)" for s x r
    using that
    by (auto simp: parse_elems_Suc split: option.splits dest!: eat_length shrinksD [OF v] shrinksD [OF e])
  moreover have "length r < length s" if "parse_members (Suc f) s = Some (x, r)" for s x r
    using that
    by (auto simp: parse_members_Suc split: option.splits
        dest!: eat_length shrinksD [OF m] bind_eat_length [OF v] bind_eat_length [OF shrinks_chars])
  ultimately show ?case unfolding shrinks_def by blast
qed


section \<open>The fuel is enough\<close>

definition same_upto :: "nat \<Rightarrow> (string \<Rightarrow> 'a) \<Rightarrow> (string \<Rightarrow> 'a) \<Rightarrow> bool" where
  "same_upto n p q \<longleftrightarrow> (\<forall>s. length s \<le> n \<longrightarrow> p s = q s)"

lemma same_uptoD: "same_upto n p q \<Longrightarrow> length s \<le> n \<Longrightarrow> p s = q s"
  by (simp add: same_upto_def)

lemma parse_value_same:
  assumes "same_upto n (parse_elems f) (parse_elems g)"
    and "same_upto n (parse_members f) (parse_members g)"
  shows "same_upto (Suc n) (parse_value (Suc f)) (parse_value (Suc g))"
  unfolding same_upto_def
proof (intro allI impI)
  fix s :: string assume s: "length s \<le> Suc n"
  show "parse_value (Suc f) s = parse_value (Suc g) s"
  proof (cases "skip_ws s")
    case (Cons c t)
    then have "length t \<le> n" using length_skip_ws [of s] s by simp
    then have "parse_elems f t = parse_elems g t" "parse_members f t = parse_members g t"
      using same_uptoD [OF assms(1)] same_uptoD [OF assms(2)] by blast+
    then show ?thesis using Cons by (simp only: parse_value_Suc list.case)
  qed (simp add: parse_value_Suc)
qed

lemma parse_elems_same:
  assumes "same_upto n (parse_value f) (parse_value g)"
    and "0 < n \<Longrightarrow> same_upto (n - 1) (parse_elems f) (parse_elems g)"
  shows "same_upto n (parse_elems (Suc f)) (parse_elems (Suc g))"
  unfolding same_upto_def
proof (intro allI impI)
  fix s :: string assume s: "length s \<le> n"
  have v: "parse_value f s = parse_value g s" using same_uptoD [OF assms(1) s] .
  have e: "parse_elems f u = parse_elems g u"
    if "parse_value g s = Some (x, r)" "eat (CHR '','') r = Some u" for x r u
  proof -
    have "length u < length r" by (rule eat_length [OF that(2)])
    moreover have "length r < length s"
      using parse_shrinks [of g] that(1) by (auto dest: shrinksD)
    ultimately have "length u < length s" by simp
    with s show ?thesis by (intro same_uptoD [OF assms(2)]) simp_all
  qed
  show "parse_elems (Suc f) s = parse_elems (Suc g) s"
  proof (cases "parse_value g s")
    case (Some p)
    obtain x r where p: "p = (x, r)" by fastforce
    show ?thesis
    proof (cases "eat (CHR '','') r")
      case (Some u)
      then have "parse_elems f u = parse_elems g u" using e \<open>parse_value g s = Some p\<close> p by simp
      then show ?thesis
        by (simp only: parse_elems_Suc v \<open>parse_value g s = Some p\<close> p Some option.case prod.case)
    qed (simp only: parse_elems_Suc v \<open>parse_value g s = Some p\<close> p option.case prod.case)
  qed (simp only: parse_elems_Suc v option.case)
qed

lemma parse_members_same:
  assumes "same_upto n (parse_value f) (parse_value g)"
    and "0 < n \<Longrightarrow> same_upto (n - 1) (parse_members f) (parse_members g)"
  shows "same_upto n (parse_members (Suc f)) (parse_members (Suc g))"
  unfolding same_upto_def
proof (intro allI impI)
  fix s :: string assume s: "length s \<le> n"
  have v: "Option.bind (eat c r) (parse_value f) = Option.bind (eat c r) (parse_value g)"
    if "length r \<le> n" for c r
  proof (cases "eat c r")
    case (Some u)
    then have "length u \<le> n" using that eat_length by fastforce
    then show ?thesis using Some same_uptoD [OF assms(1)] by simp
  qed simp
  have m: "parse_members f u = parse_members g u"
    if "eat c r = Some u" "length r \<le> n" for c r u
    using that eat_length [OF that(1)] by (intro same_uptoD [OF assms(2)]) simp_all
  show "parse_members (Suc f) s = parse_members (Suc g) s"
  proof (cases "Option.bind (eat quote s) parse_chars")
    case (Some p)
    obtain k r where p: "p = (k, r)" by fastforce
    have r: "length r \<le> n" using bind_eat_length [OF shrinks_chars] Some p s by fastforce
    have "length r' \<le> n" if "Option.bind (eat (CHR '':'') r) (parse_value g) = Some (x, r')" for x r'
      using bind_eat_length [OF _ that] parse_shrinks r by fastforce
    then show ?thesis
      unfolding parse_members_Suc Some option.case p prod.case v [OF r] using m
      by (auto intro!: option.case_cong split: prod.splits)
  qed (simp add: parse_members_Suc)
qed

lemma parse_fuel:
  "(\<forall>n g. 2 * n + 1 \<le> f \<longrightarrow> 2 * n + 1 \<le> g \<longrightarrow> same_upto n (parse_value f) (parse_value g))
   \<and> (\<forall>n g. 2 * n + 2 \<le> f \<longrightarrow> 2 * n + 2 \<le> g \<longrightarrow> same_upto n (parse_elems f) (parse_elems g))
   \<and> (\<forall>n g. 2 * n + 2 \<le> f \<longrightarrow> 2 * n + 2 \<le> g \<longrightarrow>
        same_upto n (parse_members f) (parse_members g))"
proof (induction f)
  case (Suc f)
  have v: "same_upto n (parse_value f) (parse_value g)" if "2 * n + 1 \<le> f" "2 * n + 1 \<le> g" for n g
    using Suc that by blast
  have e: "same_upto n (parse_elems f) (parse_elems g)" if "2 * n + 2 \<le> f" "2 * n + 2 \<le> g" for n g
    using Suc that by blast
  have m: "same_upto n (parse_members f) (parse_members g)"
    if "2 * n + 2 \<le> f" "2 * n + 2 \<le> g" for n g
    using Suc that by blast
  have "same_upto n (parse_value (Suc f)) (parse_value (Suc h))"
    if "2 * n + 1 \<le> Suc f" "2 * n + 1 \<le> Suc h" for n h
  proof (cases n)
    case 0
    then show ?thesis by (simp add: same_upto_def parse_value_Suc skip_ws_def)
  next
    case (Suc k)
    with that show ?thesis by (auto intro!: parse_value_same e m)
  qed
  moreover have "same_upto n (parse_elems (Suc f)) (parse_elems (Suc h))"
    if "2 * n + 2 \<le> Suc f" "2 * n + 2 \<le> Suc h" for n h
    using that by (intro parse_elems_same v e) auto
  moreover have "same_upto n (parse_members (Suc f)) (parse_members (Suc h))"
    if "2 * n + 2 \<le> Suc f" "2 * n + 2 \<le> Suc h" for n h
    using that by (intro parse_members_same v m) auto
  ultimately show ?case
    by (intro conjI allI impI; rename_tac n g; case_tac g) simp_all
qed simp

lemma parse_value_fuel:
  assumes "2 * length s < f"
  shows "parse_value f s = parse_value (2 * length s + 1) s"
proof -
  have "same_upto (length s) (parse_value f) (parse_value (2 * length s + 1))"
    using parse_fuel [of f] assms by simp
  then show ?thesis by (rule same_uptoD) simp
qed


section \<open>Round trip\<close>

subsection \<open>Numbers\<close>

lemma is_digit_chr [simp]: "n < 10 \<Longrightarrow> is_digit (chr (48 + n))"
  by (simp add: is_digit_def)

lemma show_nat_digits: "c \<in> set (show_nat n) \<Longrightarrow> is_digit c"
proof (induction n rule: show_nat.induct)
  case (1 n)
  then show ?case by (subst (asm) show_nat.simps) (auto split: if_splits)
qed

lemma show_nat_not_Nil [simp]: "show_nat n \<noteq> []"
  by (subst show_nat.simps) simp

lemma read_nat_snoc: "read_nat (ds @ [c]) = 10 * read_nat ds + (ord c - 48)"
  by (simp add: read_nat_def)

lemma read_show_nat: "read_nat (show_nat n) = n"
proof (induction n rule: show_nat.induct)
  case (1 n)
  show ?case
  proof (cases "n < 10")
    case True
    then show ?thesis by (subst show_nat.simps) (simp add: read_nat_def)
  next
    case False
    then show ?thesis by (subst show_nat.simps) (simp add: read_nat_snoc 1)
  qed
qed

lemma show_nat_leading: "0 < n \<Longrightarrow> hd (show_nat n) \<noteq> CHR ''0''"
proof (induction n rule: show_nat.induct)
  case (1 n)
  show ?case
  proof (cases "n < 10")
    case True
    with 1 show ?thesis by (subst show_nat.simps) (simp add: ord_eq_iff [symmetric])
  next
    case False
    with 1 have "hd (show_nat (n div 10)) \<noteq> CHR ''0''" by simp
    with False show ?thesis by (subst show_nat.simps) simp
  qed
qed

lemma show_nat_zero: "show_nat 0 = ''0''"
  by (subst show_nat.simps) (simp add: ord_eq_iff [symmetric])

text \<open>A text that may follow a number: it does not go on with the number.\<close>

definition num_end :: "string \<Rightarrow> bool" where
  "num_end r \<longleftrightarrow> (r = [] \<or> \<not> is_digit (hd r) \<and> hd r \<notin> {CHR ''.'', CHR ''e'', CHR ''E''})"

lemma parse_nat_show:
  assumes "num_end r"
  shows "parse_nat (show_nat n @ r) = Some (n, r)"
proof -
  have r: "takeWhile is_digit r = []" "dropWhile is_digit r = r"
    using assms by (cases r; simp add: num_end_def)+
  have d: "takeWhile is_digit (show_nat n @ r) = show_nat n"
    "dropWhile is_digit (show_nat n @ r) = r"
    using r by (simp_all add: takeWhile_append2 dropWhile_append2 show_nat_digits)
  have "\<not> (hd (show_nat n) = CHR ''0'' \<and> 1 < length (show_nat n))"
    using show_nat_leading [of n] by (cases "n = 0") (auto simp: show_nat_zero)
  moreover have "\<not> (r \<noteq> [] \<and> hd r \<in> {CHR ''.'', CHR ''e'', CHR ''E''})"
    using assms by (auto simp: num_end_def)
  ultimately show ?thesis
    by (simp only: parse_nat_def Let_def d show_nat_not_Nil if_False read_show_nat)
qed

lemma show_nat_hd: "is_digit (hd (show_nat n))"
  by (rule show_nat_digits) (rule hd_in_set, simp)

lemma parse_num_show:
  assumes "num_end r"
  shows "parse_num (show_int i @ r) = Some (i, r)"
proof (cases "i < 0")
  case True
  then show ?thesis by (simp add: show_int_def parse_num_def parse_nat_show [OF assms])
next
  case False
  obtain c t where c: "show_nat (nat i) = c # t" by (cases "show_nat (nat i)") auto
  then have "c \<noteq> CHR ''-''" using show_nat_hd [of "nat i"] by (auto simp: is_digit_def)
  with False c parse_nat_show [OF assms, of "nat i"] show ?thesis
    by (simp add: show_int_def parse_num_def)
qed


subsection \<open>Strings\<close>

lemma hex_val_digit [simp]: "n < 16 \<Longrightarrow> hex_val (hex_digit n) = Some n"
  by (auto simp: hex_val_def hex_digit_def)

lemma hex_val_0 [simp]: "hex_val (CHR ''0'') = Some 0"
  by (simp add: hex_val_def)

lemma unicode_escape_show:
  "ord c < 32 \<Longrightarrow>
   unicode_escape (CHR ''0'') (CHR ''0'') (hex_digit (ord c div 16)) (hex_digit (ord c mod 16))
     = Some c"
  by (simp add: unicode_escape_def Let_def)

lemma chr_eqI: "ord c = n \<Longrightarrow> chr n = c"
  by auto

lemma parse_escape_char:
  "parse_chars (escape_char c @ s) = map_option (apfst (Cons c)) (parse_chars s)"
proof -
  consider "c = quote" | "c = backslash" | "ord c \<in> {8, 9, 10, 12, 13}"
    | "c \<noteq> quote" "c \<noteq> backslash" "ord c < 32" "ord c \<notin> {8, 9, 10, 12, 13}"
    | "c \<noteq> quote" "c \<noteq> backslash" "\<not> ord c < 32" by fastforce
  then show ?thesis
  proof cases
    case 1
    then show ?thesis by (simp add: escape_char_def parse_escape_def unescape_def)
  next
    case 2
    then show ?thesis by (simp add: escape_char_def parse_escape_def unescape_def)
  next
    case 3
    then have "c \<noteq> quote" "c \<noteq> backslash" by auto
    with 3 show ?thesis
      by (auto simp: escape_char_def parse_escape_def unescape_def chr_eqI)
  next
    case 4
    then show ?thesis
      by (simp add: escape_char_def parse_escape_def unicode_escape_show)
  next
    case 5
    then have "ord c \<notin> {8, 9, 10, 12, 13}" by auto
    with 5 show ?thesis by (simp add: escape_char_def)
  qed
qed

lemma parse_chars_show: "parse_chars (concat (map escape_char s) @ quote # r) = Some (s, r)"
proof (induction s)
  case (Cons c s)
  then show ?case by (simp add: parse_escape_char del: parse_chars.simps(2))
qed simp

lemma parse_chars_show_string: "show_string s @ r = quote # (concat (map escape_char s) @ quote # r)"
  by (simp add: show_string_def)


subsection \<open>Values\<close>

lemma show_int_Cons:
  obtains c t where "show_int i = c # t" and "c = CHR ''-'' \<or> is_digit c"
proof (cases "i < 0")
  case True
  then show ?thesis using that by (simp add: show_int_def)
next
  case False
  then have "show_int i = show_nat (nat i)" by (simp add: show_int_def)
  then show ?thesis using that show_nat_hd [of "nat i"]
    by (cases "show_nat (nat i)") auto
qed

text \<open>The characters with which the text of a value can begin.\<close>

definition value_start :: "char \<Rightarrow> bool" where
  "value_start c \<longleftrightarrow>
     \<not> json_space c \<and> c \<noteq> CHR '']'' \<and> c \<noteq> CHR ''}'' \<and> c \<noteq> CHR '','' \<and> c \<noteq> CHR '':''"

lemma stringify_Cons: obtains c t where "stringify v = c # t" and "value_start c"
proof (cases v)
  case (JBool b)
  then show ?thesis using that by (cases b) (auto simp: value_start_def json_space_def)
next
  case (JNum i)
  obtain c t where "show_int i = c # t" "c = CHR ''-'' \<or> is_digit c" by (rule show_int_Cons)
  then have "value_start c" by (auto simp: value_start_def json_space_def is_digit_def)
  then show ?thesis using that JNum \<open>show_int i = c # t\<close> by simp
qed (use that in \<open>auto simp: value_start_def json_space_def show_string_def\<close>)

lemma skip_ws_stringify [simp]: "skip_ws (stringify v @ r) = stringify v @ r"
  by (rule stringify_Cons [of v]) (auto simp: skip_ws_def value_start_def)

lemma skip_ws_Cons: "\<not> json_space c \<Longrightarrow> skip_ws (c # r) = c # r"
  by (simp add: skip_ws_def)

lemma eat_Cons: "\<not> json_space c \<Longrightarrow> eat d (c # r) = (if c = d then Some r else None)"
  by (simp add: eat_def skip_ws_def)

lemma eat_punct [simp]:
  "eat d (CHR '','' # r) = (if CHR '','' = d then Some r else None)"
  "eat d (CHR '']'' # r) = (if CHR '']'' = d then Some r else None)"
  "eat d (CHR ''}'' # r) = (if CHR ''}'' = d then Some r else None)"
  "eat d (CHR '':'' # r) = (if CHR '':'' = d then Some r else None)"
  "eat d (quote # r) = (if quote = d then Some r else None)"
  by (simp_all add: eat_Cons json_space_def)

lemma eat_stringify [simp]: "eat (CHR '']'') (stringify v @ r) = None"
  by (rule stringify_Cons [of v]) (auto simp: eat_Cons value_start_def)

lemma num_end_punct [simp]:
  "num_end []" "num_end (CHR '','' # r)" "num_end (CHR '']'' # r)" "num_end (CHR ''}'' # r)"
  by (simp_all add: num_end_def is_digit_def)

definition parses_back :: "json \<Rightarrow> bool" where
  "parses_back v \<longleftrightarrow>
     (\<forall>f r. 2 * length (stringify v) < f \<longrightarrow> num_end r \<longrightarrow> parse_value f (stringify v @ r) = Some (v, r))"

lemma parses_backD:
  "parses_back v \<Longrightarrow> 2 * length (stringify v) < f \<Longrightarrow> num_end r \<Longrightarrow>
   parse_value f (stringify v @ r) = Some (v, r)"
  by (simp add: parses_back_def)

lemma parse_value_number:
  assumes "num_end r"
  shows "parse_value (Suc f) (show_int i @ r) = Some (JNum i, r)"
proof -
  obtain c t where c: "show_int i = c # t" "c = CHR ''-'' \<or> is_digit c" by (rule show_int_Cons)
  then have "\<not> json_space c" "c \<noteq> CHR ''{''" "c \<noteq> CHR ''[''" "c \<noteq> quote"
    "c \<noteq> CHR ''n''" "c \<noteq> CHR ''t''" "c \<noteq> CHR ''f''"
    by (auto simp: json_space_def is_digit_def)
  then show ?thesis using parse_num_show [OF assms, of i] c
    by (simp add: parse_value_Suc skip_ws_Cons)
qed

lemma parse_elems_show:
  assumes "vs \<noteq> []" and "\<forall>v \<in> set vs. parses_back v"
    and "2 * length (intercalate '','' (map stringify vs)) + 1 < f"
  shows "parse_elems f (intercalate '','' (map stringify vs) @ CHR '']'' # r) = Some (vs, r)"
  using assms
proof (induction vs arbitrary: f)
  case (Cons v vs)
  obtain g where f: "f = Suc g" using Cons.prems(3) by (cases f) auto
  show ?case
  proof (cases "vs = []")
    case True
    with Cons.prems f show ?thesis
      by (simp add: parse_elems_Suc parses_backD)
  next
    case False
    let ?rest = "intercalate '','' (map stringify vs)"
    have split: "intercalate '','' (map stringify (v # vs)) = stringify v @ CHR '','' # ?rest"
      using False by (simp add: intercalate_Cons)
    note bound = Cons.prems(3) [unfolded split f]
    have "parse_elems g (?rest @ CHR '']'' # r) = Some (vs, r)"
      using Cons.prems(2) False bound by (intro Cons.IH) simp_all
    moreover have "parse_value g (stringify v @ CHR '','' # ?rest @ CHR '']'' # r)
        = Some (v, CHR '','' # ?rest @ CHR '']'' # r)"
      using Cons.prems(2) bound by (intro parses_backD) simp_all
    ultimately show ?thesis unfolding split f by (simp add: parse_elems_Suc)
  qed
qed simp

abbreviation show_member :: "string \<times> json \<Rightarrow> string" where
  "show_member kv \<equiv> show_string (fst kv) @ CHR '':'' # stringify (snd kv)"

lemma parse_members_show:
  assumes "kvs \<noteq> []" and "\<forall>kv \<in> set kvs. parses_back (snd kv)"
    and "2 * length (intercalate '','' (map show_member kvs)) + 1 < f"
  shows "parse_members f (intercalate '','' (map show_member kvs) @ CHR ''}'' # r) = Some (kvs, r)"
  using assms
proof (induction kvs arbitrary: f)
  case (Cons kv kvs)
  obtain g where f: "f = Suc g" using Cons.prems(3) by (cases f) auto
  obtain k v where kv: "kv = (k, v)" by fastforce
  have key: "Option.bind (eat quote (show_string k @ s)) parse_chars = Some (k, s)" for s
    by (simp add: parse_chars_show_string parse_chars_show)
  show ?case
  proof (cases "kvs = []")
    case True
    with Cons.prems f kv show ?thesis
      by (simp add: parse_members_Suc key parses_backD)
  next
    case False
    let ?rest = "intercalate '','' (map show_member kvs)"
    have split: "intercalate '','' (map show_member (kv # kvs))
        = show_string k @ CHR '':'' # stringify v @ CHR '','' # ?rest"
      using False kv by (simp add: intercalate_Cons)
    note bound = Cons.prems(3) [unfolded split f]
    have "parse_members g (?rest @ CHR ''}'' # r) = Some (kvs, r)"
      using Cons.prems(2) False bound by (intro Cons.IH) simp_all
    moreover have "parse_value g (stringify v @ CHR '','' # ?rest @ CHR ''}'' # r)
        = Some (v, CHR '','' # ?rest @ CHR ''}'' # r)"
      using Cons.prems(2) bound kv by (intro parses_backD) simp_all
    ultimately show ?thesis unfolding split f by (simp add: kv parse_members_Suc key)
  qed
qed simp

lemma eat_members: "kvs \<noteq> [] \<Longrightarrow> eat (CHR ''}'') (intercalate '','' (map show_member kvs) @ r) = None"
  by (cases kvs; cases "tl kvs") (auto simp: parse_chars_show_string)

lemma eat_elems: "vs \<noteq> [] \<Longrightarrow> eat (CHR '']'') (intercalate '','' (map stringify vs) @ r) = None"
  by (cases vs; cases "tl vs") auto

lemma all_parse_back: "parses_back v"
proof (induction v)
  case JNull
  show ?case unfolding parses_back_def
    by (intro allI impI; rename_tac f r; case_tac f)
      (simp_all add: parse_value_Suc skip_ws_Cons json_space_def)
next
  case (JBool b)
  show ?case unfolding parses_back_def
    by (intro allI impI; rename_tac f r; case_tac f)
      (simp_all add: parse_value_Suc skip_ws_Cons json_space_def)
next
  case (JNum i)
  show ?case unfolding parses_back_def
    by (intro allI impI; rename_tac f r; case_tac f) (simp_all add: parse_value_number)
next
  case (JStr s)
  show ?case unfolding parses_back_def
    by (intro allI impI; rename_tac f r; case_tac f)
      (simp_all add: parse_value_Suc skip_ws_Cons json_space_def parse_chars_show_string
        parse_chars_show)
next
  case (JArr vs)
  have "parse_value (Suc f) (stringify (JArr vs) @ r) = Some (JArr vs, r)"
    if "2 * length (stringify (JArr vs)) < Suc f" for f r
    using that JArr parse_elems_show [of vs f r]
    by (cases "vs = []") (simp_all add: parse_value_Suc skip_ws_Cons json_space_def eat_elems)
  then show ?case unfolding parses_back_def by (metis not_less_zero not0_implies_Suc)
next
  case (JObj kvs)
  have "\<forall>kv \<in> set kvs. parses_back (snd kv)" using JObj by (metis snds.intros surjective_pairing)
  then have "parse_value (Suc f) (stringify (JObj kvs) @ r) = Some (JObj kvs, r)"
    if "2 * length (stringify (JObj kvs)) < Suc f" for f r
    using that parse_members_show [of kvs f r]
    by (cases "kvs = []") (simp_all add: parse_value_Suc skip_ws_Cons json_space_def eat_members)
  then show ?case unfolding parses_back_def by (metis not_less_zero not0_implies_Suc)
qed

lemma json_parse_stringify: "json_parse (stringify v) = Some v"
proof -
  have "parse_value (2 * length (stringify v) + 1) (stringify v @ []) = Some (v, [])"
    by (rule parses_backD [OF all_parse_back]) simp_all
  then show ?thesis by (simp add: json_parse_def skip_ws_def)
qed

interpretation json: codec stringify json_parse "\<lambda>_. True"
  by unfold_locales (rule json_parse_stringify)

end
