(* ===== verification/Models.thy ===== *)
theory Models
  imports Js_Json
begin

text \<open>
  The data of the client: \<^verbatim>\<open>src/frontend/src/types/\<close> (\<open>models.ts\<close>, \<open>requests.ts\<close>,
  \<open>websocket.ts\<close>, \<open>api.ts\<close>, \<open>admin.ts\<close>). An interface is a record whose fields carry a prefix in
  place of the object they belong to; an optional property is an option; an enum is a datatype with
  its numeric code. Request bodies come with the object literal that is sent.
\<close>


section \<open>models.ts\<close>

datatype role = MEMBER | ADMIN

fun role_code :: "role \<Rightarrow> int" where
  "role_code MEMBER = 0"
| "role_code ADMIN = 1"

datatype message_type = TEXT | SYSTEM | IMAGE | FILE | NOTICE

fun message_type_code :: "message_type \<Rightarrow> int" where
  "message_type_code TEXT = 0"
| "message_type_code SYSTEM = 1"
| "message_type_code IMAGE = 2"
| "message_type_code FILE = 3"
| "message_type_code NOTICE = 4"

instantiation role :: linorder
begin

definition less_eq_role :: "role \<Rightarrow> role \<Rightarrow> bool" where
  "less_eq_role a b \<longleftrightarrow> role_code a \<le> role_code b"

definition less_role :: "role \<Rightarrow> role \<Rightarrow> bool" where
  "less_role a b \<longleftrightarrow> role_code a < role_code b"

instance
  by intro_classes (auto simp: less_eq_role_def less_role_def elim!: role_code.elims)

end

text \<open>\<open>user_email\<close> is an option because the reader of the cached user does not check it.\<close>

record user =
  user_id :: string
  user_name :: string
  user_email :: "string option"
  user_role :: "string option"

record room =
  room_id :: string
  room_name :: string
  room_description :: string
  room_max_members :: int
  room_owner_id :: string
  room_role :: "role option"
  room_created_at :: string
  room_updated_at :: string
  room_deleted_at :: "string option"
  room_pop_at :: "string option"
  room_popped_at :: "string option"

record room_member =
  mem_room_id :: string
  mem_user_id :: string
  mem_user_name :: string
  mem_role :: role
  mem_joined_at :: string
  mem_left_at :: "string option"

record message =
  msg_id :: string
  msg_room_id :: string
  msg_author_id :: string
  msg_author_name :: string
  msg_type :: message_type
  msg_content :: string
  msg_created_at :: string
  msg_updated_at :: "string option"

datatype system_kind = user_joined | user_left

record system_message =
  sys_type :: system_kind
  sys_user_name :: string
  sys_timestamp :: string

record invite_link =
  inv_token :: string
  inv_room_id :: string
  inv_expires_at :: string


section \<open>websocket.ts\<close>

text \<open>
  What arrives is the result of \<open>JSON.parse\<close> under a cast, so the payload may be missing: it is an
  option. Of a deleted message only the id is used.
\<close>

datatype server_event =
    NewMessage "message option"
  | UpdatedMessage "message option"
  | DeletedMessage "string option"
  | Pong


section \<open>requests.ts\<close>

record login_request =
  login_email :: string
  login_password :: string

record register_request =
  reg_name :: string
  reg_email :: string
  reg_password :: string

record update_user_request =
  uu_name :: "string option"
  uu_email :: "string option"
  uu_password :: "string option"

record create_room_request =
  cr_name :: string
  cr_description :: "string option"
  cr_max_members :: "int option"
  cr_pop_at :: "string option"

record update_room_request =
  ur_name :: "string option"
  ur_description :: "string option"
  ur_max_members :: "int option"

record create_message_request =
  cm_id :: string
  cm_content :: string
  cm_message_type :: message_type

record create_invite_link_request =
  ci_single_use :: "bool option"
  ci_ttl_hours :: "int option"

record admin_create_user_input =
  acu_name :: string
  acu_email :: string
  acu_password :: string
  acu_role :: "string option"

record admin_update_user_input =
  auu_name :: "string option"
  auu_email :: "string option"
  auu_password :: "string option"

abbreviation ostr :: "string option \<Rightarrow> json option" where
  "ostr \<equiv> map_option JStr"

definition login_body :: "login_request \<Rightarrow> json" where
  "login_body r = jobject [(''email'', Some (JStr (login_email r))),
                           (''password'', Some (JStr (login_password r)))]"

definition register_body :: "register_request \<Rightarrow> json" where
  "register_body r = jobject [(''name'', Some (JStr (reg_name r))),
     (''email'', Some (JStr (reg_email r))), (''password'', Some (JStr (reg_password r)))]"

definition update_user_body :: "update_user_request \<Rightarrow> json" where
  "update_user_body r =
     jobject [(''name'', ostr (uu_name r)), (''email'', ostr (uu_email r)),
              (''password'', ostr (uu_password r))]"

definition create_room_body :: "create_room_request \<Rightarrow> json" where
  "create_room_body r =
     jobject [(''name'', Some (JStr (cr_name r))), (''description'', ostr (cr_description r)),
              (''max_members'', map_option JNum (cr_max_members r)), (''pop_at'', ostr (cr_pop_at r))]"

definition update_room_body :: "update_room_request \<Rightarrow> json" where
  "update_room_body r =
     jobject [(''name'', ostr (ur_name r)), (''description'', ostr (ur_description r)),
              (''max_members'', map_option JNum (ur_max_members r))]"

definition create_message_body :: "create_message_request \<Rightarrow> json" where
  "create_message_body r =
     jobject [(''id'', Some (JStr (cm_id r))), (''content'', Some (JStr (cm_content r))),
              (''message_type'', Some (JNum (message_type_code (cm_message_type r))))]"

definition update_message_body :: "string \<Rightarrow> json" where
  "update_message_body content = jobject [(''content'', Some (JStr content))]"

definition create_invite_link_body :: "create_invite_link_request \<Rightarrow> json" where
  "create_invite_link_body r =
     jobject [(''single_use'', map_option JBool (ci_single_use r)),
              (''ttl_hours'', map_option JNum (ci_ttl_hours r))]"

definition update_room_member_body :: "role \<Rightarrow> json" where
  "update_room_member_body r = jobject [(''role'', Some (JNum (role_code r)))]"

definition admin_create_user_body :: "admin_create_user_input \<Rightarrow> json" where
  "admin_create_user_body r =
     jobject [(''name'', Some (JStr (acu_name r))), (''email'', Some (JStr (acu_email r))),
              (''password'', Some (JStr (acu_password r))), (''role'', ostr (acu_role r))]"

definition admin_update_user_body :: "admin_update_user_input \<Rightarrow> json" where
  "admin_update_user_body r =
     jobject [(''name'', ostr (auu_name r)), (''email'', ostr (auu_email r)),
              (''password'', ostr (auu_password r))]"


section \<open>Errors\<close>

text \<open>
  What a promise of the client rejects with: the \<open>ApiError\<close> class of \<open>api-client.ts\<close> (status,
  code, message, data), another \<open>Error\<close> (of the platform or thrown with a message), or a value
  that is no \<open>Error\<close> at all.
\<close>

datatype js_error =
    ApiError nat string string "json option"
  | JsError string
  | NoError

section \<open>Users as JSON\<close>

definition user_to_json :: "user \<Rightarrow> json" where
  "user_to_json u =
     jobject [(''id'', Some (JStr (user_id u))), (''name'', Some (JStr (user_name u))),
              (''email'', ostr (user_email u)), (''role'', ostr (user_role u))]"

text \<open>The fields of an object at their declared types; only id and name are required.\<close>

definition user_of_json :: "json \<Rightarrow> user option" where
  "user_of_json v =
     (case (jstring (jfield ''id'' v), jstring (jfield ''name'' v)) of
        (Some i, Some n) \<Rightarrow>
          Some \<lparr>user_id = i, user_name = n, user_email = jstring (jfield ''email'' v),
                user_role = jstring (jfield ''role'' v)\<rparr>
      | _ \<Rightarrow> None)"

lemma jfield_jobject_Nil [simp]: "jfield k (jobject []) = None"
  by (simp add: jfield_def jobject_def List.map_filter_simps)

lemma jfield_jobject_Cons:
  "k \<notin> fst ` set kvs \<Longrightarrow> jfield k (jobject ((k, v) # kvs)) = v"
  "k \<noteq> l \<Longrightarrow> jfield k (jobject ((l, v) # kvs)) = jfield k (jobject kvs)"
proof -
  show "jfield k (jobject ((k, v) # kvs)) = v" if fresh: "k \<notin> fst ` set kvs"
  proof -
    have "map_of (rev (List.map_filter (\<lambda>(k, v). map_option (Pair k) v) kvs)) k = None"
      using fresh by (force simp: map_of_eq_None_iff List.map_filter_def)
    then show ?thesis
      by (cases v) (simp_all add: jfield_def jobject_def List.map_filter_simps map_add_def)
  qed
  show "jfield k (jobject ((l, v) # kvs)) = jfield k (jobject kvs)" if "k \<noteq> l"
    using that
    by (cases v) (simp_all add: jfield_def jobject_def List.map_filter_simps map_add_def
        split: option.splits)
qed

lemma jfield_JObj [simp]: "jfield k (JObj kvs) = map_of (rev kvs) k"
  by (simp add: jfield_def)

lemma jstring_ostr [simp]: "jstring (ostr v) = v"
  by (cases v) (simp_all add: jstring_def)

lemma jstring_JStr [simp]: "jstring (Some (JStr s)) = Some s"
  by (simp add: jstring_def)

lemma user_of_to_json: "user_of_json (user_to_json u) = Some u"
  by (simp add: user_of_json_def user_to_json_def jfield_jobject_Cons)

interpretation user_json: codec user_to_json user_of_json "\<lambda>_. True"
  by unfold_locales (rule user_of_to_json)

text \<open>A user written as text and read back: the JSON codec after the object codec.\<close>

interpretation user_text: codec_compose user_to_json user_of_json "\<lambda>_. True"
    stringify json_parse "\<lambda>_. True"
  by unfold_locales simp

lemmas read_written_user = user_text.dec_enc [OF TrueI]

end
