(* ===== verification/Js_Base64.thy ===== *)
theory Js_Base64
  imports Prelude "HOL-Library.Word"
begin

text \<open>
  Base64 as the browser has it (\<open>btoa\<close>, \<open>atob\<close>), \<open>TextEncoder\<close>, and \<open>base64url\<close> of
  \<^verbatim>\<open>src/frontend/src/lib/dpop.ts\<close>. A byte of a \<open>Uint8Array\<close> is an 8-bit word; a binary
  string is a \<^typ>\<open>string\<close>, whose characters are exactly the code units 0 to 255 that \<open>btoa\<close>
  accepts. The round trips are interpretations of the codec interface.
\<close>

type_synonym byte = "8 word"

named_theorems b64_simps \<open>evaluation rules of the base64 routines\<close>


section \<open>btoa and atob\<close>

definition b64_char :: "nat \<Rightarrow> char" where
  "b64_char n =
     (if n < 26 then chr (65 + n)
      else if n < 52 then chr (71 + n)
      else if n < 62 then chr (n - 4)
      else if n = 62 then CHR ''+'' else CHR ''/'')"

definition b64_val :: "char \<Rightarrow> nat option" where
  "b64_val c =
     (if 65 \<le> ord c \<and> ord c \<le> 90 then Some (ord c - 65)
      else if 97 \<le> ord c \<and> ord c \<le> 122 then Some (ord c - 71)
      else if 48 \<le> ord c \<and> ord c \<le> 57 then Some (ord c + 4)
      else if c = CHR ''+'' then Some 62
      else if c = CHR ''/'' then Some 63
      else None)"

text \<open>The sextets of a binary string, three bytes to four sextets.\<close>

fun sextets :: "string \<Rightarrow> nat list" where
  "sextets [] = []"
| "sextets [a] = [ord a div 4, (ord a mod 4) * 16]"
| "sextets [a, b] = [ord a div 4, (ord a mod 4) * 16 + ord b div 16, (ord b mod 16) * 4]"
| "sextets (a # b # c # s) =
     ord a div 4 # ((ord a mod 4) * 16 + ord b div 16) #
     ((ord b mod 16) * 4 + ord c div 64) # (ord c mod 64) # sextets s"

definition btoa :: "string \<Rightarrow> string" where
  "btoa s = map b64_char (sextets s) @ replicate ((3 - length s mod 3) mod 3) (CHR ''='')"

fun unsextets :: "nat list \<Rightarrow> string" where
  "unsextets (a # b # c # d # s) =
     chr (a * 4 + b div 16) # chr ((b mod 16) * 16 + c div 4) # chr ((c mod 4) * 64 + d) #
     unsextets s"
| "unsextets [a, b, c] = [chr (a * 4 + b div 16), chr ((b mod 16) * 16 + c div 4)]"
| "unsextets [a, b] = [chr (a * 4 + b div 16)]"
| "unsextets _ = []"

definition b64_space :: "char \<Rightarrow> bool" where
  "b64_space c \<longleftrightarrow> ord c \<in> {9, 10, 12, 13, 32}"

text \<open>
  \<open>atob\<close> follows the forgiving decoder of the HTML standard: white space is dropped, up to two
  padding signs are accepted when the length is a multiple of four, every other character must be
  in the alphabet, and a length of one modulo four is an error.
\<close>

definition b64_unpad :: "string \<Rightarrow> string" where
  "b64_unpad t =
     (if length t mod 4 = 0 then
        (case rev t of
           x # y # r \<Rightarrow> if x = CHR ''='' \<and> y = CHR ''='' then rev r
                       else if x = CHR ''='' then rev (y # r) else t
         | _ \<Rightarrow> t)
      else t)"

fun all_some :: "'a option list \<Rightarrow> 'a list option" where
  "all_some [] = Some []"
| "all_some (None # xs) = None"
| "all_some (Some x # xs) = map_option (Cons x) (all_some xs)"

definition atob :: "string \<Rightarrow> string option" where
  "atob s =
     (let t = b64_unpad (filter (\<lambda>c. \<not> b64_space c) s)
      in if length t mod 4 = 1 then None
         else map_option unsextets (all_some (map b64_val t)))"


subsection \<open>The alphabet\<close>

lemma ord_b64_char: "n < 64 \<Longrightarrow> ord (b64_char n) =
    (if n < 26 then 65 + n else if n < 52 then 71 + n else if n < 62 then n - 4
     else if n = 62 then 43 else 47)"
  by (simp add: b64_char_def)

lemma b64_val_char [simp]: "n < 64 \<Longrightarrow> b64_val (b64_char n) = Some n"
  by (auto simp: b64_val_def b64_char_def ord_eq_iff [symmetric])

lemma b64_char_not_pad: "n < 64 \<Longrightarrow> b64_char n \<noteq> CHR ''=''"
  by (auto simp: b64_char_def ord_eq_iff [symmetric])

lemma b64_char_not_space: "n < 64 \<Longrightarrow> \<not> b64_space (b64_char n)"
  by (auto simp: b64_space_def ord_b64_char)

lemma all_some_map: "all_some (map Some xs) = Some xs"
  by (induction xs) auto

lemma all_some_b64: "\<forall>n \<in> set ns. n < 64 \<Longrightarrow> all_some (map b64_val (map b64_char ns)) = Some ns"
  by (induction ns) auto


subsection \<open>Sextets\<close>

lemma sextets_less: "n \<in> set (sextets s) \<Longrightarrow> n < 64"
proof (induction s rule: sextets.induct)
  case (4 a b c s)
  have "ord a < 256" "ord b < 256" "ord c < 256" by simp_all
  with 4 show ?case by (auto simp del: ord_less)
next
  case (2 a)
  have "ord a < 256" by simp
  with 2 show ?case by (auto simp del: ord_less)
next
  case (3 a b)
  have "ord a < 256" "ord b < 256" by simp_all
  with 3 show ?case by (auto simp del: ord_less)
qed simp

lemma length_sextets: "length (sextets s) = (4 * length s + 2) div 3"
  by (induction s rule: sextets.induct) auto

lemma div_pack: "r < k \<Longrightarrow> (m * k + r) div k = (m :: nat)"
  by simp

lemma mod_pack: "r < k \<Longrightarrow> (m * k + r) mod k = (r :: nat)"
  by simp

lemma regroup:
  fixes x y z :: nat
  assumes "y < 256" "z < 256"
  shows "x div 4 * 4 + (x mod 4 * 16 + y div 16) div 16 = x"
    and "(x mod 4 * 16 + y div 16) mod 16 * 16 + (y mod 16 * 4 + z div 64) div 4 = y"
    and "(y mod 16 * 4 + z div 64) mod 4 * 64 + z mod 64 = z"
    and "x div 4 * 4 + (x mod 4 * 16) div 16 = x"
    and "(x mod 4 * 16 + y div 16) mod 16 * 16 + (y mod 16 * 4) div 4 = y"
proof -
  have y: "y div 16 < 16" and z: "z div 64 < 4"
    using assms by (simp_all add: less_mult_imp_div_less)
  show "x div 4 * 4 + (x mod 4 * 16 + y div 16) div 16 = x"
    by (simp only: div_pack [OF y] div_mult_mod_eq)
  show "(x mod 4 * 16 + y div 16) mod 16 * 16 + (y mod 16 * 4 + z div 64) div 4 = y"
    by (simp only: mod_pack [OF y] div_pack [OF z] div_mult_mod_eq)
  show "(y mod 16 * 4 + z div 64) mod 4 * 64 + z mod 64 = z"
    by (simp only: mod_pack [OF z] div_mult_mod_eq)
  show "x div 4 * 4 + (x mod 4 * 16) div 16 = x" by simp
  show "(x mod 4 * 16 + y div 16) mod 16 * 16 + (y mod 16 * 4) div 4 = y"
    by (simp only: mod_pack [OF y]) simp
qed

lemma unsextets_sextets: "unsextets (sextets s) = s"
proof (induction s rule: sextets.induct)
  case (4 a b c s)
  have "ord b < 256" "ord c < 256" by simp_all
  note r = regroup(1,2) [OF this, where x = "ord a"] regroup(3) [OF this]
  show ?case using 4 by (simp only: sextets.simps unsextets.simps r char_of_char)
next
  case (2 a)
  show ?case using regroup(4) [where x = "ord a" and y = 0 and z = 0] by simp
next
  case (3 a b)
  have "ord b < 256" "(0::nat) < 256" by simp_all
  note r = regroup(1,5) [OF this, where x = "ord a"]
  show ?case by (simp only: sextets.simps unsextets.simps r char_of_char)
qed simp


subsection \<open>Round trip and shape\<close>

lemma length_btoa_step: "length (btoa (a # b # c # s)) = length (btoa s) + 4"
proof -
  have "length (a # b # c # s) = length s + 3" by simp
  then have "length (a # b # c # s) mod 3 = length s mod 3" by (metis mod_add_self2)
  then show ?thesis unfolding btoa_def by simp
qed

lemma length_btoa: "length (btoa s) = 4 * ((length s + 2) div 3)"
proof (induction s rule: sextets.induct)
  case (4 a b c s)
  have "length (a # b # c # s) + 2 = length s + 2 + 3" by simp
  then have "(length (a # b # c # s) + 2) div 3 = (length s + 2) div 3 + 1"
    by (metis div_add_self2 zero_neq_numeral)
  with 4 show ?case by (simp only: length_btoa_step) simp
qed (simp_all add: btoa_def)

lemma b64_unpad_id:
  assumes "CHR ''='' \<notin> set t"
  shows "b64_unpad t = t"
proof (cases "rev t")
  case (Cons y ys)
  then have "y \<in> set t" by (metis list.set_intros(1) set_rev)
  with assms have "y \<noteq> CHR ''=''" by auto
  with Cons show ?thesis by (auto simp: b64_unpad_def split: list.splits)
qed (simp add: b64_unpad_def)

lemma b64_unpad_body:
  assumes "CHR ''='' \<notin> set t" and "length (t @ replicate n (CHR ''='')) mod 4 = 0" and "n \<le> 2"
  shows "b64_unpad (t @ replicate n (CHR ''='')) = t"
proof -
  consider "n = 0" | "n = 1" | "n = 2" using assms(3) by linarith
  then show ?thesis
  proof cases
    case 1
    then show ?thesis using b64_unpad_id [OF assms(1)] by simp
  next
    case 2
    show ?thesis
    proof (cases "rev t")
      case Nil
      with 2 assms(2) show ?thesis by simp
    next
      case (Cons y ys)
      then have "y \<in> set t" by (metis list.set_intros(1) set_rev)
      with assms(1) have "y \<noteq> CHR ''=''" by auto
      moreover have "t = rev ys @ [y]" using Cons by (metis rev.simps(2) rev_rev_ident)
      ultimately show ?thesis using 2 assms(2) by (simp add: b64_unpad_def)
    qed
  next
    case 3
    with assms(2) show ?thesis by (simp add: b64_unpad_def numeral_2_eq_2)
  qed
qed

lemma btoa_set: "c \<in> set (btoa s) \<Longrightarrow> c = CHR ''='' \<or> (\<exists>n < 64. c = b64_char n)"
  by (auto simp: btoa_def dest: sextets_less)

lemma filter_btoa: "filter (\<lambda>c. \<not> b64_space c) (btoa s) = btoa s"
proof -
  have "\<not> b64_space c" if "c \<in> set (btoa s)" for c
    using btoa_set [OF that] by (auto simp: b64_char_not_space) (simp add: b64_space_def)
  then show ?thesis by (simp add: filter_True)
qed

lemma sextets_no_pad: "CHR ''='' \<notin> set (map b64_char (sextets s))"
  using b64_char_not_pad sextets_less by fastforce

lemma decode_sextets: "all_some (map b64_val (map b64_char (sextets s))) = Some (sextets s)"
  by (intro all_some_b64 ballI) (rule sextets_less)

lemma length_sextets_mod: "length (sextets s) mod 4 \<noteq> 1"
  unfolding length_sextets by presburger

lemma atob_btoa: "atob (btoa s) = Some s"
proof -
  have "b64_unpad (btoa s) = map b64_char (sextets s)"
    unfolding btoa_def
    by (rule b64_unpad_body [OF sextets_no_pad])
      (use length_btoa [of s] in \<open>simp_all add: btoa_def\<close>)
  then show ?thesis
    using length_sextets_mod [of s] decode_sextets [of s]
    by (simp add: atob_def filter_btoa unsextets_sextets del: map_map)
qed

text \<open>The decoder also accepts the encoding without its padding, as JWT segments come.\<close>

lemma atob_unpadded: "atob (map b64_char (sextets s)) = Some s"
proof -
  have "filter (\<lambda>c. \<not> b64_space c) (map b64_char (sextets s)) = map b64_char (sextets s)"
    by (rule filter_True) (auto simp: b64_char_not_space dest: sextets_less)
  moreover have "b64_unpad (map b64_char (sextets s)) = map b64_char (sextets s)"
    by (rule b64_unpad_id [OF sextets_no_pad])
  ultimately show ?thesis
    using length_sextets_mod [of s] decode_sextets [of s]
    by (simp add: atob_def unsextets_sextets del: map_map)
qed

interpretation base64: codec btoa atob "\<lambda>_. True"
  by unfold_locales (rule atob_btoa)


subsection \<open>Text that base64 writes without plus and slash\<close>

text \<open>
  The sextets 62 and 63 come from the low six bits of a third byte only, as long as the bytes are
  ASCII: text without \<open>>\<close>, \<open>?\<close>, \<open>~\<close> and DEL is written in letters and digits alone.
\<close>

definition plain_char :: "char \<Rightarrow> bool" where
  "plain_char c \<longleftrightarrow> ord c < 128 \<and> ord c mod 64 < 62"

definition plain_text :: "string \<Rightarrow> bool" where
  "plain_text s \<longleftrightarrow> list_all plain_char s"

lemma plain_text_simps [simp]:
  "plain_text []"
  "plain_text (c # s) \<longleftrightarrow> plain_char c \<and> plain_text s"
  "plain_text (s @ t) \<longleftrightarrow> plain_text s \<and> plain_text t"
  by (auto simp: plain_text_def)

lemma sextets_plain: "plain_text s \<Longrightarrow> n \<in> set (sextets s) \<Longrightarrow> n < 62"
proof (induction s rule: sextets.induct)
  case (4 a b c s)
  then show ?case by (auto simp: plain_char_def)
qed (auto simp: plain_char_def)

lemma b64_char_alnum: "n < 62 \<Longrightarrow> b64_char n \<noteq> CHR ''+'' \<and> b64_char n \<noteq> CHR ''/''"
  by (auto simp: b64_char_def ord_eq_iff [symmetric])

lemma btoa_plain:
  assumes "plain_text s"
  shows "CHR ''+'' \<notin> set (btoa s)" and "CHR ''/'' \<notin> set (btoa s)"
  using sextets_plain [OF assms] b64_char_alnum by (fastforce simp: btoa_def)+


section \<open>TextEncoder\<close>

text \<open>UTF-8 of the code units below 256: one byte for ASCII, two bytes for the rest.\<close>

definition utf8_char :: "char \<Rightarrow> byte list" where
  "utf8_char c =
     (if ord c < 128 then [word_of_nat (ord c)]
      else [word_of_nat (192 + ord c div 64), word_of_nat (128 + ord c mod 64)])"

definition utf8 :: "string \<Rightarrow> byte list" where
  "utf8 s = concat (map utf8_char s)"

fun utf8_decode :: "byte list \<Rightarrow> string option" where
  "utf8_decode [] = Some []"
| "utf8_decode (b # bs) =
     (if unat b < 128 then map_option (Cons (chr (unat b))) (utf8_decode bs)
      else case bs of [] \<Rightarrow> None
      | c # cs \<Rightarrow>
          if unat b \<in> {194, 195} \<and> 128 \<le> unat c \<and> unat c < 192
          then map_option (Cons (chr ((unat b - 192) * 64 + (unat c - 128)))) (utf8_decode cs)
          else None)"

text \<open>\<open>String.fromCharCode\<close> of every byte, and back.\<close>

definition binary_string :: "byte list \<Rightarrow> string" where
  "binary_string bs = map (\<lambda>b. chr (unat b)) bs"

definition bytes_of :: "string \<Rightarrow> byte list" where
  "bytes_of s = map (\<lambda>c. word_of_nat (ord c)) s"

lemma unat_byte: "n < 256 \<Longrightarrow> unat (word_of_nat n :: byte) = n"
  by (simp add: unat_of_nat)

lemma unat_byte_less: "unat (b :: byte) < 256"
proof -
  have "unat b < 2 ^ LENGTH(8)" by (rule unsigned_less)
  then show ?thesis by simp
qed

lemma bytes_of_binary_string [simp]: "bytes_of (binary_string bs) = bs"
  by (induction bs) (simp_all add: bytes_of_def binary_string_def unat_byte_less)

lemma utf8_decode_char: "utf8_decode (utf8_char c @ bs) = map_option (Cons c) (utf8_decode bs)"
proof (cases "ord c < 128")
  case True
  then show ?thesis by (simp add: utf8_char_def unat_byte)
next
  case False
  let ?q = "ord c div 64" and ?r = "ord c mod 64"
  have q: "?q = 2 \<or> ?q = 3"
  proof -
    have "ord c < 256" by simp
    with False show ?thesis by linarith
  qed
  have r: "?r < 64" by simp
  have e: "?q * 64 + ?r = ord c" by simp
  have "unat (word_of_nat (192 + ?q) :: byte) = 192 + ?q"
    and "unat (word_of_nat (128 + ?r) :: byte) = 128 + ?r"
    using q r by (intro unat_byte; linarith)+
  with False q r show ?thesis
    by (simp add: utf8_char_def e del: of_nat_add of_nat_mult)
qed

lemma utf8_decode_utf8: "utf8_decode (utf8 s) = Some s"
proof (induction s)
  case (Cons c s)
  then show ?case by (simp add: utf8_def utf8_decode_char del: utf8_decode.simps)
qed (simp add: utf8_def)

interpretation utf8: codec utf8 utf8_decode "\<lambda>_. True"
  by unfold_locales (rule utf8_decode_utf8)

interpretation binary: codec binary_string "\<lambda>s. Some (bytes_of s)" "\<lambda>_. True"
  by unfold_locales simp

end
