(* ===== verification/Js_Url.thy ===== *)
theory Js_Url
  imports Js_Base64 Js_Json
begin

text \<open>
  The parts of the URL standard the client relies on: \<open>encodeURIComponent\<close>, the serializer of
  \<open>URLSearchParams\<close>, and the origin and pathname of \<open>new URL(url, base)\<close>. The decoders are
  reference definitions, what a server does with the result; they serve the round trips.
\<close>


section \<open>Percent encoding\<close>

definition hex_upper :: "nat \<Rightarrow> char" where
  "hex_upper n = (if n < 10 then chr (48 + n) else chr (55 + n))"

definition pct_byte :: "byte \<Rightarrow> string" where
  "pct_byte b = [CHR ''%'', hex_upper (unat b div 16), hex_upper (unat b mod 16)]"

definition pct_char :: "char \<Rightarrow> string" where
  "pct_char c = concat (map pct_byte (utf8_char c))"

definition pct_encode :: "(char \<Rightarrow> bool) \<Rightarrow> string \<Rightarrow> string" where
  "pct_encode keep s = concat (map (\<lambda>c. if keep c then [c] else pct_char c) s)"

definition alnum :: "char \<Rightarrow> bool" where
  "alnum c \<longleftrightarrow> 48 \<le> ord c \<and> ord c \<le> 57 \<or> 65 \<le> ord c \<and> ord c \<le> 90 \<or> 97 \<le> ord c \<and> ord c \<le> 122"

definition uri_keep :: "char \<Rightarrow> bool" where
  "uri_keep c \<longleftrightarrow> alnum c \<or> c \<in> set ''-_.!~*'' \<or> ord c \<in> {39, 40, 41}"

definition encodeURIComponent :: "string \<Rightarrow> string" where
  "encodeURIComponent s = pct_encode uri_keep s"

fun pct_bytes :: "string \<Rightarrow> byte list option" where
  "pct_bytes [] = Some []"
| "pct_bytes (c # s) =
     (if c = CHR ''%'' then
        (case s of
           a # b # t \<Rightarrow>
             (case (hex_val a, hex_val b) of
                (Some i, Some j) \<Rightarrow> map_option (Cons (word_of_nat (i * 16 + j))) (pct_bytes t)
              | _ \<Rightarrow> None)
         | _ \<Rightarrow> None)
      else map_option (Cons (word_of_nat (ord c))) (pct_bytes s))"

definition pct_decode :: "string \<Rightarrow> string option" where
  "pct_decode s = Option.bind (pct_bytes s) utf8_decode"

lemma hex_val_upper [simp]: "n < 16 \<Longrightarrow> hex_val (hex_upper n) = Some n"
  by (auto simp: hex_val_def hex_upper_def)

lemma pct_bytes_byte: "pct_bytes (pct_byte b @ s) = map_option (Cons b) (pct_bytes s)"
proof -
  have "unat b < 256" by (rule unat_byte_less)
  then have "unat b div 16 < 16" by (simp add: less_mult_imp_div_less)
  then show ?thesis by (simp add: pct_byte_def mult.commute)
qed

lemma pct_bytes_bytes:
  "pct_bytes (concat (map pct_byte bs) @ s) = map_option (append bs) (pct_bytes s)"
  by (induction bs) (simp_all add: pct_bytes_byte option.map_comp comp_def option.map_ident
      del: pct_bytes.simps(2))

lemma pct_bytes_encode:
  assumes "\<And>c. keep c \<Longrightarrow> ord c < 128 \<and> c \<noteq> CHR ''%''"
  shows "pct_bytes (pct_encode keep s) = Some (utf8 s)"
proof (induction s)
  case (Cons c s)
  have u: "utf8 (c # s) = utf8_char c @ utf8 s" by (simp add: utf8_def)
  show ?case
  proof (cases "keep c")
    case True
    with assms have "ord c < 128" "c \<noteq> CHR ''%''" by auto
    with True Cons show ?thesis by (simp add: pct_encode_def u utf8_char_def)
  next
    case False
    then have "pct_encode keep (c # s) = concat (map pct_byte (utf8_char c)) @ pct_encode keep s"
      by (simp add: pct_encode_def pct_char_def)
    with Cons u show ?thesis by (simp add: pct_bytes_bytes)
  qed
qed (simp add: pct_encode_def utf8_def)

lemma pct_decode_encode:
  "(\<And>c. keep c \<Longrightarrow> ord c < 128 \<and> c \<noteq> CHR ''%'') \<Longrightarrow> pct_decode (pct_encode keep s) = Some s"
  by (simp add: pct_decode_def pct_bytes_encode utf8_decode_utf8)

lemma uri_keep_ascii: "uri_keep c \<Longrightarrow> ord c < 128 \<and> c \<noteq> CHR ''%''"
  by (auto simp: uri_keep_def alnum_def)

interpretation uri: codec encodeURIComponent pct_decode "\<lambda>_. True"
  by unfold_locales (simp add: encodeURIComponent_def pct_decode_encode [OF uri_keep_ascii])

lemma hex_upper_alnum: "n < 16 \<Longrightarrow> alnum (hex_upper n)"
  by (auto simp: alnum_def hex_upper_def)

lemma pct_char_set: "x \<in> set (pct_char c) \<Longrightarrow> x = CHR ''%'' \<or> alnum x"
proof -
  have "unat (b :: byte) div 16 < 16" for b
    using unat_byte_less [of b] by (simp add: less_mult_imp_div_less)
  then show "x \<in> set (pct_char c) \<Longrightarrow> x = CHR ''%'' \<or> alnum x"
    by (auto simp: pct_char_def pct_byte_def intro!: hex_upper_alnum split: if_splits)
qed

lemma pct_encode_set: "x \<in> set (pct_encode keep s) \<Longrightarrow> keep x \<or> x = CHR ''%'' \<or> alnum x"
  by (auto simp: pct_encode_def dest: pct_char_set split: if_splits)


section \<open>URLSearchParams\<close>

definition form_keep :: "char \<Rightarrow> bool" where
  "form_keep c \<longleftrightarrow> alnum c \<or> c \<in> set ''*-._''"

definition form_encode :: "string \<Rightarrow> string" where
  "form_encode s =
     concat (map (\<lambda>c. if c = CHR '' '' then ''+'' else if form_keep c then [c] else pct_char c) s)"

text \<open>\<open>set\<close> replaces the first pair of that name and drops the others, or appends.\<close>

fun sp_set :: "string \<Rightarrow> string \<Rightarrow> (string \<times> string) list \<Rightarrow> (string \<times> string) list" where
  "sp_set k v [] = [(k, v)]"
| "sp_set k v (p # ps) =
     (if fst p = k then (k, v) # filter (\<lambda>q. fst q \<noteq> k) ps else p # sp_set k v ps)"

definition sp_pair :: "string \<times> string \<Rightarrow> string" where
  "sp_pair p = form_encode (fst p) @ CHR ''='' # form_encode (snd p)"

definition sp_toString :: "(string \<times> string) list \<Rightarrow> string" where
  "sp_toString ps = intercalate ''&'' (map sp_pair ps)"

definition form_decode :: "string \<Rightarrow> string option" where
  "form_decode s = pct_decode (map (\<lambda>c. if c = CHR ''+'' then CHR '' '' else c) s)"

definition parse_pair :: "string \<Rightarrow> (string \<times> string) option" where
  "parse_pair s =
     (case (form_decode (takeWhile (\<lambda>c. c \<noteq> CHR ''='') s),
            form_decode (drop 1 (dropWhile (\<lambda>c. c \<noteq> CHR ''='') s))) of
        (Some k, Some v) \<Rightarrow> Some (k, v) | _ \<Rightarrow> None)"

definition parse_query :: "string \<Rightarrow> (string \<times> string) list option" where
  "parse_query s = all_some (map parse_pair (filter (\<lambda>p. p \<noteq> []) (split_on (CHR ''&'') s)))"

lemma form_keep_plain: "form_keep c \<Longrightarrow> ord c < 128 \<and> c \<noteq> CHR ''%'' \<and> c \<noteq> CHR ''+''"
  by (auto simp: form_keep_def alnum_def)

lemma form_encode_set: "x \<in> set (form_encode s) \<Longrightarrow> form_keep x \<or> x = CHR ''%'' \<or> x = CHR ''+''"
  by (auto simp: form_encode_def form_keep_def dest: pct_char_set split: if_splits)

lemma form_encode_no_sep:
  "CHR ''='' \<notin> set (form_encode s)" "CHR ''&'' \<notin> set (form_encode s)"
  using form_encode_set [of "CHR ''=''" s] form_encode_set [of "CHR ''&''" s]
  by (auto simp: form_keep_def alnum_def)

lemma unplus_pct_char: "map (\<lambda>c. if c = CHR ''+'' then CHR '' '' else c) (pct_char c) = pct_char c"
  by (rule map_idI) (auto dest!: pct_char_set simp: alnum_def)

lemma unplus_form_encode:
  "map (\<lambda>c. if c = CHR ''+'' then CHR '' '' else c) (form_encode s)
   = pct_encode (\<lambda>c. form_keep c \<or> c = CHR '' '') s"
proof (induction s)
  case (Cons c s)
  then show ?case using form_keep_plain [of c]
    by (auto simp: form_encode_def pct_encode_def unplus_pct_char)
qed (simp add: form_encode_def pct_encode_def)

lemma form_decode_encode: "form_decode (form_encode s) = Some s"
  unfolding form_decode_def unplus_form_encode
  by (rule pct_decode_encode) (auto dest: form_keep_plain)

interpretation form: codec form_encode form_decode "\<lambda>_. True"
  by unfold_locales (rule form_decode_encode)

lemma parse_pair_sp_pair: "parse_pair (sp_pair p) = Some p"
proof -
  have "takeWhile (\<lambda>c. c \<noteq> CHR ''='') (sp_pair p) = form_encode (fst p)"
    and "drop 1 (dropWhile (\<lambda>c. c \<noteq> CHR ''='') (sp_pair p)) = form_encode (snd p)"
    using form_encode_no_sep(1) [of "fst p"]
    by (auto simp: sp_pair_def takeWhile_append dropWhile_append)
  then show ?thesis by (simp add: parse_pair_def form_decode_encode)
qed

lemma sp_pair_no_amp: "CHR ''&'' \<notin> set (sp_pair p)"
  using form_encode_no_sep by (simp add: sp_pair_def)

lemma parse_query_toString: "parse_query (sp_toString ps) = Some ps"
proof (cases "ps = []")
  case True
  then show ?thesis by (simp add: parse_query_def sp_toString_def)
next
  case False
  then have "split_on (CHR ''&'') (sp_toString ps) = map sp_pair ps"
    unfolding sp_toString_def
    by (intro split_on_intercalate) (auto simp: sp_pair_no_amp)
  moreover have "filter (\<lambda>p. p \<noteq> []) (map sp_pair ps) = map sp_pair ps"
    by (rule filter_True) (simp add: sp_pair_def)
  ultimately show ?thesis
    by (simp add: parse_query_def comp_def parse_pair_sp_pair all_some_map del: filter_map)
qed

interpretation query: codec sp_toString parse_query "\<lambda>_. True"
  by unfold_locales (rule parse_query_toString)

lemma sp_toString_Nil: "sp_toString ps = [] \<longleftrightarrow> ps = []"
  by (cases ps; cases "tl ps") (auto simp: sp_toString_def sp_pair_def)

lemma sp_set_fresh: "k \<notin> fst ` set ps \<Longrightarrow> sp_set k v ps = ps @ [(k, v)]"
  by (induction ps) auto


section \<open>URL\<close>

text \<open>
  Origin and pathname of \<open>new URL(url, base)\<close> for a base that is an origin. Modelled are the
  shapes path-absolute (\<open>/a/b\<close>), relative (\<open>a/b\<close>), scheme-relative and \<open>http(s)\<close>; a URL of
  another scheme is outside the model and gives None, as does one the standard refuses (no host).
  The host is kept as written: in lower case and without a default port.
\<close>

record url =
  u_origin :: string
  u_pathname :: string

definition path_keep :: "char \<Rightarrow> bool" where
  "path_keep c \<longleftrightarrow> 33 \<le> ord c \<and> ord c \<le> 126 \<and> c \<notin> set ''#<>?^`{}'' \<and> c \<noteq> quote"

definition path_encode :: "string \<Rightarrow> string" where
  "path_encode s = pct_encode path_keep s"

definition single_dot :: "string \<Rightarrow> bool" where
  "single_dot s \<longleftrightarrow> s \<in> {''.'', ''%2e'', ''%2E''}"

definition double_dot :: "string \<Rightarrow> bool" where
  "double_dot s \<longleftrightarrow>
     s \<in> {''..'', ''.%2e'', ''.%2E'', ''%2e.'', ''%2E.'', ''%2e%2e'', ''%2e%2E'', ''%2E%2e'', ''%2E%2E''}"

fun normalize_segments :: "string list \<Rightarrow> string list \<Rightarrow> string list" where
  "normalize_segments acc [] = rev acc"
| "normalize_segments acc [s] =
     (if double_dot s then rev ([] # tl acc)
      else if single_dot s then rev ([] # acc)
      else rev (path_encode s # acc))"
| "normalize_segments acc (s # t # ts) =
     (if double_dot s then normalize_segments (tl acc) (t # ts)
      else if single_dot s then normalize_segments acc (t # ts)
      else normalize_segments (path_encode s # acc) (t # ts))"

definition url_path_part :: "string \<Rightarrow> string" where
  "url_path_part s = takeWhile (\<lambda>c. c \<noteq> CHR ''?'' \<and> c \<noteq> CHR ''#'') s"

definition pathname_of :: "string \<Rightarrow> string" where
  "pathname_of p =
     concat (map (Cons (CHR ''/''))
       (normalize_segments []
         (split_on (CHR ''/'') (map (\<lambda>c. if c = backslash then CHR ''/'' else c) (url_path_part p)))))"

definition slash :: "char \<Rightarrow> bool" where
  "slash c \<longleftrightarrow> c = CHR ''/'' \<or> c = backslash"

definition url_clean :: "string \<Rightarrow> string" where
  "url_clean s =
     filter (\<lambda>c. ord c \<notin> {9, 10, 13})
       (rev (dropWhile (\<lambda>c. ord c \<le> 32) (rev (dropWhile (\<lambda>c. ord c \<le> 32) s))))"

definition with_authority :: "string \<Rightarrow> string \<Rightarrow> url option" where
  "with_authority scheme s =
     (let host = takeWhile (\<lambda>c. \<not> slash c \<and> c \<noteq> CHR ''?'' \<and> c \<noteq> CHR ''#'') s;
          rest = drop (length host) s
      in if host = [] then None
         else Some \<lparr>u_origin = scheme @ ''://'' @ host,
                    u_pathname = pathname_of (case rest of c # t \<Rightarrow> if slash c then t else rest | [] \<Rightarrow> [])\<rparr>)"

definition has_scheme :: "string \<Rightarrow> bool" where
  "has_scheme s \<longleftrightarrow>
     (let n = takeWhile (\<lambda>c. alnum c \<or> c \<in> set ''+-.'') s
      in n \<noteq> [] \<and> \<not> is_digit (hd n) \<and> starts_with (drop (length n) s) '':'')"

definition new_URL :: "string \<Rightarrow> string \<Rightarrow> url option" where
  "new_URL s base =
     (let u = url_clean s in
      if starts_with u ''http://'' then with_authority ''http'' (drop 7 u)
      else if starts_with u ''https://'' then with_authority ''https'' (drop 8 u)
      else if has_scheme u then None
      else case u of
        c # d # t \<Rightarrow>
          if slash c \<and> slash d then with_authority (takeWhile (\<lambda>x. x \<noteq> CHR '':'') base) t
          else if slash c then Some \<lparr>u_origin = base, u_pathname = pathname_of (d # t)\<rparr>
          else Some \<lparr>u_origin = base, u_pathname = pathname_of u\<rparr>
      | [c] \<Rightarrow> Some \<lparr>u_origin = base, u_pathname = pathname_of (if slash c then [] else [c])\<rparr>
      | [] \<Rightarrow> Some \<lparr>u_origin = base, u_pathname = ''/''\<rparr>)"


subsection \<open>Paths the parser leaves as they are\<close>

definition seg_char :: "char \<Rightarrow> bool" where
  "seg_char c \<longleftrightarrow> path_keep c \<and> c \<noteq> CHR ''/'' \<and> c \<noteq> backslash"

definition plain_segment :: "string \<Rightarrow> bool" where
  "plain_segment s \<longleftrightarrow> s \<noteq> [] \<and> list_all seg_char s \<and> \<not> single_dot s \<and> \<not> double_dot s"

lemma path_encode_plain: "list_all path_keep s \<Longrightarrow> path_encode s = s"
  by (induction s) (auto simp: path_encode_def pct_encode_def)

lemma normalize_plain:
  "\<forall>s \<in> set ss. plain_segment s \<Longrightarrow> normalize_segments acc ss = rev acc @ ss"
proof (induction acc ss rule: normalize_segments.induct)
  case (2 acc s)
  then have "list_all path_keep s" by (auto simp: plain_segment_def seg_char_def list_all_iff)
  with 2 show ?case by (simp add: path_encode_plain plain_segment_def)
next
  case (3 acc s t ts)
  then have "list_all path_keep s" by (auto simp: plain_segment_def seg_char_def list_all_iff)
  with 3 show ?case by (simp add: path_encode_plain plain_segment_def)
qed simp

lemma concat_segments:
  "ss \<noteq> [] \<Longrightarrow> concat (map (Cons (CHR ''/'')) ss) = CHR ''/'' # intercalate ''/'' ss"
proof (induction ss)
  case (Cons s ss)
  then show ?case by (cases "ss = []") (simp_all add: intercalate_Cons)
qed simp

text \<open>A path of plain segments, followed by any query, is its own pathname.\<close>

lemma pathname_plain:
  assumes ne: "ss \<noteq> []" and plain: "\<forall>s \<in> set ss. plain_segment s"
    and q: "q = [] \<or> hd q = CHR ''?''"
  shows "pathname_of (intercalate ''/'' ss @ q) = CHR ''/'' # intercalate ''/'' ss"
proof -
  have chars: "c = CHR ''/'' \<or> seg_char c" if "c \<in> set (intercalate ''/'' ss)" for c
    using set_intercalate [of "''/''" ss] that plain
    by (fastforce simp: plain_segment_def list_all_iff)
  then have "url_path_part (intercalate ''/'' ss @ q) = intercalate ''/'' ss"
    using q unfolding url_path_part_def
    by (cases q) (auto simp: takeWhile_append seg_char_def path_keep_def)
  moreover have "map (\<lambda>c. if c = backslash then CHR ''/'' else c) (intercalate ''/'' ss)
      = intercalate ''/'' ss"
    using chars by (intro map_idI) (auto simp: seg_char_def)
  moreover have "split_on (CHR ''/'') (intercalate ''/'' ss) = ss"
    using plain by (intro split_on_intercalate [OF ne])
      (auto simp: plain_segment_def list_all_iff seg_char_def)
  ultimately show ?thesis
    by (simp add: pathname_of_def normalize_plain [OF plain] concat_segments [OF ne])
qed

text \<open>The query of a URL: what follows the first question mark.\<close>

definition query_part :: "string \<Rightarrow> string" where
  "query_part u = drop 1 (dropWhile (\<lambda>c. c \<noteq> CHR ''?'') u)"

lemma query_part_append: "CHR ''?'' \<notin> set p \<Longrightarrow> query_part (p @ CHR ''?'' # q) = q"
  unfolding query_part_def by (induction p) auto

lemma query_part_absent: "CHR ''?'' \<notin> set p \<Longrightarrow> query_part p = []"
  unfolding query_part_def by (induction p) auto

lemma encodeURIComponent_chars:
  assumes "c \<in> set (encodeURIComponent s)"
  shows "c \<notin> set ''&=+?''"
  using pct_encode_set [OF assms [unfolded encodeURIComponent_def]]
  by (auto simp: uri_keep_def alnum_def)

lemma form_keep_no_space: "\<not> form_keep (CHR '' '')"
  by (simp add: form_keep_def alnum_def)

text \<open>A value encoded as a URI component reads back as the value of its query parameter.\<close>

lemma parse_query_component:
  assumes "k \<noteq> []" and "list_all form_keep k"
  shows "parse_query (k @ CHR ''='' # encodeURIComponent v) = Some [(k, v)]"
proof -
  have fk: "form_encode k = k"
    using assms(2) form_keep_no_space by (induction k) (auto simp: form_encode_def)
  have dk: "form_decode k = Some k" using form_decode_encode [of k] by (simp add: fk)
  have "map (\<lambda>c. if c = CHR ''+'' then CHR '' '' else c) (encodeURIComponent v) = encodeURIComponent v"
    using encodeURIComponent_chars by (intro map_idI) auto
  then have dv: "form_decode (encodeURIComponent v) = Some v"
    using uri.dec_enc [of v] by (simp add: form_decode_def)
  have nk: "CHR ''='' \<notin> set k" "CHR ''&'' \<notin> set k"
    using assms(2) by (auto simp: list_all_iff form_keep_def alnum_def)
  have "split_on (CHR ''&'') (k @ CHR ''='' # encodeURIComponent v) = [k @ CHR ''='' # encodeURIComponent v]"
    using nk encodeURIComponent_chars by (intro split_on_absent) auto
  moreover have "takeWhile (\<lambda>c. c \<noteq> CHR ''='') (k @ CHR ''='' # encodeURIComponent v) = k"
    "drop 1 (dropWhile (\<lambda>c. c \<noteq> CHR ''='') (k @ CHR ''='' # encodeURIComponent v)) = encodeURIComponent v"
  proof -
    have k: "\<And>x. x \<in> set k \<Longrightarrow> x \<noteq> CHR ''=''" using nk(1) by metis
    show "takeWhile (\<lambda>c. c \<noteq> CHR ''='') (k @ CHR ''='' # encodeURIComponent v) = k"
      using k by (simp add: takeWhile_append2)
    show "drop 1 (dropWhile (\<lambda>c. c \<noteq> CHR ''='') (k @ CHR ''='' # encodeURIComponent v)) = encodeURIComponent v"
      using k by (simp add: dropWhile_append2)
  qed
  ultimately show ?thesis by (simp add: parse_query_def parse_pair_def dk dv)
qed

end
