(* ===== verification/Api_Paths.thy ===== *)
theory Api_Paths
  imports Js_Url
begin

text \<open>
  The REST paths of the client, \<^verbatim>\<open>src/frontend/src/lib/api-paths.ts\<close>: one constructor of
  \<open>endpoint\<close> per entry of the \<open>API_PATHS\<close> object, one equation of \<open>API_PATHS\<close> per path it builds.
  The paths are the joined lists of segments \<open>endpoint_segments\<close>, from which the URL properties
  of every endpoint follow at once.
\<close>

datatype endpoint =
    AuthWhoami | AuthLogin | AuthRegister | AuthUser string | AuthGoogle | AuthGoogleCallback
  | AuthLogout
  | RoomsList string | RoomsGet string | RoomsCreate | RoomsUpdate string | RoomsDelete string
  | RoomsMembers string | RoomsMember string string | RoomsInvite string
  | RoomsJoinInvite string | RoomsPop string
  | ChatMessages string | ChatMessage string string
  | AdminUsers | AdminUser string | AdminUserRole string | AdminUserRestore string
  | AdminUserSessions string | AdminSessions | AdminSession string | AdminAudit
  | AdminStatsUsers | AdminStatsSessions | AdminRooms | AdminRoom string
  | AdminRoomMembers string | AdminRoomMember string string | AdminUserRooms string
  | AdminStatsRooms | AdminMessages | AdminMessage string | AdminStatsMessages

fun API_PATHS :: "endpoint \<Rightarrow> string" where
  "API_PATHS AuthWhoami = ''/auth/whoami''"
| "API_PATHS AuthLogin = ''/auth/login''"
| "API_PATHS AuthRegister = ''/auth/user''"
| "API_PATHS (AuthUser i) = ''/auth/user/'' @ i"
| "API_PATHS AuthGoogle = ''/auth/google''"
| "API_PATHS AuthGoogleCallback = ''/auth/google/callback''"
| "API_PATHS AuthLogout = ''/auth/logout''"
| "API_PATHS (RoomsList userId) = ''/users/'' @ userId @ ''/rooms''"
| "API_PATHS (RoomsGet i) = ''/rooms/'' @ i"
| "API_PATHS RoomsCreate = ''/rooms''"
| "API_PATHS (RoomsUpdate i) = ''/rooms/'' @ i"
| "API_PATHS (RoomsDelete i) = ''/rooms/'' @ i"
| "API_PATHS (RoomsMembers roomId) = ''/rooms/'' @ roomId @ ''/members''"
| "API_PATHS (RoomsMember roomId userId) = ''/rooms/'' @ roomId @ ''/members/'' @ userId"
| "API_PATHS (RoomsInvite roomId) = ''/rooms/'' @ roomId @ ''/invite''"
| "API_PATHS (RoomsJoinInvite token) = ''/rooms/invite/'' @ token @ ''/join''"
| "API_PATHS (RoomsPop roomId) = ''/rooms/'' @ roomId @ ''/pop''"
| "API_PATHS (ChatMessages roomId) = ''/chat/rooms/'' @ roomId @ ''/messages''"
| "API_PATHS (ChatMessage roomId messageId) = ''/chat/rooms/'' @ roomId @ ''/messages/'' @ messageId"
| "API_PATHS AdminUsers = ''/auth/admin/users''"
| "API_PATHS (AdminUser i) = ''/auth/admin/users/'' @ i"
| "API_PATHS (AdminUserRole i) = ''/auth/admin/users/'' @ i @ ''/role''"
| "API_PATHS (AdminUserRestore i) = ''/auth/admin/users/'' @ i @ ''/restore''"
| "API_PATHS (AdminUserSessions i) = ''/auth/admin/users/'' @ i @ ''/sessions''"
| "API_PATHS AdminSessions = ''/auth/admin/sessions''"
| "API_PATHS (AdminSession i) = ''/auth/admin/sessions/'' @ i"
| "API_PATHS AdminAudit = ''/auth/admin/audit''"
| "API_PATHS AdminStatsUsers = ''/auth/admin/stats/users''"
| "API_PATHS AdminStatsSessions = ''/auth/admin/stats/sessions''"
| "API_PATHS AdminRooms = ''/admin/rooms''"
| "API_PATHS (AdminRoom i) = ''/admin/rooms/'' @ i"
| "API_PATHS (AdminRoomMembers roomId) = ''/admin/rooms/'' @ roomId @ ''/members''"
| "API_PATHS (AdminRoomMember roomId userId) = ''/admin/rooms/'' @ roomId @ ''/members/'' @ userId"
| "API_PATHS (AdminUserRooms userId) = ''/admin/users/'' @ userId @ ''/rooms''"
| "API_PATHS AdminStatsRooms = ''/admin/stats/rooms''"
| "API_PATHS AdminMessages = ''/chat/admin/messages''"
| "API_PATHS (AdminMessage i) = ''/chat/admin/messages/'' @ i"
| "API_PATHS AdminStatsMessages = ''/chat/admin/stats/messages''"


section \<open>Paths as segments\<close>

fun endpoint_segments :: "endpoint \<Rightarrow> string list" where
  "endpoint_segments AuthWhoami = [''auth'', ''whoami'']"
| "endpoint_segments AuthLogin = [''auth'', ''login'']"
| "endpoint_segments AuthRegister = [''auth'', ''user'']"
| "endpoint_segments (AuthUser i) = [''auth'', ''user'', i]"
| "endpoint_segments AuthGoogle = [''auth'', ''google'']"
| "endpoint_segments AuthGoogleCallback = [''auth'', ''google'', ''callback'']"
| "endpoint_segments AuthLogout = [''auth'', ''logout'']"
| "endpoint_segments (RoomsList u) = [''users'', u, ''rooms'']"
| "endpoint_segments (RoomsGet i) = [''rooms'', i]"
| "endpoint_segments RoomsCreate = [''rooms'']"
| "endpoint_segments (RoomsUpdate i) = [''rooms'', i]"
| "endpoint_segments (RoomsDelete i) = [''rooms'', i]"
| "endpoint_segments (RoomsMembers r) = [''rooms'', r, ''members'']"
| "endpoint_segments (RoomsMember r u) = [''rooms'', r, ''members'', u]"
| "endpoint_segments (RoomsInvite r) = [''rooms'', r, ''invite'']"
| "endpoint_segments (RoomsJoinInvite t) = [''rooms'', ''invite'', t, ''join'']"
| "endpoint_segments (RoomsPop r) = [''rooms'', r, ''pop'']"
| "endpoint_segments (ChatMessages r) = [''chat'', ''rooms'', r, ''messages'']"
| "endpoint_segments (ChatMessage r m) = [''chat'', ''rooms'', r, ''messages'', m]"
| "endpoint_segments AdminUsers = [''auth'', ''admin'', ''users'']"
| "endpoint_segments (AdminUser i) = [''auth'', ''admin'', ''users'', i]"
| "endpoint_segments (AdminUserRole i) = [''auth'', ''admin'', ''users'', i, ''role'']"
| "endpoint_segments (AdminUserRestore i) = [''auth'', ''admin'', ''users'', i, ''restore'']"
| "endpoint_segments (AdminUserSessions i) = [''auth'', ''admin'', ''users'', i, ''sessions'']"
| "endpoint_segments AdminSessions = [''auth'', ''admin'', ''sessions'']"
| "endpoint_segments (AdminSession i) = [''auth'', ''admin'', ''sessions'', i]"
| "endpoint_segments AdminAudit = [''auth'', ''admin'', ''audit'']"
| "endpoint_segments AdminStatsUsers = [''auth'', ''admin'', ''stats'', ''users'']"
| "endpoint_segments AdminStatsSessions = [''auth'', ''admin'', ''stats'', ''sessions'']"
| "endpoint_segments AdminRooms = [''admin'', ''rooms'']"
| "endpoint_segments (AdminRoom i) = [''admin'', ''rooms'', i]"
| "endpoint_segments (AdminRoomMembers r) = [''admin'', ''rooms'', r, ''members'']"
| "endpoint_segments (AdminRoomMember r u) = [''admin'', ''rooms'', r, ''members'', u]"
| "endpoint_segments (AdminUserRooms u) = [''admin'', ''users'', u, ''rooms'']"
| "endpoint_segments AdminStatsRooms = [''admin'', ''stats'', ''rooms'']"
| "endpoint_segments AdminMessages = [''chat'', ''admin'', ''messages'']"
| "endpoint_segments (AdminMessage i) = [''chat'', ''admin'', ''messages'', i]"
| "endpoint_segments AdminStatsMessages = [''chat'', ''admin'', ''stats'', ''messages'']"

text \<open>The identifiers an endpoint puts into its path.\<close>

fun endpoint_ids :: "endpoint \<Rightarrow> string list" where
  "endpoint_ids (AuthUser i) = [i]"
| "endpoint_ids (RoomsList i) = [i]"
| "endpoint_ids (RoomsGet i) = [i]"
| "endpoint_ids (RoomsUpdate i) = [i]"
| "endpoint_ids (RoomsDelete i) = [i]"
| "endpoint_ids (RoomsMembers i) = [i]"
| "endpoint_ids (RoomsMember i j) = [i, j]"
| "endpoint_ids (RoomsInvite i) = [i]"
| "endpoint_ids (RoomsJoinInvite i) = [i]"
| "endpoint_ids (RoomsPop i) = [i]"
| "endpoint_ids (ChatMessages i) = [i]"
| "endpoint_ids (ChatMessage i j) = [i, j]"
| "endpoint_ids (AdminUser i) = [i]"
| "endpoint_ids (AdminUserRole i) = [i]"
| "endpoint_ids (AdminUserRestore i) = [i]"
| "endpoint_ids (AdminUserSessions i) = [i]"
| "endpoint_ids (AdminSession i) = [i]"
| "endpoint_ids (AdminRoom i) = [i]"
| "endpoint_ids (AdminRoomMembers i) = [i]"
| "endpoint_ids (AdminRoomMember i j) = [i, j]"
| "endpoint_ids (AdminUserRooms i) = [i]"
| "endpoint_ids (AdminMessage i) = [i]"
| "endpoint_ids _ = []"

definition well_formed_endpoint :: "endpoint \<Rightarrow> bool" where
  "well_formed_endpoint e \<longleftrightarrow> list_all plain_segment (endpoint_ids e)"

lemma API_PATHS_segments: "API_PATHS e = CHR ''/'' # intercalate ''/'' (endpoint_segments e)"
  by (cases e) simp_all

lemma endpoint_segments_not_Nil [simp]: "endpoint_segments e \<noteq> []"
  by (cases e) simp_all

lemma seg_char_lower: "97 \<le> ord c \<Longrightarrow> ord c \<le> 122 \<Longrightarrow> seg_char c"
  by (auto simp: seg_char_def path_keep_def)

lemma plain_word:
  "s \<noteq> [] \<Longrightarrow> list_all (\<lambda>c. 97 \<le> ord c \<and> ord c \<le> 122) s \<Longrightarrow> plain_segment s"
  by (cases s) (auto simp: plain_segment_def list_all_iff single_dot_def double_dot_def
      intro: seg_char_lower)

lemma endpoint_segments_plain:
  assumes "well_formed_endpoint e" and "s \<in> set (endpoint_segments e)"
  shows "plain_segment s"
proof -
  have "s \<in> set (endpoint_ids e) \<or> s \<noteq> [] \<and> list_all (\<lambda>c. 97 \<le> ord c \<and> ord c \<le> 122) s"
    using assms(2) by (cases e) auto
  then show ?thesis
    using assms(1) plain_word by (auto simp: well_formed_endpoint_def list_all_iff)
qed

lemma segment_no_slash: "plain_segment s \<Longrightarrow> CHR ''/'' \<notin> set s"
  by (auto simp: plain_segment_def list_all_iff seg_char_def)

text \<open>With well-formed identifiers a path determines its segments.\<close>

lemma API_PATHS_inj_segments:
  assumes "well_formed_endpoint e" and "well_formed_endpoint f" and "API_PATHS e = API_PATHS f"
  shows "endpoint_segments e = endpoint_segments f"
proof -
  have "split_on (CHR ''/'') (intercalate ''/'' (endpoint_segments g)) = endpoint_segments g"
    if "well_formed_endpoint g" for g
    using endpoint_segments_plain [OF that] segment_no_slash
    by (intro split_on_intercalate) auto
  then show ?thesis using assms by (metis API_PATHS_segments list.inject)
qed

lemma API_PATHS_pathname:
  assumes "well_formed_endpoint e" and "q = [] \<or> hd q = CHR ''?''"
  shows "pathname_of (intercalate ''/'' (endpoint_segments e) @ q) = API_PATHS e"
  unfolding API_PATHS_segments
  by (rule pathname_plain) (use assms endpoint_segments_plain in auto)

text \<open>A path with an \<open>/api\<close> prefix, as the client requests it.\<close>

lemma API_PATHS_api_pathname:
  assumes "well_formed_endpoint e" and "q = [] \<or> hd q = CHR ''?''"
  shows "pathname_of (''api'' @ API_PATHS e @ q) = ''/api'' @ API_PATHS e"
proof -
  have "pathname_of (intercalate ''/'' (''api'' # endpoint_segments e) @ q)
      = CHR ''/'' # intercalate ''/'' (''api'' # endpoint_segments e)"
    by (rule pathname_plain)
      (use assms endpoint_segments_plain plain_word [of "''api''"] in auto)
  then show ?thesis by (simp add: API_PATHS_segments intercalate_Cons)
qed

end
