(* ===== verification/Dpop.thy ===== *)
theory Dpop
  imports Models Js_Url Api_Paths
begin

text \<open>
  The DPoP helpers, \<^verbatim>\<open>src/frontend/src/lib/dpop.ts\<close>, and the development proxy
  \<^verbatim>\<open>src/frontend/src/proxy.ts\<close>. The platform (WebCrypto, the clock, the network, the failures of
  IndexedDB) is a parameter: a record of functions on an abstract world, which the actions thread
  through the state. The object store itself is modelled: it holds at most one key.
\<close>

named_theorems dpop_defs \<open>definitions of the DPoP actions\<close>


section \<open>The platform and the state\<close>

text \<open>A \<open>CryptoKey\<close> is an opaque handle, here a number: nothing of the private key is readable.\<close>

record jwk =
  jwk_kty :: string
  jwk_crv :: string
  jwk_x :: string
  jwk_y :: string

record stored_key =
  privateKey :: "nat option"
  publicJwk :: jwk

record http_request =
  rq_url :: string
  rq_method :: string
  rq_headers :: "(string \<times> string) list"
  rq_body :: "string option"

text \<open>\<open>rs_nonce\<close> is the \<open>DPoP-Nonce\<close> header of a response, \<open>rs_text\<close> its body.\<close>

record response =
  rs_status :: nat
  rs_nonce :: "string option"
  rs_text :: string

record 'w platform =
  generateKey :: "'w \<Rightarrow> (nat \<times> jwk) \<times> 'w"
  sign_es256 :: "nat \<Rightarrow> byte list \<Rightarrow> 'w \<Rightarrow> byte list \<times> 'w"
  sha256 :: "byte list \<Rightarrow> byte list"
  randomUUID :: "'w \<Rightarrow> string \<times> 'w"
  dateNow :: "'w \<Rightarrow> nat \<times> 'w"
  idbFault :: "'w \<Rightarrow> string option \<times> 'w"
  fetch :: "http_request \<Rightarrow> 'w \<Rightarrow> (string + response) \<times> 'w"
  windowOrigin :: "string option"

record 'w dpop_state =
  cachedKey :: "stored_key option"
  idbKey :: "stored_key option"
  world :: 'w

text \<open>Running a function of the platform on the world of the state.\<close>

definition on_world :: "('w \<Rightarrow> 'a \<times> 'w) \<Rightarrow> (('w, 'z) dpop_state_scheme, js_error, 'a) act" where
  "on_world f = (\<lambda>s. let (a, w) = f (world s) in (Inr a, s\<lparr>world := w\<rparr>))"


section \<open>Encodings\<close>

text \<open>
  \<open>btoa\<close> followed by the three replacements: plus to minus, slash to underscore, and the padding
  at the end removed.
\<close>

definition base64url :: "byte list \<Rightarrow> string" where
  "base64url data =
     (let s = map (\<lambda>c. if c = CHR ''/'' then CHR ''_'' else c)
                (map (\<lambda>c. if c = CHR ''+'' then CHR ''-'' else c) (btoa (binary_string data)))
      in rev (dropWhile (\<lambda>c. c = CHR ''='') (rev s)))"

definition encodeJSON :: "json \<Rightarrow> string" where
  "encodeJSON v = base64url (utf8 (stringify v))"

text \<open>The decoder of RFC 7515, as a server has it.\<close>

definition from_url_char :: "char \<Rightarrow> char" where
  "from_url_char c = (if c = CHR ''-'' then CHR ''+'' else if c = CHR ''_'' then CHR ''/'' else c)"

definition base64url_decode :: "string \<Rightarrow> byte list option" where
  "base64url_decode s = map_option bytes_of (atob (map from_url_char s))"

definition decodeJSON :: "string \<Rightarrow> json option" where
  "decodeJSON s = Option.bind (Option.bind (base64url_decode s) utf8_decode) json_parse"


section \<open>The key store\<close>

definition idb_op :: "('w, 'y) platform_scheme \<Rightarrow> (('w, 'z) dpop_state_scheme, js_error, unit) act" where
  [dpop_defs]: "idb_op pl =
     andThen (on_world (idbFault pl)) (\<lambda>f. case f of None \<Rightarrow> ret () | Some m \<Rightarrow> throw (JsError m))"

definition openDB :: "('w, 'y) platform_scheme \<Rightarrow> (('w, 'z) dpop_state_scheme, js_error, unit) act" where
  [dpop_defs]: "openDB pl = idb_op pl"

definition getStoredKey ::
    "('w, 'y) platform_scheme \<Rightarrow> (('w, 'z) dpop_state_scheme, js_error, stored_key option) act" where
  [dpop_defs]: "getStoredKey pl =
     andThen (openDB pl) (\<lambda>_. andThen (idb_op pl) (\<lambda>_. get_state idbKey))"

definition setStoredKey ::
    "('w, 'y) platform_scheme \<Rightarrow> stored_key \<Rightarrow> (('w, 'z) dpop_state_scheme, js_error, unit) act" where
  [dpop_defs]: "setStoredKey pl key =
     andThen (openDB pl) (\<lambda>_. andThen (idb_op pl) (\<lambda>_. modify (\<lambda>s. s\<lparr>idbKey := Some key\<rparr>)))"

definition usable_key :: "stored_key option \<Rightarrow> stored_key option" where
  "usable_key k = (case k of None \<Rightarrow> None
     | Some key \<Rightarrow> (case privateKey key of None \<Rightarrow> None | Some _ \<Rightarrow> Some key))"

definition getOrCreateDPoPKey ::
    "('w, 'y) platform_scheme \<Rightarrow> (('w, 'z) dpop_state_scheme, js_error, stored_key) act" where
  [dpop_defs]: "getOrCreateDPoPKey pl =
     andThen (get_state cachedKey) (\<lambda>cached. case cached of Some key \<Rightarrow> ret key
     | None \<Rightarrow>
         andThen (getStoredKey pl) (\<lambda>existing. case usable_key existing of
           Some key \<Rightarrow> andThen (modify (\<lambda>s. s\<lparr>cachedKey := Some key\<rparr>)) (\<lambda>_. ret key)
         | None \<Rightarrow>
             andThen (on_world (generateKey pl)) (\<lambda>pair.
               (let stored = \<lparr>privateKey = Some (fst pair), publicJwk = snd pair\<rparr>
                in andThen (setStoredKey pl stored) (\<lambda>_.
                   andThen (modify (\<lambda>s. s\<lparr>cachedKey := Some stored\<rparr>)) (\<lambda>_. ret stored))))))"


section \<open>Thumbprint and request target\<close>

definition canonical_jwk :: "jwk \<Rightarrow> json" where
  "canonical_jwk k =
     JObj [(''crv'', JStr (jwk_crv k)), (''kty'', JStr (jwk_kty k)),
           (''x'', JStr (jwk_x k)), (''y'', JStr (jwk_y k))]"

definition computeJkt :: "('w, 'y) platform_scheme \<Rightarrow> jwk \<Rightarrow> string" where
  "computeJkt pl k = base64url (sha256 pl (utf8 (stringify (canonical_jwk k))))"

definition strip_api :: "string \<Rightarrow> string" where
  "strip_api path =
     (if starts_with path ''/api''
      then (if drop 4 path = [] then ''/'' else drop 4 path) else path)"

definition normalizeHtu :: "string option \<Rightarrow> string \<Rightarrow> string" where
  "normalizeHtu origin url =
     (let base = (case origin of Some o' \<Rightarrow> o' | None \<Rightarrow> ''http://localhost:3000'')
      in case new_URL url base of None \<Rightarrow> url
         | Some u \<Rightarrow> u_origin u @ strip_api (u_pathname u))"


section \<open>The proof\<close>

definition proof_header :: "jwk \<Rightarrow> json" where
  "proof_header k =
     JObj [(''typ'', JStr ''dpop+jwt''), (''alg'', JStr ''ES256''),
           (''jwk'', JObj [(''kty'', JStr (jwk_kty k)), (''crv'', JStr (jwk_crv k)),
                          (''x'', JStr (jwk_x k)), (''y'', JStr (jwk_y k))])]"

definition proof_payload :: "string \<Rightarrow> string \<Rightarrow> string \<Rightarrow> nat \<Rightarrow> string option \<Rightarrow> json" where
  "proof_payload jti htm htu iat nonce =
     JObj ([(''jti'', JStr jti), (''htm'', JStr htm), (''htu'', JStr htu), (''iat'', JNum (int iat))]
       @ (case nonce of Some n \<Rightarrow> if truthy_str n then [(''nonce'', JStr n)] else [] | None \<Rightarrow> []))"

definition createDPoPProof ::
    "('w, 'y) platform_scheme \<Rightarrow> string \<Rightarrow> string \<Rightarrow> string option
      \<Rightarrow> (('w, 'z) dpop_state_scheme, js_error, string \<times> string) act" where
  [dpop_defs]: "createDPoPProof pl meth url nonce =
     andThen (getOrCreateDPoPKey pl) (\<lambda>key.
     andThen (on_world (randomUUID pl)) (\<lambda>jti.
     andThen (on_world (dateNow pl)) (\<lambda>now.
       (let header = proof_header (publicJwk key);
            payload = proof_payload jti (to_upper meth) (normalizeHtu (windowOrigin pl) url)
                        (now div 1000) nonce;
            signingInput = encodeJSON header @ ''.'' @ encodeJSON payload
        in case privateKey key of None \<Rightarrow> throw (JsError ''not a CryptoKey'')
           | Some sk \<Rightarrow>
               andThen (on_world (sign_es256 pl sk (utf8 signingInput))) (\<lambda>signature.
                 ret (signingInput @ ''.'' @ base64url signature,
                      computeJkt pl (publicJwk key)))))))"

definition getGoogleAuthorizeURL ::
    "('w, 'y) platform_scheme \<Rightarrow> string \<Rightarrow> (('w, 'z) dpop_state_scheme, js_error, string) act" where
  [dpop_defs]: "getGoogleAuthorizeURL pl base =
     andThen (getOrCreateDPoPKey pl) (\<lambda>key.
       ret (base @ (if CHR ''?'' \<in> set base then ''&'' else ''?'') @ ''jkt=''
            @ encodeURIComponent (computeJkt pl (publicJwk key))))"


section \<open>The development proxy\<close>

record next_url =
  nu_protocol :: string
  nu_host :: string
  nu_pathname :: string
  nu_search :: string

definition url_scheme :: "url \<Rightarrow> string" where
  "url_scheme u = takeWhile (\<lambda>c. c \<noteq> CHR '':'') (u_origin u)"

definition proxy :: "string option \<Rightarrow> string option \<Rightarrow> next_url \<Rightarrow> next_url option" where
  "proxy gateway_env public_env nextUrl =
     (let gatewayUrl =
            (if truthy_ostr gateway_env then the gateway_env
             else if truthy_ostr public_env then the public_env
             else ''http://localhost:8000'')
      in case new_URL gatewayUrl [] of None \<Rightarrow> None
         | Some gateway \<Rightarrow>
             Some (nextUrl\<lparr>nu_protocol := url_scheme gateway @ '':'',
                           nu_host := drop (length (url_scheme gateway) + 3) (u_origin gateway),
                           nu_pathname := strip_api (nu_pathname nextUrl)\<rparr>))"


section \<open>The encodings round-trip\<close>

definition url_char :: "nat \<Rightarrow> char" where
  "url_char n = (if n < 62 then b64_char n else if n = 62 then CHR ''-'' else CHR ''_'')"

lemma b64_char_cases:
  "n < 62 \<Longrightarrow> alnum (b64_char n)" "b64_char 62 = CHR ''+''" "b64_char 63 = CHR ''/''"
  by (auto simp: b64_char_def alnum_def)

lemma alnum_not [simp]:
  "\<not> alnum (CHR ''+'')" "\<not> alnum (CHR ''/'')" "\<not> alnum (CHR ''-'')" "\<not> alnum (CHR ''_'')"
  "\<not> alnum (CHR ''='')" "\<not> alnum (CHR ''.'')"
  by (simp_all add: alnum_def)

lemma b64_char_neq:
  assumes "n < 62"
  shows "b64_char n \<noteq> CHR ''+''" "b64_char n \<noteq> CHR ''/''" "b64_char n \<noteq> CHR ''-''"
    "b64_char n \<noteq> CHR ''_''" "b64_char n \<noteq> CHR ''=''"
  using b64_char_cases(1) [OF assms] alnum_not by metis+

lemma replace_b64_char:
  assumes "n < 64"
  shows "(if (if b64_char n = CHR ''+'' then CHR ''-'' else b64_char n) = CHR ''/'' then CHR ''_''
          else if b64_char n = CHR ''+'' then CHR ''-'' else b64_char n) = url_char n"
proof -
  consider "n < 62" | "n = 62" | "n = 63" using assms by linarith
  then show ?thesis
    by cases (simp_all add: url_char_def b64_char_cases(2,3) b64_char_neq)
qed

lemma url_char_safe: "alnum (url_char n) \<or> url_char n = CHR ''-'' \<or> url_char n = CHR ''_''"
  by (simp add: url_char_def b64_char_cases)

lemma from_url_char_url_char:
  assumes "n < 64"
  shows "from_url_char (url_char n) = b64_char n"
proof -
  consider "n < 62" | "n = 62" | "n = 63" using assms by linarith
  then show ?thesis
    by cases (simp_all add: url_char_def from_url_char_def b64_char_cases(2,3) b64_char_neq)
qed

lemma strip_pad:
  assumes "CHR ''='' \<notin> set t"
  shows "rev (dropWhile (\<lambda>c. c = CHR ''='') (rev (t @ replicate k (CHR ''='')))) = t"
proof -
  have "dropWhile (\<lambda>c. c = CHR ''='') (rev t) = rev t"
  proof (cases "rev t")
    case (Cons c u)
    then have "c \<in> set t" by (metis list.set_intros(1) set_rev)
    with assms have "c \<noteq> CHR ''=''" by auto
    with Cons show ?thesis by simp
  qed simp
  then show ?thesis by (simp add: dropWhile_append)
qed

lemma base64url_body: "base64url bs = map url_char (sextets (binary_string bs))"
proof -
  let ?s = "sextets (binary_string bs)"
  let ?n = "(3 - length (binary_string bs) mod 3) mod 3"
  have "map (\<lambda>c. if c = CHR ''/'' then CHR ''_'' else c)
          (map (\<lambda>c. if c = CHR ''+'' then CHR ''-'' else c) (map b64_char ?s)) = map url_char ?s"
    unfolding map_map comp_def
    by (rule map_cong [OF refl]) (rule replace_b64_char, erule sextets_less)
  then have eq: "map (\<lambda>c. if c = CHR ''/'' then CHR ''_'' else c)
          (map (\<lambda>c. if c = CHR ''+'' then CHR ''-'' else c) (btoa (binary_string bs)))
        = map url_char ?s @ replicate ?n (CHR ''='')"
    by (simp add: btoa_def del: map_map)
  have np: "CHR ''='' \<notin> set (map url_char ?s)"
  proof
    assume "CHR ''='' \<in> set (map url_char ?s)"
    then obtain n where "CHR ''='' = url_char n" by auto
    then have "\<not> alnum (url_char n)" "url_char n \<noteq> CHR ''-''" "url_char n \<noteq> CHR ''_''"
      using alnum_not(5) by (simp_all flip: \<open>CHR ''='' = url_char n\<close>)
    then show False using url_char_safe [of n] by blast
  qed
  show ?thesis unfolding base64url_def Let_def eq by (rule strip_pad [OF np])
qed

lemma base64url_decode_encode: "base64url_decode (base64url bs) = Some bs"
proof -
  have "map from_url_char (base64url bs) = map b64_char (sextets (binary_string bs))"
    unfolding base64url_body map_map comp_def
    by (rule map_cong [OF refl]) (rule from_url_char_url_char, erule sextets_less)
  then show ?thesis by (simp add: base64url_decode_def atob_unpadded)
qed

interpretation b64url: codec base64url base64url_decode "\<lambda>_. True"
  by unfold_locales (rule base64url_decode_encode)

interpretation json_bytes: codec_compose stringify json_parse "\<lambda>_. True" utf8 utf8_decode "\<lambda>_. True"
  by unfold_locales simp

lemma decodeJSON_encodeJSON: "decodeJSON (encodeJSON v) = Some v"
  by (simp add: decodeJSON_def encodeJSON_def base64url_decode_encode utf8_decode_utf8
      json_parse_stringify)

interpretation jws_part: codec encodeJSON decodeJSON "\<lambda>_. True"
  by unfold_locales (rule decodeJSON_encodeJSON)

definition url_safe_char :: "char \<Rightarrow> bool" where
  "url_safe_char c \<longleftrightarrow> alnum c \<or> c = CHR ''-'' \<or> c = CHR ''_''"

lemma base64url_safe: "c \<in> set (base64url bs) \<Longrightarrow> url_safe_char c"
  using url_char_safe by (auto simp: base64url_body url_safe_char_def)

lemma length_base64url: "length (base64url bs) = (4 * length bs + 2) div 3"
  by (simp add: base64url_body length_sextets binary_string_def)

lemma base64url_no_dot: "CHR ''.'' \<notin> set (base64url bs)"
  using base64url_safe [of "CHR ''.''" bs] by (auto simp: url_safe_char_def alnum_def)

lemma encodeURIComponent_safe:
  assumes "\<forall>c \<in> set s. url_safe_char c"
  shows "encodeURIComponent s = s"
  using assms
  by (induction s) (auto simp: encodeURIComponent_def pct_encode_def uri_keep_def url_safe_char_def)


section \<open>What the server reads from a proof\<close>

definition jws_payload :: "string \<Rightarrow> json option" where
  "jws_payload tok = Option.bind (js_nth (split_on (CHR ''.'') tok) 1) decodeJSON"

definition jws_header :: "string \<Rightarrow> json option" where
  "jws_header tok = Option.bind (js_nth (split_on (CHR ''.'') tok) 0) decodeJSON"

lemma split_jws:
  "split_on (CHR ''.'') (encodeJSON h @ CHR ''.'' # encodeJSON p @ CHR ''.'' # base64url g)
   = [encodeJSON h, encodeJSON p, base64url g]"
  unfolding encodeJSON_def
  by (simp add: split_on_append split_on_absent base64url_no_dot)

lemma on_world_Inr: "on_world f s = (Inr a, s\<lparr>world := snd (f (world s))\<rparr>) \<longleftrightarrow> a = fst (f (world s))"
  by (auto simp: on_world_def split: prod.splits)

lemma on_world_eq: "on_world f s = (Inr (fst (f (world s))), s\<lparr>world := snd (f (world s))\<rparr>)"
  by (simp add: on_world_def split: prod.splits)

lemma createDPoPProof_wire:
  assumes "createDPoPProof pl meth url nonce s = (Inr (tok, jkt), s')"
  obtains key s1 jti now sig where
    "getOrCreateDPoPKey pl s = (Inr key, s1)"
    and "tok = encodeJSON (proof_header (publicJwk key)) @ CHR ''.''
           # encodeJSON (proof_payload jti (to_upper meth) (normalizeHtu (windowOrigin pl) url)
                (now div 1000) nonce) @ CHR ''.'' # base64url sig"
    and "jkt = computeJkt pl (publicJwk key)"
    and "cachedKey s' = cachedKey s1" and "idbKey s' = idbKey s1"
    and "jti = fst (randomUUID pl (world s1))"
proof -
  from assms obtain key s1 where k: "getOrCreateDPoPKey pl s = (Inr key, s1)"
    unfolding createDPoPProof_def andThen_eq_Inr by blast
  show ?thesis
    using assms k that
    by (auto simp: createDPoPProof_def andThen_def on_world_eq ret_def throw_def Let_def
        split: option.splits)
qed

lemma jfield_payload:
  "jfield ''htm'' (proof_payload jti htm htu iat nonce) = Some (JStr htm)"
  "jfield ''htu'' (proof_payload jti htm htu iat nonce) = Some (JStr htu)"
  "jfield ''nonce'' (proof_payload jti htm htu iat nonce)
     = (if truthy_ostr nonce then map_option JStr nonce else None)"
  by (auto simp: proof_payload_def js_defs split: option.splits)

lemma jws_parts:
  "jws_header (encodeJSON h @ CHR ''.'' # encodeJSON p @ CHR ''.'' # base64url g) = Some h"
  "jws_payload (encodeJSON h @ CHR ''.'' # encodeJSON p @ CHR ''.'' # base64url g) = Some p"
  by (simp_all add: jws_header_def jws_payload_def split_jws js_nth_def decodeJSON_encodeJSON)


section \<open>The key store\<close>

lemma idb_op_frame:
  "idb_op pl s = (r, s') \<Longrightarrow> cachedKey s' = cachedKey s \<and> idbKey s' = idbKey s"
  by (auto simp: idb_op_def andThen_def on_world_eq ret_def throw_def split: option.splits)

lemma idb_op_fault:
  "fst (idbFault pl (world s)) = Some m \<Longrightarrow>
   idb_op pl s = (Inl (JsError m), s\<lparr>world := snd (idbFault pl (world s))\<rparr>)"
  by (simp add: idb_op_def andThen_def on_world_eq throw_def)

lemma getStoredKey_frame:
  assumes "getStoredKey pl s = (r, s')"
  shows "cachedKey s' = cachedKey s \<and> idbKey s' = idbKey s \<and> (\<forall>k. r = Inr k \<longrightarrow> k = idbKey s)"
  using assms
  by (auto simp: getStoredKey_def openDB_def andThen_def get_state_def
      dest!: idb_op_frame split: prod.splits sum.splits)

lemma setStoredKey_frame:
  assumes "setStoredKey pl k s = (r, s')"
  shows "cachedKey s' = cachedKey s \<and> idbKey s' = (if isl r then idbKey s else Some k)"
  using assms
  by (auto simp: setStoredKey_def openDB_def andThen_def modify_def
      dest!: idb_op_frame split: prod.splits sum.splits)

text \<open>A cached key is the persisted one and can sign.\<close>

definition key_inv :: "('w, 'z) dpop_state_scheme \<Rightarrow> bool" where
  "key_inv s \<longleftrightarrow>
     (\<forall>k. cachedKey s = Some k \<longrightarrow> idbKey s = Some k \<and> privateKey k \<noteq> None)"

lemma usable_key_Some: "usable_key k = Some key \<longleftrightarrow> k = Some key \<and> privateKey key \<noteq> None"
  by (auto simp: usable_key_def split: option.splits)

lemma getOrCreate_cached: "cachedKey s = Some k \<Longrightarrow> getOrCreateDPoPKey pl s = (Inr k, s)"
  by (simp add: getOrCreateDPoPKey_def andThen_def get_state_def ret_def)

lemma getOrCreate_cases:
  assumes "cachedKey s = None"
  shows "getOrCreateDPoPKey pl s =
    (case getStoredKey pl s of
       (Inl e, s1) \<Rightarrow> (Inl e, s1)
     | (Inr existing, s1) \<Rightarrow>
         (case usable_key existing of
            Some key \<Rightarrow> (Inr key, s1\<lparr>cachedKey := Some key\<rparr>)
          | None \<Rightarrow>
              (let pair = fst (generateKey pl (world s1));
                   s2 = s1\<lparr>world := snd (generateKey pl (world s1))\<rparr>;
                   stored = \<lparr>privateKey = Some (fst pair), publicJwk = snd pair\<rparr>
               in case setStoredKey pl stored s2 of
                    (Inl e, s3) \<Rightarrow> (Inl e, s3)
                  | (Inr _, s3) \<Rightarrow> (Inr stored, s3\<lparr>cachedKey := Some stored\<rparr>))))"
  using assms
  by (auto simp: getOrCreateDPoPKey_def andThen_def get_state_def ret_def modify_def on_world_eq
      Let_def split: prod.splits sum.splits option.splits)

lemma getOrCreate_result:
  assumes "getOrCreateDPoPKey pl s = (r, s')" and "key_inv s"
  shows "key_inv s'"
    and "r = Inr k \<Longrightarrow> cachedKey s' = Some k \<and> idbKey s' = Some k \<and> privateKey k \<noteq> None"
    and "isl r \<Longrightarrow> cachedKey s' = None \<and> idbKey s' = idbKey s"
proof -
  have "key_inv s' \<and> (\<forall>k. r = Inr k \<longrightarrow> cachedKey s' = Some k \<and> idbKey s' = Some k \<and> privateKey k \<noteq> None)
    \<and> (isl r \<longrightarrow> cachedKey s' = None \<and> idbKey s' = idbKey s)"
  proof (cases "cachedKey s")
    case None
    obtain g s1 where g: "getStoredKey pl s = (g, s1)" by fastforce
    note frame1 = getStoredKey_frame [OF g]
    show ?thesis
    proof (cases g)
      case (Inl e)
      with assms None g frame1 show ?thesis by (auto simp: getOrCreate_cases key_inv_def)
    next
      case (Inr existing)
      show ?thesis
      proof (cases "usable_key existing")
        case (Some key)
        with assms None g Inr frame1 show ?thesis
          by (auto simp: getOrCreate_cases key_inv_def usable_key_Some)
      next
        case no: None
        let ?pair = "fst (generateKey pl (world s1))"
        let ?k = "\<lparr>privateKey = Some (fst ?pair), publicJwk = snd ?pair\<rparr>"
        obtain u s3 where u: "setStoredKey pl ?k (s1\<lparr>world := snd (generateKey pl (world s1))\<rparr>) = (u, s3)"
          by fastforce
        note frame2 = setStoredKey_frame [OF u]
        from assms(1) None g Inr no u
        have "(r, s') = (case u of Inl e \<Rightarrow> (Inl e, s3) | Inr _ \<Rightarrow> (Inr ?k, s3\<lparr>cachedKey := Some ?k\<rparr>))"
          by (simp add: getOrCreate_cases Let_def split: sum.splits)
        with None frame1 frame2 show ?thesis by (cases u) (simp_all add: key_inv_def)
      qed
    qed
  next
    case (Some k)
    with assms show ?thesis by (auto simp: getOrCreate_cached key_inv_def)
  qed
  then show "key_inv s'"
    and "r = Inr k \<Longrightarrow> cachedKey s' = Some k \<and> idbKey s' = Some k \<and> privateKey k \<noteq> None"
    and "isl r \<Longrightarrow> cachedKey s' = None \<and> idbKey s' = idbKey s"
    by blast+
qed

text \<open>A sample platform, for the examples: a counter as world, no faults, no network.\<close>

definition sample_jwk :: jwk where
  "sample_jwk = \<lparr>jwk_kty = ''EC'', jwk_crv = ''P-256'', jwk_x = ''eA'', jwk_y = ''eQ''\<rparr>"

definition sample_platform :: "nat platform" where
  "sample_platform =
     \<lparr>generateKey = (\<lambda>w. ((w, sample_jwk), Suc w)),
      sign_es256 = (\<lambda>k bs w. (replicate 64 (word_of_nat k), w)),
      sha256 = (\<lambda>bs. replicate 32 (word_of_nat (length bs))),
      randomUUID = (\<lambda>w. (''a'' @ show_nat w, Suc w)),
      dateNow = (\<lambda>w. (1000 * w, w)),
      idbFault = (\<lambda>w. (None, w)),
      fetch = (\<lambda>rq w. (Inl ''offline'', w)),
      windowOrigin = Some ''https://chat.test''\<rparr>"

definition sample_state :: "nat dpop_state" where
  "sample_state = \<lparr>cachedKey = None, idbKey = None, world = 7\<rparr>"


section \<open>Targets and thumbprints\<close>

text \<open>The URL parser leaves a text of visible characters as it is.\<close>

lemma url_clean_visible:
  assumes "\<forall>c \<in> set s. 32 < ord c"
  shows "url_clean s = s"
proof -
  have d: "dropWhile (\<lambda>c. ord c \<le> 32) t = t" if "\<forall>c \<in> set t. 32 < ord c" for t :: string
    using that by (cases t) auto
  have "filter (\<lambda>c. ord c \<notin> {9, 10, 13}) s = s"
    using assms by (intro filter_True) auto
  then show ?thesis using assms by (simp add: url_clean_def d)
qed

lemma seg_char_visible: "seg_char c \<Longrightarrow> 32 < ord c"
  by (simp add: seg_char_def path_keep_def)

lemma API_PATHS_visible:
  assumes "well_formed_endpoint e" and "c \<in> set (API_PATHS e)"
  shows "32 < ord c"
proof -
  have "c = CHR ''/'' \<or> (\<exists>s \<in> set (endpoint_segments e). c \<in> set s)"
    using assms(2) set_intercalate [of "''/''" "endpoint_segments e"]
    by (auto simp: API_PATHS_segments)
  then show ?thesis
    using endpoint_segments_plain [OF assms(1)] seg_char_visible
    by (auto simp: plain_segment_def list_all_iff)
qed

lemma new_URL_path:
  assumes "\<forall>c \<in> set (d # t). 32 < ord c" and "\<not> slash d"
  shows "new_URL (CHR ''/'' # d # t) b = Some \<lparr>u_origin = b, u_pathname = pathname_of (d # t)\<rparr>"
proof -
  have "url_clean (CHR ''/'' # d # t) = CHR ''/'' # d # t"
    using assms(1) by (intro url_clean_visible) auto
  moreover have "\<not> has_scheme (CHR ''/'' # d # t)"
    by (simp add: has_scheme_def alnum_def)
  ultimately show ?thesis using assms(2) by (simp add: new_URL_def slash_def)
qed

lemma strip_api_prefix: "strip_api (''/api'' @ API_PATHS e) = API_PATHS e"
  by (simp add: strip_api_def API_PATHS_segments)

lemma normalizeHtu_API_PATHS:
  assumes "well_formed_endpoint e" and "\<forall>c \<in> set q. 32 < ord c" and "q = [] \<or> hd q = CHR ''?''"
  shows "normalizeHtu (Some b) (''/api'' @ API_PATHS e @ q) = b @ API_PATHS e"
proof -
  have "\<forall>c \<in> set (''api'' @ API_PATHS e @ q). 32 < ord c"
    using assms(2) API_PATHS_visible [OF assms(1)] by auto
  then have "new_URL (''/api'' @ API_PATHS e @ q) b
      = Some \<lparr>u_origin = b, u_pathname = pathname_of (''api'' @ API_PATHS e @ q)\<rparr>"
    using new_URL_path [of "CHR ''a''" "''pi'' @ API_PATHS e @ q" b] by (simp add: slash_def)
  also have "pathname_of (''api'' @ API_PATHS e @ q) = ''/api'' @ API_PATHS e"
    by (rule API_PATHS_api_pathname [OF assms(1,3)])
  finally show ?thesis
    unfolding normalizeHtu_def Let_def by (simp only: option.case url.simps strip_api_prefix)
qed

lemma stringify_canonical_inj:
  "stringify (canonical_jwk k) = stringify (canonical_jwk l) \<Longrightarrow> k = l"
  using json_parse_stringify [of "canonical_jwk k"] json_parse_stringify [of "canonical_jwk l"]
  by (simp add: canonical_jwk_def)

text \<open>What the JSON writer of the server would hash: the members in lexicographic order, no space.\<close>

lemma stringify_canonical:
  "stringify (canonical_jwk k) =
     CHR ''{'' # quote # ''crv'' @ quote # CHR '':'' # show_string (jwk_crv k)
     @ CHR '','' # quote # ''kty'' @ quote # CHR '':'' # show_string (jwk_kty k)
     @ CHR '','' # quote # ''x'' @ quote # CHR '':'' # show_string (jwk_x k)
     @ CHR '','' # quote # ''y'' @ quote # CHR '':'' # show_string (jwk_y k) @ ''}''"
proof -
  have "show_string ''crv'' = quote # ''crv'' @ [quote]" "show_string ''kty'' = quote # ''kty'' @ [quote]"
    "show_string ''x'' = quote # ''x'' @ [quote]" "show_string ''y'' = quote # ''y'' @ [quote]"
    by (simp_all add: show_string_def escape_char_def)
  then show ?thesis by (simp add: canonical_jwk_def)
qed

lemma base64url_inj: "base64url a = base64url b \<longleftrightarrow> a = b"
  using b64url.enc_inj by auto

lemma utf8_inj: "utf8 a = utf8 b \<longleftrightarrow> a = b"
  by (metis utf8_decode_utf8 option.inject)


section \<open>Properties\<close>



text \<open>
  C38: the key pair is generated once. From any state in which the cache agrees with the store, a
  successful \<open>getOrCreateDPoPKey\<close> leaves the key both cached and persisted; every later call returns
  it without touching the state, and so does the first call after a page reload that can open the
  database; a failed call caches nothing and leaves the store as it was, so the next one retries.
\<close>

theorem getOrCreateDPoPKey_stable:
  assumes "key_inv s" and "getOrCreateDPoPKey pl s = (r, s')"
  shows "key_inv s'
    \<and> (\<forall>k. r = Inr k \<longrightarrow> idbKey s' = Some k \<and> getOrCreateDPoPKey pl s' = (Inr k, s')
        \<and> (\<forall>k2 s2. getOrCreateDPoPKey pl (s'\<lparr>cachedKey := None\<rparr>) = (Inr k2, s2) \<longrightarrow> k2 = k))
    \<and> (\<forall>e. r = Inl e \<longrightarrow> cachedKey s' = None \<and> idbKey s' = idbKey s)"
proof (intro conjI allI impI)
  show "key_inv s'" by (rule getOrCreate_result(1) [OF assms(2,1)])
next
  fix e assume "r = Inl e"
  then show "cachedKey s' = None" "idbKey s' = idbKey s"
    using getOrCreate_result(3) [OF assms(2,1)] by simp_all
next
  fix k assume r: "r = Inr k"
  note k = getOrCreate_result(2) [OF assms(2,1) r]
  show "idbKey s' = Some k" using k by simp
  show "getOrCreateDPoPKey pl s' = (Inr k, s')" using k by (simp add: getOrCreate_cached)
next
  fix k k2 s2 assume r: "r = Inr k"
    and again: "getOrCreateDPoPKey pl (s'\<lparr>cachedKey := None\<rparr>) = (Inr k2, s2)"
  note k = getOrCreate_result(2) [OF assms(2,1) r]
  then have "usable_key (idbKey s') = Some k" by (simp add: usable_key_Some)
  with again show "k2 = k"
    by (auto simp: getOrCreate_cases dest!: getStoredKey_frame split: prod.splits sum.splits)
qed

theorem getOrCreateDPoPKey_stable_witness:
  "\<exists>k s'. getOrCreateDPoPKey sample_platform sample_state = (Inr k, s')
    \<and> getOrCreateDPoPKey sample_platform s' = (Inr k, s')"
proof -
  have inv: "key_inv sample_state" by (simp add: key_inv_def sample_state_def)
  have "\<exists>k s'. getOrCreateDPoPKey sample_platform sample_state = (Inr k, s')"
    by (simp add: dpop_defs act_simps on_world_def sample_platform_def sample_state_def Let_def
        usable_key_def)
  then obtain k s' where r: "getOrCreateDPoPKey sample_platform sample_state = (Inr k, s')" by blast
  from getOrCreateDPoPKey_stable [OF inv r] r show ?thesis by blast
qed

text \<open>
  C20: for every endpoint whose identifiers are ordinary path segments, with any query, the target
  signed into the proof is the origin followed by the path that the reverse proxy forwards: the
  \<open>/api\<close> prefix is stripped on both sides and the query is left out, so the server accepts the proof.
\<close>

theorem normalizeHtu_matches_proxy:
  assumes "well_formed_endpoint e" and "\<forall>c \<in> set q. 32 < ord c" and "q = [] \<or> hd q = CHR ''?''"
    and "nu_pathname n = ''/api'' @ API_PATHS e" and "proxy gw pub n = Some n'"
  shows "normalizeHtu (Some b) (''/api'' @ API_PATHS e @ q) = b @ nu_pathname n'
    \<and> nu_pathname n' = API_PATHS e \<and> nu_search n' = nu_search n"
proof -
  have "nu_pathname n' = API_PATHS e" "nu_search n' = nu_search n"
    using assms(4,5) strip_api_prefix [of e]
    by (auto simp: proxy_def Let_def split: option.splits)
  then show ?thesis using normalizeHtu_API_PATHS [OF assms(1-3)] by simp
qed

theorem normalizeHtu_matches_proxy_witness:
  "normalizeHtu (Some ''https://chat.test'') ''/api/chat/rooms/r1/messages?limit=50''
     = ''https://chat.test/chat/rooms/r1/messages''"
proof -
  let ?n = "\<lparr>nu_protocol = ''https:'', nu_host = ''chat.test'',
             nu_pathname = ''/api/chat/rooms/r1/messages'', nu_search = ''?limit=50''\<rparr>"
  have a: "well_formed_endpoint (ChatMessages ''r1'')" by code_simp
  have b: "\<forall>c \<in> set ''?limit=50''. 32 < ord c" by simp
  have c: "nu_pathname ?n = ''/api'' @ API_PATHS (ChatMessages ''r1'')" by simp
  have "proxy (Some ''http://gw:8000'') None ?n =
      Some (?n\<lparr>nu_protocol := ''http:'', nu_host := ''gw:8000'',
               nu_pathname := ''/chat/rooms/r1/messages''\<rparr>)"
    by code_simp
  from normalizeHtu_matches_proxy [OF a b _ c this, of "''https://chat.test''"]
  show ?thesis by simp
qed

text \<open>
  For any hash that yields 32 bytes, a thumbprint is 43 characters of the URL-safe alphabet, which
  \<open>encodeURIComponent\<close> leaves alone; and two keys have the same thumbprint only if they are equal or
  their canonical texts collide under the hash.
\<close>

theorem computeJkt_url_safe:
  assumes "\<And>bs. length (sha256 pl bs) = 32"
  shows "length (computeJkt pl k) = 43
    \<and> encodeURIComponent (computeJkt pl k) = computeJkt pl k
    \<and> (computeJkt pl k = computeJkt pl l \<longrightarrow>
         k = l \<or> (\<exists>a b. a \<noteq> b \<and> sha256 pl a = sha256 pl b))"
proof (intro conjI impI)
  show "length (computeJkt pl k) = 43" by (simp add: computeJkt_def length_base64url assms)
  show "encodeURIComponent (computeJkt pl k) = computeJkt pl k"
    by (rule encodeURIComponent_safe) (auto simp: computeJkt_def dest: base64url_safe)
  assume "computeJkt pl k = computeJkt pl l"
  then have "sha256 pl (utf8 (stringify (canonical_jwk k))) = sha256 pl (utf8 (stringify (canonical_jwk l)))"
    by (simp add: computeJkt_def base64url_inj)
  then show "k = l \<or> (\<exists>a b. a \<noteq> b \<and> sha256 pl a = sha256 pl b)"
    using stringify_canonical_inj [of k l] utf8_inj by metis
qed

theorem computeJkt_url_safe_witness:
  "length (computeJkt sample_platform sample_jwk) = 43"
  using computeJkt_url_safe [of sample_platform sample_jwk] by (simp add: sample_platform_def)

end
