(* ===== verification/Api_Client.thy ===== *)
theory Api_Client
  imports Dpop "HOL-Library.AList"
begin

text \<open>
  The HTTP client, \<^verbatim>\<open>src/frontend/src/lib/api-client.ts\<close>: the access token, the DPoP nonce and its
  retry loop, the refresh of an expired token and the request function every API call goes through.
  The module variables extend the state of the DPoP helpers. An action here is one caller's run
  from its first to its last step; how concurrent callers are serialized by the gate and share one
  refresh is the subject of \<open>Request_Gate\<close>.
\<close>

named_theorems client_defs \<open>definitions of the client's actions\<close>


section \<open>State\<close>

record 'w client = "'w dpop_state" +
  accessToken :: "string option"
  dpopNonce :: "string option"

definition setAccessToken :: "string option \<Rightarrow> ('w client, js_error, unit) act" where
  [client_defs]: "setAccessToken token = modify (\<lambda>s. s\<lparr>accessToken := token\<rparr>)"

definition getAccessToken :: "('w client, js_error, string option) act" where
  [client_defs]: "getAccessToken = get_state accessToken"

definition setDPoPNonce :: "string option \<Rightarrow> ('w client, js_error, unit) act" where
  [client_defs]: "setDPoPNonce nonce = modify (\<lambda>s. s\<lparr>dpopNonce := nonce\<rparr>)"

definition captureDPoPNonce :: "response \<Rightarrow> ('w client, js_error, string option) act" where
  [client_defs]: "captureDPoPNonce res =
     andThen (if truthy_ostr (rs_nonce res) then setDPoPNonce (rs_nonce res) else ret ())
       (\<lambda>_. ret (rs_nonce res))"


section \<open>One exchange with a proof\<close>

definition fetchWithProof ::
    "'w platform \<Rightarrow> string \<Rightarrow> string \<Rightarrow> (string \<times> string) list \<Rightarrow> string option \<Rightarrow> string option
      \<Rightarrow> ('w client, js_error, response) act" where
  [client_defs]: "fetchWithProof pl url meth headers body nonce =
     andThen (createDPoPProof pl meth url nonce) (\<lambda>(tok, jkt).
     andThen (on_world (fetch pl
         \<lparr>rq_url = url, rq_method = meth,
          rq_headers = AList.update ''DPoP'' tok headers, rq_body = body\<rparr>))
       (\<lambda>answer. case answer of Inl m \<Rightarrow> throw (JsError m) | Inr res \<Rightarrow> ret res))"

definition isUseNonceResponse :: "response \<Rightarrow> bool" where
  "isUseNonceResponse res \<longleftrightarrow>
     rs_status res = 400
     \<and> (case json_parse (rs_text res) of None \<Rightarrow> False
        | Some data \<Rightarrow> jfield ''code'' data = Some (JStr ''use_dpop_nonce''))"

text \<open>The body of the retry loop, run for the given number of attempts still allowed.\<close>

primrec nonce_loop ::
    "nat \<Rightarrow> 'w platform \<Rightarrow> string \<Rightarrow> string \<Rightarrow> (string \<times> string) list \<Rightarrow> string option
      \<Rightarrow> response \<Rightarrow> string option \<Rightarrow> ('w client, js_error, response) act" where
  "nonce_loop 0 pl url meth headers body res challengeNonce = ret res"
| "nonce_loop (Suc n) pl url meth headers body res challengeNonce =
     (if \<not> isUseNonceResponse res then ret res
      else if \<not> truthy_ostr challengeNonce then ret res
      else andThen (fetchWithProof pl url meth headers body challengeNonce) (\<lambda>res'.
           andThen (captureDPoPNonce res') (\<lambda>challengeNonce'.
             nonce_loop n pl url meth headers body res' challengeNonce')))"

definition doFetch ::
    "'w platform \<Rightarrow> string \<Rightarrow> string \<Rightarrow> (string \<times> string) list \<Rightarrow> string option
      \<Rightarrow> ('w client, js_error, response) act" where
  [client_defs]: "doFetch pl url meth headers body =
     andThen (get_state dpopNonce) (\<lambda>nonce.
     andThen (fetchWithProof pl url meth headers body nonce) (\<lambda>res.
     andThen (captureDPoPNonce res) (\<lambda>challengeNonce.
       nonce_loop 2 pl url meth headers body res challengeNonce)))"


section \<open>The access token\<close>

definition rs_ok :: "response \<Rightarrow> bool" where
  "rs_ok res \<longleftrightarrow> 200 \<le> rs_status res \<and> rs_status res \<le> 299"

definition res_json :: "response \<Rightarrow> ('w client, js_error, json) act" where
  [client_defs]: "res_json res =
     (case json_parse (rs_text res) of None \<Rightarrow> throw (JsError ''SyntaxError'') | Some v \<Rightarrow> ret v)"

text \<open>The token of a refresh answer: \<open>body.success && body.data?.token\<close>, a string by its type.\<close>

definition refreshed_token :: "json \<Rightarrow> string option" where
  "refreshed_token body =
     (if jtruthy (jfield ''success'' body)
      then (case jstring (Option.bind (jfield ''data'' body) (jfield ''token'')) of
              Some t \<Rightarrow> if truthy_str t then Some t else None
            | None \<Rightarrow> None)
      else None)"

definition refreshAccessToken :: "'w platform \<Rightarrow> ('w client, js_error, string option) act" where
  [client_defs]: "refreshAccessToken pl =
     catching
       (andThen (doFetch pl ''/api/auth/refresh'' ''POST'' [] None) (\<lambda>res.
          if \<not> rs_ok res then andThen (setAccessToken None) (\<lambda>_. ret None)
          else andThen (res_json res) (\<lambda>body.
            (case refreshed_token body of
               Some t \<Rightarrow> andThen (setAccessToken (Some t)) (\<lambda>_. ret (Some t))
             | None \<Rightarrow> andThen (setAccessToken None) (\<lambda>_. ret None)))))
       (\<lambda>_. andThen (setAccessToken None) (\<lambda>_. ret None))"

text \<open>
  The claims of a token as the client reads them: the part between the dots through \<open>atob\<close> and
  \<open>JSON.parse\<close>. A missing part is the text undefined, which \<open>atob\<close> refuses.
\<close>

definition token_payload :: "string \<Rightarrow> json option" where
  "token_payload token =
     (case js_nth (split_on (CHR ''.'') token) 1 of None \<Rightarrow> None
      | Some part \<Rightarrow> Option.bind (atob part) json_parse)"

text \<open>
  \<open>payload.exp * 1000 <= now\<close>: a missing \<open>exp\<close> is not a number and compares false; null and the
  booleans are numbers; a string, array or object is taken as not a number.
\<close>

definition exp_passed :: "json option \<Rightarrow> nat \<Rightarrow> bool" where
  "exp_passed v now =
     (case v of
        Some (JNum e) \<Rightarrow> e * 1000 \<le> int now
      | Some JNull \<Rightarrow> True
      | Some (JBool b) \<Rightarrow> (if b then 1000 else 0) \<le> now
      | _ \<Rightarrow> False)"

definition isTokenExpired :: "'w platform \<Rightarrow> string \<Rightarrow> ('w client, js_error, bool) act" where
  [client_defs]: "isTokenExpired pl token =
     (case token_payload token of None \<Rightarrow> ret True
      | Some payload \<Rightarrow>
          if payload = JNull then ret True
          else andThen (on_world (dateNow pl)) (\<lambda>now. ret (exp_passed (jfield ''exp'' payload) now)))"

definition getValidToken :: "'w platform \<Rightarrow> ('w client, js_error, string option) act" where
  [client_defs]: "getValidToken pl =
     andThen (get_state accessToken) (\<lambda>token.
       case token of None \<Rightarrow> refreshAccessToken pl
       | Some t \<Rightarrow>
           if \<not> truthy_str t then refreshAccessToken pl
           else andThen (isTokenExpired pl t) (\<lambda>expired.
             if expired then refreshAccessToken pl else ret (Some t)))"


section \<open>Requests\<close>

datatype param = PStr string | PNum int

fun param_string :: "param \<Rightarrow> string" where
  "param_string (PStr s) = s"
| "param_string (PNum i) = show_int i"

record request_options =
  opt_method :: "string option"
  opt_body :: "json option"
  opt_params :: "(string \<times> param option) list option"
  opt_auth :: "bool option"

text \<open>Parameters that are undefined or the empty string are left out.\<close>

fun set_params :: "(string \<times> param option) list \<Rightarrow> (string \<times> string) list \<Rightarrow> (string \<times> string) list" where
  "set_params [] sp = sp"
| "set_params ((key, value) # ps) sp =
     (case value of
        Some v \<Rightarrow> if v \<noteq> PStr [] then set_params ps (sp_set key (param_string v) sp) else set_params ps sp
      | None \<Rightarrow> set_params ps sp)"

definition request_url :: "string \<Rightarrow> (string \<times> param option) list option \<Rightarrow> string" where
  "request_url path params =
     (''/api'' @ path) @
     (case params of None \<Rightarrow> []
      | Some ps \<Rightarrow>
          (let qs = sp_toString (set_params ps []) in if truthy_str qs then CHR ''?'' # qs else []))"

text \<open>\<open>json.code ?? d\<close> and \<open>json.message ?? d\<close>, for fields that are strings when they are there.\<close>

definition string_or :: "string \<Rightarrow> json option \<Rightarrow> string" where
  "string_or d v =
     (case v of None \<Rightarrow> d | Some JNull \<Rightarrow> d | Some (JStr s) \<Rightarrow> s | Some w \<Rightarrow> stringify w)"

definition api_error :: "response \<Rightarrow> json \<Rightarrow> js_error" where
  "api_error res v =
     (if v = JNull then JsError ''TypeError''
      else ApiError (rs_status res) (string_or ''UNKNOWN'' (jfield ''code'' v))
        (string_or ''An unexpected error occurred'' (jfield ''message'' v)) (jfield ''data'' v))"

definition request_headers :: "json option \<Rightarrow> (string \<times> string) list" where
  "request_headers body =
     (if jtruthy body then [(''Content-Type'', ''application/json'')] else [])"

definition authorize :: "string option \<Rightarrow> (string \<times> string) list \<Rightarrow> (string \<times> string) list" where
  "authorize token headers =
     (case token of None \<Rightarrow> headers
      | Some t \<Rightarrow> if truthy_str t then AList.update ''Authorization'' (''DPoP '' @ t) headers else headers)"

definition finish_request :: "response \<Rightarrow> ('w client, js_error, json) act" where
  [client_defs]: "finish_request res =
     andThen (res_json res) (\<lambda>v. if \<not> rs_ok res then throw (api_error res v) else ret v)"

definition apiRequest :: "'w platform \<Rightarrow> string \<Rightarrow> request_options \<Rightarrow> ('w client, js_error, json) act" where
  [client_defs]: "apiRequest pl path options =
     (let meth = (case opt_method options of None \<Rightarrow> ''GET'' | Some m \<Rightarrow> m);
          auth = (case opt_auth options of None \<Rightarrow> True | Some a \<Rightarrow> a);
          urlStr = request_url path (opt_params options);
          text = (if jtruthy (opt_body options) then map_option stringify (opt_body options) else None)
      in andThen (if auth then andThen (getValidToken pl)
                                 (\<lambda>token. ret (authorize token (request_headers (opt_body options))))
                  else ret (request_headers (opt_body options))) (\<lambda>headers.
         andThen (doFetch pl urlStr meth headers text) (\<lambda>res.
         andThen (if rs_status res = 401 \<and> auth
                  then andThen (refreshAccessToken pl) (\<lambda>newToken.
                         if truthy_ostr newToken
                         then doFetch pl urlStr meth (authorize newToken headers) text
                         else ret res)
                  else ret res) finish_request)))"

definition apiGet :: "'w platform \<Rightarrow> string \<Rightarrow> (string \<times> param option) list option
    \<Rightarrow> ('w client, js_error, json) act" where
  [client_defs]: "apiGet pl path params =
     apiRequest pl path \<lparr>opt_method = Some ''GET'', opt_body = None, opt_params = params, opt_auth = None\<rparr>"

definition apiPost :: "'w platform \<Rightarrow> string \<Rightarrow> json option \<Rightarrow> bool option
    \<Rightarrow> ('w client, js_error, json) act" where
  [client_defs]: "apiPost pl path body auth =
     apiRequest pl path \<lparr>opt_method = Some ''POST'', opt_body = body, opt_params = None, opt_auth = auth\<rparr>"

definition apiPut :: "'w platform \<Rightarrow> string \<Rightarrow> json option \<Rightarrow> ('w client, js_error, json) act" where
  [client_defs]: "apiPut pl path body =
     apiRequest pl path \<lparr>opt_method = Some ''PUT'', opt_body = body, opt_params = None, opt_auth = None\<rparr>"

definition apiDelete :: "'w platform \<Rightarrow> string \<Rightarrow> ('w client, js_error, json) act" where
  [client_defs]: "apiDelete pl path =
     apiRequest pl path \<lparr>opt_method = Some ''DELETE'', opt_body = None, opt_params = None, opt_auth = None\<rparr>"

fun getErrorMessage :: "js_error \<Rightarrow> string" where
  "getErrorMessage (ApiError status code m data) = m"
| "getErrorMessage (JsError m) = m"
| "getErrorMessage NoError = ''An unexpected error occurred''"


section \<open>What the actions leave alone\<close>

lemma keeps_on_world: "(\<And>s w. f (s\<lparr>world := w\<rparr>) = f s) \<Longrightarrow> keeps f (on_world h)"
  by (auto simp: keeps_def on_world_def split: prod.splits)

text \<open>The helpers of \<open>dpop.ts\<close> touch neither the access token nor the nonce.\<close>

lemma createDPoPProof_keeps:
  "keeps (\<lambda>s :: 'w client. (accessToken s, dpopNonce s)) (createDPoPProof pl meth url nonce)"
  by (auto simp: dpop_defs Let_def intro!: keeps_intros keeps_on_world)

lemma fetchWithProof_keeps:
  "keeps (\<lambda>s. (accessToken s, dpopNonce s)) (fetchWithProof pl url meth headers body nonce)"
  unfolding fetchWithProof_def
  by (auto intro!: keeps_intros keeps_on_world createDPoPProof_keeps)

lemma nonce_loop_keeps_token:
  "keeps accessToken (nonce_loop n pl url meth headers body res challenge)"
proof (induction n arbitrary: res challenge)
  case (Suc n)
  have "keeps accessToken (fetchWithProof pl url meth headers body c)" for c
    using fetchWithProof_keeps [of pl url meth headers body c] by (simp add: keeps_def)
  with Suc show ?case
    by (auto simp: captureDPoPNonce_def setDPoPNonce_def intro!: keeps_intros)
qed (simp add: keeps_intros)

lemma doFetch_keeps_token: "keeps accessToken (doFetch pl url meth headers body)"
proof -
  have "keeps accessToken (fetchWithProof pl url meth headers body c)" for c
    using fetchWithProof_keeps [of pl url meth headers body c] by (simp add: keeps_def)
  then show ?thesis
    by (auto simp: doFetch_def captureDPoPNonce_def setDPoPNonce_def
        intro!: keeps_intros nonce_loop_keeps_token)
qed


section \<open>A platform that logs its network traffic\<close>

type_synonym traffic = "(http_request \<times> (string + response)) list"

definition lift_world :: "('w \<Rightarrow> 'a \<times> 'w) \<Rightarrow> 'w \<times> traffic \<Rightarrow> 'a \<times> ('w \<times> traffic)" where
  "lift_world f = (\<lambda>(w, l). let (a, w') = f w in (a, (w', l)))"

definition logged :: "'w platform \<Rightarrow> ('w \<times> traffic) platform" where
  "logged pl =
     \<lparr>generateKey = lift_world (generateKey pl),
      sign_es256 = (\<lambda>k bs. lift_world (sign_es256 pl k bs)),
      sha256 = sha256 pl,
      randomUUID = lift_world (randomUUID pl),
      dateNow = lift_world (dateNow pl),
      idbFault = lift_world (idbFault pl),
      fetch = (\<lambda>rq (w, l). let (a, w') = fetch pl rq w in (a, (w', l @ [(rq, a)]))),
      windowOrigin = windowOrigin pl\<rparr>"

abbreviation log_of :: "('w \<times> traffic, 'z) dpop_state_scheme \<Rightarrow> traffic" where
  "log_of s \<equiv> snd (world s)"

lemma keeps_log_lift: "keeps log_of (on_world (lift_world f))"
  by (auto simp: keeps_def on_world_def lift_world_def split: prod.splits)

lemma logged_sel:
  "generateKey (logged pl) = lift_world (generateKey pl)"
  "sign_es256 (logged pl) k bs = lift_world (sign_es256 pl k bs)"
  "randomUUID (logged pl) = lift_world (randomUUID pl)"
  "dateNow (logged pl) = lift_world (dateNow pl)"
  "idbFault (logged pl) = lift_world (idbFault pl)"
  by (simp_all add: logged_def)

lemma createDPoPProof_keeps_log: "keeps log_of (createDPoPProof (logged pl) meth url nonce)"
  by (auto simp: dpop_defs Let_def logged_sel intro!: keeps_intros keeps_log_lift)

text \<open>The nonce inside the proof a request carries.\<close>

definition proof_nonce :: "http_request \<Rightarrow> string option" where
  "proof_nonce rq =
     (case map_of (rq_headers rq) ''DPoP'' of None \<Rightarrow> None
      | Some tok \<Rightarrow> jstring (Option.bind (jws_payload tok) (jfield ''nonce'')))"

definition truthy_part :: "string option \<Rightarrow> string option" where
  "truthy_part m = (if truthy_ostr m then m else None)"

lemma createDPoPProof_nonce:
  assumes "createDPoPProof pl meth url nonce s = (Inr (tok, jkt), s')"
  shows "jstring (Option.bind (jws_payload tok) (jfield ''nonce'')) = truthy_part nonce"
proof -
  obtain key :: stored_key and jti now sig where
    "tok = encodeJSON (proof_header (publicJwk key)) @ CHR ''.''
       # encodeJSON (proof_payload jti (to_upper meth) (normalizeHtu (windowOrigin pl) url)
            (now div 1000) nonce) @ CHR ''.'' # base64url sig"
    by (rule createDPoPProof_wire [OF assms]) blast
  then have "jws_payload tok = Some (proof_payload jti (to_upper meth)
      (normalizeHtu (windowOrigin pl) url) (now div 1000) nonce)"
    by (simp add: jws_parts)
  then show ?thesis
    by (cases nonce) (simp_all add: jfield_payload truthy_part_def js_defs jstring_def
        del: jfield_JObj)
qed

text \<open>A request that repeats the caller's, with a proof over the given nonce.\<close>

definition carries ::
    "string \<Rightarrow> string \<Rightarrow> (string \<times> string) list \<Rightarrow> string option \<Rightarrow> string option \<Rightarrow> http_request \<Rightarrow> bool" where
  "carries url meth headers body nonce rq \<longleftrightarrow>
     rq_url rq = url \<and> rq_method rq = meth \<and> rq_body rq = body
     \<and> (\<forall>k. k \<noteq> ''DPoP'' \<longrightarrow> map_of (rq_headers rq) k = map_of headers k)
     \<and> proof_nonce rq = truthy_part nonce"

text \<open>Key agreement and the recorded nonces are kept by every step of an exchange.\<close>

lemma createDPoPProof_result:
  assumes "createDPoPProof pl meth url nonce s = (r, s')" and "key_inv s"
  shows "key_inv s'"
proof -
  obtain g s1 where g: "getOrCreateDPoPKey pl s = (g, s1)" by fastforce
  have "keeps (\<lambda>s. (cachedKey s, idbKey s))
     (andThen (on_world (randomUUID pl)) (\<lambda>jti.
     andThen (on_world (dateNow pl)) (\<lambda>now.
       (let header = proof_header (publicJwk key);
            payload = proof_payload jti (to_upper meth) (normalizeHtu (windowOrigin pl) url)
                        (now div 1000) nonce;
            signingInput = encodeJSON header @ ''.'' @ encodeJSON payload
        in case privateKey key of None \<Rightarrow> throw (JsError ''not a CryptoKey'')
           | Some sk \<Rightarrow>
               andThen (on_world (sign_es256 pl sk (utf8 signingInput))) (\<lambda>signature.
                 ret (signingInput @ ''.'' @ base64url signature,
                      computeJkt pl (publicJwk key)))))))" for key
    by (auto simp: Let_def intro!: keeps_intros keeps_on_world)
  with assms(1) g have "(cachedKey s', idbKey s') = (cachedKey s1, idbKey s1)"
    unfolding createDPoPProof_def
    by (cases g) (auto simp: andThen_Inl andThen_Inr dest: keepsD)
  with getOrCreate_result(1) [OF g assms(2)] show ?thesis by (simp add: key_inv_def)
qed

lemma fetchWithProof_log:
  assumes "fetchWithProof (logged pl) url meth headers body nonce s = (r, s')" and "key_inv s"
  obtains (no_proof) e where "r = Inl e" and "log_of s' = log_of s" and "key_inv s'"
      and "dpopNonce s' = dpopNonce s"
    | (sent) rq answer where "log_of s' = log_of s @ [(rq, answer)]"
      and "carries url meth headers body nonce rq"
      and "r = (case answer of Inl m \<Rightarrow> Inl (JsError m) | Inr res \<Rightarrow> Inr res)"
      and "key_inv s'" and "dpopNonce s' = dpopNonce s"
proof -
  obtain p s1 where p: "createDPoPProof (logged pl) meth url nonce s = (p, s1)" by fastforce
  have log1: "log_of s1 = log_of s" by (rule keepsD [OF createDPoPProof_keeps_log p])
  have inv1: "key_inv s1" by (rule createDPoPProof_result [OF p assms(2)])
  have non1: "dpopNonce s1 = dpopNonce s" using keepsD [OF createDPoPProof_keeps p] by simp
  show thesis
  proof (cases p)
    case (Inl e)
    with assms(1) p have "r = Inl e" "s' = s1" by (auto simp: fetchWithProof_def andThen_Inl)
    with no_proof log1 inv1 non1 show thesis by blast
  next
    case (Inr tj)
    obtain tok jkt where tj: "tj = (tok, jkt)" by fastforce
    let ?rq = "\<lparr>rq_url = url, rq_method = meth,
                rq_headers = AList.update ''DPoP'' tok headers, rq_body = body\<rparr>"
    obtain answer w where a: "fetch pl ?rq (fst (world s1)) = (answer, w)" by fastforce
    have f: "on_world (fetch (logged pl) ?rq) s1
        = (Inr answer, s1\<lparr>world := (w, log_of s1 @ [(?rq, answer)])\<rparr>)"
      using a by (cases "world s1") (simp add: on_world_def logged_def)
    have "(r, s') = ((case answer of Inl m \<Rightarrow> Inl (JsError m) | Inr res \<Rightarrow> Inr res),
        s1\<lparr>world := (w, log_of s1 @ [(?rq, answer)])\<rparr>)"
      using assms(1) p f Inr tj
      by (auto simp: fetchWithProof_def andThen_Inr throw_def ret_def split: sum.splits)
    moreover have "proof_nonce ?rq = truthy_part nonce"
      using createDPoPProof_nonce [OF p [unfolded Inr tj]]
      by (simp add: proof_nonce_def update_conv')
    then have "carries url meth headers body nonce ?rq"
      by (simp add: carries_def update_conv')
    ultimately show thesis using sent log1 inv1 non1 by (simp add: key_inv_def)
  qed
qed


section \<open>The exchange of one logical request\<close>

text \<open>
  The specification of a run of \<open>doFetch\<close> on the traffic it causes: the first request carries the
  given nonce, each further one the nonce of the challenge before it, at most \<open>n\<close> of them follow,
  and the result is the last answer, or an error (of the network, or of making a proof).
\<close>

fun exchange ::
    "nat \<Rightarrow> (string option \<Rightarrow> http_request \<Rightarrow> bool) \<Rightarrow> string option \<Rightarrow> traffic
      \<Rightarrow> js_error + response \<Rightarrow> bool" where
  "exchange n ok nonce [] r \<longleftrightarrow> isl r"
| "exchange n ok nonce ((rq, answer) # l) r \<longleftrightarrow>
     ok nonce rq \<and>
     (case answer of
        Inl m \<Rightarrow> l = [] \<and> r = Inl (JsError m)
      | Inr res \<Rightarrow>
          if isUseNonceResponse res \<and> truthy_ostr (rs_nonce res) \<and> 0 < n
          then exchange (n - 1) ok (rs_nonce res) l r
          else l = [] \<and> r = Inr res)"

text \<open>The nonce the client remembers after some traffic: the last one an answer brought.\<close>

fun nonce_after :: "traffic \<Rightarrow> string option \<Rightarrow> string option" where
  "nonce_after [] nonce = nonce"
| "nonce_after ((rq, answer) # l) nonce =
     nonce_after l (case answer of Inl m \<Rightarrow> nonce
        | Inr res \<Rightarrow> if truthy_ostr (rs_nonce res) then rs_nonce res else nonce)"

lemma captureDPoPNonce_eq:
  "captureDPoPNonce res s =
     (Inr (rs_nonce res),
      if truthy_ostr (rs_nonce res) then s\<lparr>dpopNonce := rs_nonce res\<rparr> else s)"
  by (simp add: captureDPoPNonce_def setDPoPNonce_def act_simps)

text \<open>What one attempt and the attempts after it add to the log.\<close>

definition one_attempt ::
    "nat \<Rightarrow> 'w platform \<Rightarrow> string \<Rightarrow> string \<Rightarrow> (string \<times> string) list \<Rightarrow> string option
      \<Rightarrow> string option \<Rightarrow> ('w client, js_error, response) act" where
  "one_attempt n pl url meth headers body nonce =
     andThen (fetchWithProof pl url meth headers body nonce) (\<lambda>res.
     andThen (captureDPoPNonce res) (\<lambda>challengeNonce.
       nonce_loop n pl url meth headers body res challengeNonce))"

lemma nonce_loop_attempt:
  "nonce_loop n pl url meth headers body res (rs_nonce res) =
     (if isUseNonceResponse res \<and> truthy_ostr (rs_nonce res) \<and> 0 < n
      then one_attempt (n - 1) pl url meth headers body (rs_nonce res) else ret res)"
  by (cases n) (simp_all add: one_attempt_def)

lemma doFetch_attempt:
  "doFetch pl url meth headers body s = one_attempt 2 pl url meth headers body (dpopNonce s) s"
  by (simp add: doFetch_def one_attempt_def andThen_def get_state_def)

lemma one_attempt_exchange:
  assumes "one_attempt n (logged pl) url meth headers body nonce s = (r, s')" and "key_inv s"
  shows "\<exists>l. log_of s' = log_of s @ l \<and> exchange n (carries url meth headers body) nonce l r
    \<and> key_inv s' \<and> dpopNonce s' = nonce_after l (dpopNonce s)"
  using assms
proof (induction n arbitrary: nonce s)
  case (0 nonce s)
  obtain f s1 where f: "fetchWithProof (logged pl) url meth headers body nonce s = (f, s1)" by fastforce
  show ?case
    using f 0(2)
  proof (cases rule: fetchWithProof_log)
    case (no_proof e)
    with 0(1) f show ?thesis by (intro exI [of _ "[]"]) (auto simp: one_attempt_def andThen_Inl)
  next
    case (sent rq answer)
    with 0(1) f show ?thesis
      by (intro exI [of _ "[(rq, answer)]"])
        (auto simp: one_attempt_def andThen_def captureDPoPNonce_eq ret_def key_inv_def
          split: sum.splits)
  qed
next
  case (Suc n nonce s)
  obtain f s1 where f: "fetchWithProof (logged pl) url meth headers body nonce s = (f, s1)" by fastforce
  show ?case
    using f Suc.prems(2)
  proof (cases rule: fetchWithProof_log)
    case (no_proof e)
    with Suc.prems(1) f show ?thesis
      by (intro exI [of _ "[]"]) (auto simp: one_attempt_def andThen_Inl)
  next
    case (sent rq answer)
    show ?thesis
    proof (cases answer)
      case (Inl m)
      with sent Suc.prems(1) f show ?thesis
        by (intro exI [of _ "[(rq, answer)]"]) (auto simp: one_attempt_def andThen_Inl)
    next
      case (Inr res)
      let ?s2 = "if truthy_ostr (rs_nonce res) then s1\<lparr>dpopNonce := rs_nonce res\<rparr> else s1"
      have inv: "key_inv ?s2" using sent by (simp add: key_inv_def)
      have rest: "nonce_loop (Suc n) (logged pl) url meth headers body res (rs_nonce res) ?s2 = (r, s')"
        using Suc.prems(1) f sent Inr
        by (simp add: one_attempt_def andThen_def captureDPoPNonce_eq del: nonce_loop.simps)
      show ?thesis
      proof (cases "isUseNonceResponse res \<and> truthy_ostr (rs_nonce res)")
        case True
        with rest have "one_attempt n (logged pl) url meth headers body (rs_nonce res) ?s2 = (r, s')"
          by (simp add: nonce_loop_attempt del: nonce_loop.simps)
        from Suc.IH [OF this inv] obtain l where
          "log_of s' = log_of ?s2 @ l" "exchange n (carries url meth headers body) (rs_nonce res) l r"
          "key_inv s'" "dpopNonce s' = nonce_after l (dpopNonce ?s2)" by blast
        with True sent Inr show ?thesis
          by (intro exI [of _ "(rq, answer) # l"]) simp
      next
        case False
        with rest have "r = Inr res" "s' = ?s2"
          by (auto simp: nonce_loop_attempt ret_def simp del: nonce_loop.simps)
        with False sent Inr inv show ?thesis
          by (intro exI [of _ "[(rq, answer)]"]) auto
      qed
    qed
  qed
qed

lemma exchange_length: "exchange n ok nonce l r \<Longrightarrow> length l \<le> Suc n"
proof (induction n ok nonce l r rule: exchange.induct)
  case (2 n ok nonce rq answer l r)
  then show ?case by (cases n) (auto split: sum.splits if_splits)
qed simp

lemma exchange_ok: "exchange n ok nonce l r \<Longrightarrow> (rq, a) \<in> set l \<Longrightarrow> \<exists>c. ok c rq"
  by (induction n ok nonce l r rule: exchange.induct) (auto split: sum.splits if_splits)

lemma exchange_result:
  "exchange n ok nonce l (Inr res) \<Longrightarrow> l \<noteq> [] \<and> snd (last l) = Inr res
     \<and> (isUseNonceResponse res \<and> truthy_ostr (rs_nonce res) \<longrightarrow> length l = Suc n)"
proof (induction n ok nonce l "Inr res :: js_error + response" rule: exchange.induct)
  case (2 n ok nonce rq answer l)
  then show ?case by (cases n) (auto split: sum.splits if_splits)
qed simp


section \<open>Refreshing, and a whole request\<close>

lemma doFetch_exchange:
  assumes "doFetch (logged pl) url meth headers body s = (r, s')" and "key_inv s"
  shows "\<exists>l. log_of s' = log_of s @ l
    \<and> exchange 2 (carries url meth headers body) (dpopNonce s) l r
    \<and> key_inv s' \<and> dpopNonce s' = nonce_after l (dpopNonce s) \<and> accessToken s' = accessToken s"
  using one_attempt_exchange [OF assms(1) [unfolded doFetch_attempt] assms(2)]
    keepsD [OF doFetch_keeps_token assms(1)]
  by blast

text \<open>What an answer to a refresh means for the token, and what an answer to a request returns.\<close>

definition refresh_outcome :: "js_error + response \<Rightarrow> string option" where
  "refresh_outcome x =
     (case x of Inl e \<Rightarrow> None
      | Inr res \<Rightarrow> if rs_ok res then Option.bind (json_parse (rs_text res)) refreshed_token else None)"

definition request_outcome :: "js_error + response \<Rightarrow> js_error + json" where
  "request_outcome x =
     (case x of Inl e \<Rightarrow> Inl e
      | Inr res \<Rightarrow>
          (case json_parse (rs_text res) of None \<Rightarrow> Inl (JsError ''SyntaxError'')
           | Some v \<Rightarrow> if rs_ok res then Inr v else Inl (api_error res v)))"

definition refresh_run :: "string option \<Rightarrow> traffic \<Rightarrow> string option \<Rightarrow> bool" where
  "refresh_run nonce l t \<longleftrightarrow>
     (\<exists>x. exchange 2 (carries ''/api/auth/refresh'' ''POST'' [] None) nonce l x \<and> t = refresh_outcome x)"

lemma refreshed_token_truthy: "refreshed_token v = Some t \<Longrightarrow> t \<noteq> []"
  by (auto simp: refreshed_token_def js_defs split: if_splits option.splits)

lemma refresh_outcome_truthy: "refresh_outcome x \<noteq> Some []"
  using refreshed_token_truthy
  by (cases x) (auto simp: refresh_outcome_def bind_eq_Some_conv)

lemma refresh_run_truthy: "refresh_run nonce l t \<Longrightarrow> t \<noteq> Some []"
  using refresh_outcome_truthy by (auto simp: refresh_run_def)

lemma refreshAccessToken_eq:
  assumes "doFetch pl ''/api/auth/refresh'' ''POST'' [] None s = (x, s1)"
  shows "refreshAccessToken pl s = (Inr (refresh_outcome x), s1\<lparr>accessToken := refresh_outcome x\<rparr>)"
proof (cases x)
  case (Inl e)
  with assms show ?thesis
    by (simp add: refreshAccessToken_def refresh_outcome_def setAccessToken_def act_simps)
next
  case (Inr res)
  with assms show ?thesis
    by (cases "json_parse (rs_text res)")
      (auto simp: refreshAccessToken_def refresh_outcome_def setAccessToken_def res_json_def act_simps
        split: option.splits)
qed

lemma refresh_traffic:
  assumes "refreshAccessToken (logged pl) s = (r, s')" and "key_inv s"
  obtains l t where "r = Inr t" and "accessToken s' = t" and "refresh_run (dpopNonce s) l t"
    and "log_of s' = log_of s @ l" and "key_inv s'" and "dpopNonce s' = nonce_after l (dpopNonce s)"
proof -
  obtain x s1 where x: "doFetch (logged pl) ''/api/auth/refresh'' ''POST'' [] None s = (x, s1)" by fastforce
  from doFetch_exchange [OF x assms(2)] obtain l where l: "log_of s1 = log_of s @ l"
    "exchange 2 (carries ''/api/auth/refresh'' ''POST'' [] None) (dpopNonce s) l x"
    "key_inv s1" "dpopNonce s1 = nonce_after l (dpopNonce s)" by blast
  have "r = Inr (refresh_outcome x)" "s' = s1\<lparr>accessToken := refresh_outcome x\<rparr>"
    using assms(1) refreshAccessToken_eq [OF x] by auto
  with l that [of "refresh_outcome x" l] show thesis
    by (auto simp: refresh_run_def key_inv_def)
qed

text \<open>A token the client takes to be live: not the empty text, and not expired at some reading.\<close>

definition live_token :: "string option \<Rightarrow> nat \<Rightarrow> bool" where
  "live_token t now \<longleftrightarrow>
     (\<exists>tok payload. t = Some tok \<and> tok \<noteq> [] \<and> token_payload tok = Some payload \<and> payload \<noteq> JNull
        \<and> \<not> exp_passed (jfield ''exp'' payload) now)"

lemma isTokenExpired_eq:
  "isTokenExpired pl token s =
     (case token_payload token of None \<Rightarrow> (Inr True, s)
      | Some payload \<Rightarrow>
          if payload = JNull then (Inr True, s)
          else (Inr (exp_passed (jfield ''exp'' payload) (fst (dateNow pl (world s)))),
                s\<lparr>world := snd (dateNow pl (world s))\<rparr>))"
  by (auto simp: isTokenExpired_def andThen_def on_world_eq ret_def split: option.splits)

lemma getValidToken_traffic:
  assumes "getValidToken (logged pl) s = (r, s')" and "key_inv s"
  obtains l t where "r = Inr t" and "accessToken s' = t"
    and "l = [] \<and> t = accessToken s \<and> (\<exists>now. live_token t now) \<or> refresh_run (dpopNonce s) l t"
    and "log_of s' = log_of s @ l" and "key_inv s'" and "dpopNonce s' = nonce_after l (dpopNonce s)"
proof -
  define s1 where "s1 = s\<lparr>world := snd (dateNow (logged pl) (world s))\<rparr>"
  have log1: "log_of s1 = log_of s"
    by (cases "world s") (simp add: s1_def logged_def lift_world_def split: prod.splits)
  have same: "key_inv s1" "dpopNonce s1 = dpopNonce s" "accessToken s1 = accessToken s"
    using assms(2) by (auto simp: s1_def key_inv_def)
  consider (refresh) "refreshAccessToken (logged pl) s = (r, s')"
    | (late) "refreshAccessToken (logged pl) s1 = (r, s')"
    | (live) now where "r = Inr (accessToken s)" "s' = s1" "live_token (accessToken s) now"
    using assms(1)
    by (auto simp: getValidToken_def get_state_def andThen_def isTokenExpired_eq ret_def s1_def
        live_token_def js_defs split: option.splits if_splits)
  then show thesis
  proof cases
    case refresh
    from refresh_traffic [OF this assms(2)] that show thesis by metis
  next
    case late
    from refresh_traffic [OF this same(1)] that log1 same show thesis by metis
  next
    case live
    with that [of "accessToken s" "[]"] log1 same show thesis by auto
  qed
qed

text \<open>
  The specification of a request on its traffic. With authentication: a token (the live one, or one
  of a refresh), the request with it, and after an answer 401 one refresh and, when that gives a
  token, the request once more. Without: the request alone.
\<close>

definition authed_run ::
    "string \<Rightarrow> string \<Rightarrow> (string \<times> string) list \<Rightarrow> string option \<Rightarrow> string option \<Rightarrow> traffic
      \<Rightarrow> js_error + json \<Rightarrow> bool" where
  "authed_run url meth headers text nonce l r \<longleftrightarrow>
     (\<exists>l1 x rest. l = l1 @ rest \<and> exchange 2 (carries url meth headers text) nonce l1 x \<and>
        (if \<exists>res. x = Inr res \<and> rs_status res = 401
         then \<exists>l2 t l3. rest = l2 @ l3 \<and> refresh_run (nonce_after l1 nonce) l2 t \<and>
                (if t = None then l3 = [] \<and> r = request_outcome x
                 else \<exists>y. exchange 2 (carries url meth (authorize t headers) text)
                             (nonce_after l2 (nonce_after l1 nonce)) l3 y
                           \<and> r = request_outcome y)
         else rest = [] \<and> r = request_outcome x))"

definition api_run ::
    "string \<Rightarrow> request_options \<Rightarrow> string option \<Rightarrow> string option \<Rightarrow> traffic \<Rightarrow> js_error + json \<Rightarrow> bool" where
  "api_run path options token nonce l r \<longleftrightarrow>
     (let meth = (case opt_method options of None \<Rightarrow> ''GET'' | Some m \<Rightarrow> m);
          url = request_url path (opt_params options);
          headers = request_headers (opt_body options);
          text = (if jtruthy (opt_body options) then map_option stringify (opt_body options) else None)
      in if opt_auth options = Some False
         then \<exists>x. exchange 2 (carries url meth headers text) nonce l x \<and> r = request_outcome x
         else \<exists>l1 l2 t. l = l1 @ l2
                \<and> (l1 = [] \<and> t = token \<and> (\<exists>now. live_token t now) \<or> refresh_run nonce l1 t)
                \<and> authed_run url meth (authorize t headers) text (nonce_after l1 nonce) l2 r)"

lemma authed_run_plain:
  "exchange 2 (carries url meth headers text) nonce l x \<Longrightarrow> \<forall>res. x = Inr res \<longrightarrow> rs_status res \<noteq> 401
    \<Longrightarrow> authed_run url meth headers text nonce l (request_outcome x)"
  unfolding authed_run_def by (rule exI [of _ l], rule exI [of _ x], rule exI [of _ "[]"]) auto

lemma authed_run_refused:
  "exchange 2 (carries url meth headers text) nonce l1 (Inr res) \<Longrightarrow> rs_status res = 401
    \<Longrightarrow> refresh_run (nonce_after l1 nonce) l2 None
    \<Longrightarrow> authed_run url meth headers text nonce (l1 @ l2) (request_outcome (Inr res))"
  unfolding authed_run_def by (rule exI [of _ l1], rule exI [of _ "Inr res"], rule exI [of _ l2])
    (auto intro!: exI [of _ None])

lemma authed_run_again:
  "exchange 2 (carries url meth headers text) nonce l1 (Inr res) \<Longrightarrow> rs_status res = 401
    \<Longrightarrow> refresh_run (nonce_after l1 nonce) l2 (Some t)
    \<Longrightarrow> exchange 2 (carries url meth (authorize (Some t) headers) text)
          (nonce_after l2 (nonce_after l1 nonce)) l3 y
    \<Longrightarrow> authed_run url meth headers text nonce (l1 @ l2 @ l3) (request_outcome y)"
  unfolding authed_run_def by (rule exI [of _ l1], rule exI [of _ "Inr res"], rule exI [of _ "l2 @ l3"]) auto

lemma finish_request_eq: "finish_request res s = (request_outcome (Inr res), s)"
  by (simp add: finish_request_def res_json_def request_outcome_def act_simps split: option.splits)

text \<open>The second half of a request: from the headers on.\<close>

definition wire_send ::
    "'w platform \<Rightarrow> bool \<Rightarrow> string \<Rightarrow> string \<Rightarrow> string option \<Rightarrow> (string \<times> string) list
      \<Rightarrow> ('w client, js_error, json) act" where
  "wire_send pl auth url meth text headers =
     andThen (doFetch pl url meth headers text) (\<lambda>res.
     andThen (if rs_status res = 401 \<and> auth
              then andThen (refreshAccessToken pl) (\<lambda>newToken.
                     if truthy_ostr newToken
                     then doFetch pl url meth (authorize newToken headers) text
                     else ret res)
              else ret res) finish_request)"

lemma andThen_finish:
  "m s = (x, s') \<Longrightarrow> andThen m finish_request s = (request_outcome x, s')"
  by (cases x) (simp_all add: andThen_def finish_request_eq request_outcome_def)

lemma send_no_auth:
  assumes "wire_send (logged pl) False url meth text headers s = (r, s')" and "key_inv s"
  shows "\<exists>l x. log_of s' = log_of s @ l
    \<and> exchange 2 (carries url meth headers text) (dpopNonce s) l x \<and> r = request_outcome x"
proof -
  obtain x s1 where x: "doFetch (logged pl) url meth headers text s = (x, s1)" by fastforce
  have "(r, s') = (request_outcome x, s1)"
    using assms(1) x
    by (cases x) (simp_all add: wire_send_def andThen_def finish_request_eq ret_def request_outcome_def)
  with doFetch_exchange [OF x assms(2)] show ?thesis by blast
qed

lemma send_auth:
  assumes "wire_send (logged pl) True url meth text headers s = (r, s')" and "key_inv s"
  shows "\<exists>l. log_of s' = log_of s @ l \<and> authed_run url meth headers text (dpopNonce s) l r"
proof -
  obtain x s1 where x: "doFetch (logged pl) url meth headers text s = (x, s1)" by fastforce
  from doFetch_exchange [OF x assms(2)] obtain l1 where l1: "log_of s1 = log_of s @ l1"
    "exchange 2 (carries url meth headers text) (dpopNonce s) l1 x" "key_inv s1"
    "dpopNonce s1 = nonce_after l1 (dpopNonce s)" by blast
  show ?thesis
  proof (cases "\<exists>res. x = Inr res \<and> rs_status res = 401")
    case False
    then have "(r, s') = (request_outcome x, s1)"
      using assms(1) x
      by (cases x) (auto simp: wire_send_def andThen_def finish_request_eq ret_def request_outcome_def)
    with authed_run_plain [OF l1(2)] False l1(1) show ?thesis by blast
  next
    case True
    then obtain res where res: "x = Inr res" "rs_status res = 401" by blast
    obtain u s2 where u: "refreshAccessToken (logged pl) s1 = (u, s2)" by fastforce
    from refresh_traffic [OF u l1(3)] obtain l2 t where l2: "u = Inr t"
      "refresh_run (dpopNonce s1) l2 t" "log_of s2 = log_of s1 @ l2" "key_inv s2"
      "dpopNonce s2 = nonce_after l2 (dpopNonce s1)" by metis
    have truthy: "truthy_ostr t \<longleftrightarrow> t \<noteq> None"
      using refresh_run_truthy [OF l2(2)] by (auto simp: js_defs split: option.splits)
    have send: "(r, s') = andThen (if truthy_ostr t
          then doFetch (logged pl) url meth (authorize t headers) text else ret res) finish_request s2"
      using assms(1) x res u l2(1) by (simp add: wire_send_def andThen_def)
    show ?thesis
    proof (cases "t = None")
      case True
      with send truthy have "(r, s') = (request_outcome x, s2)"
        by (simp add: finish_request_eq res)
      with authed_run_refused [of url meth headers "text" "dpopNonce s" l1 res l2] True l1 l2 res
      show ?thesis by auto
    next
      case False
      obtain y s3 where y: "doFetch (logged pl) url meth (authorize t headers) text s2 = (y, s3)"
        by fastforce
      from doFetch_exchange [OF y l2(4)] obtain l3 where l3: "log_of s3 = log_of s2 @ l3"
        "exchange 2 (carries url meth (authorize t headers) text) (dpopNonce s2) l3 y" by blast
      have "(r, s') = (request_outcome y, s3)"
        using send False truthy andThen_finish
          [of "doFetch (logged pl) url meth (authorize t headers) text" s2, OF y] by simp
      moreover have "authed_run url meth headers text (dpopNonce s) (l1 @ l2 @ l3) (request_outcome y)"
        using authed_run_again [of url meth headers "text" "dpopNonce s" l1 res l2 "the t" l3 y]
          False l1 l2 l3 res by auto
      ultimately show ?thesis using l1(1) l2(3) l3(1)
        by (intro exI [of _ "l1 @ l2 @ l3"]) simp
    qed
  qed
qed


abbreviation run_args ::
    "string \<Rightarrow> request_options \<Rightarrow> string option \<Rightarrow> string option \<Rightarrow> traffic \<Rightarrow> js_error + json \<Rightarrow> bool" where
  "run_args path options t \<equiv>
     authed_run (request_url path (opt_params options))
       (case opt_method options of None \<Rightarrow> ''GET'' | Some m \<Rightarrow> m)
       (authorize t (request_headers (opt_body options)))
       (if jtruthy (opt_body options) then map_option stringify (opt_body options) else None)"

lemma api_run_authI:
  "opt_auth options \<noteq> Some False
    \<Longrightarrow> l1 = [] \<and> t = token \<and> (\<exists>now. live_token t now) \<or> refresh_run nonce l1 t
    \<Longrightarrow> run_args path options t (nonce_after l1 nonce) l2 r
    \<Longrightarrow> api_run path options token nonce (l1 @ l2) r"
  unfolding api_run_def Let_def by (simp only: if_False) blast

lemma api_run_authE:
  assumes "api_run path options token nonce l r" and "opt_auth options \<noteq> Some False"
  obtains l1 l2 t where "l = l1 @ l2"
    and "l1 = [] \<and> t = token \<and> (\<exists>now. live_token t now) \<or> refresh_run nonce l1 t"
    and "run_args path options t (nonce_after l1 nonce) l2 r"
  using assms unfolding api_run_def Let_def by (simp only: if_False) blast

lemma apiRequest_run:
  assumes "apiRequest (logged pl) path options s = (r, s')" and "key_inv s"
  shows "\<exists>l. log_of s' = log_of s @ l \<and> api_run path options (accessToken s) (dpopNonce s) l r"
proof -
  define auth where "auth = (case opt_auth options of None \<Rightarrow> True | Some a \<Rightarrow> a)"
  have auth: "auth \<longleftrightarrow> opt_auth options \<noteq> Some False"
    by (auto simp: auth_def split: option.splits)
  define meth where "meth = (case opt_method options of None \<Rightarrow> ''GET'' | Some m \<Rightarrow> m)"
  define url where "url = request_url path (opt_params options)"
  define headers where "headers = request_headers (opt_body options)"
  define body where "body = (if jtruthy (opt_body options) then map_option stringify (opt_body options) else None)"
  note defs = auth_def meth_def url_def headers_def body_def
  have req: "apiRequest (logged pl) path options =
      andThen (if auth then andThen (getValidToken (logged pl)) (\<lambda>token. ret (authorize token headers))
               else ret headers) (wire_send (logged pl) auth url meth body)"
    unfolding apiRequest_def wire_send_def defs Let_def by (rule refl)
  show ?thesis
  proof (cases auth)
    case False
    with assms(1) have "wire_send (logged pl) False url meth body headers s = (r, s')"
      by (simp add: req)
    from send_no_auth [OF this assms(2)] False show ?thesis
      by (simp add: auth api_run_def Let_def meth_def url_def headers_def body_def)
  next
    case True
    obtain g s1 where g: "getValidToken (logged pl) s = (g, s1)" by fastforce
    from getValidToken_traffic [OF g assms(2)] obtain l1 t where l1: "g = Inr t"
      "l1 = [] \<and> t = accessToken s \<and> (\<exists>now. live_token t now) \<or> refresh_run (dpopNonce s) l1 t"
      "log_of s1 = log_of s @ l1" "key_inv s1" "dpopNonce s1 = nonce_after l1 (dpopNonce s)"
      by metis
    have "wire_send (logged pl) True url meth body (authorize t headers) s1 = (r, s')"
      using assms(1) True g l1(1) by (simp add: req andThen_def ret_def)
    from send_auth [OF this l1(4)] obtain l2 where "log_of s' = log_of s1 @ l2"
      "authed_run url meth (authorize t headers) body (dpopNonce s1) l2 r" by blast
    then have "log_of s' = log_of s @ (l1 @ l2)
        \<and> api_run path options (accessToken s) (dpopNonce s) (l1 @ l2) r"
      using l1 True auth api_run_authI [of options l1 t "accessToken s" "dpopNonce s" path l2 r]
      by (simp add: meth_def url_def headers_def body_def)
    then show ?thesis by blast
  qed
qed

lemma authed_run_length: "authed_run url meth headers body nonce l r \<Longrightarrow> length l \<le> 9"
  unfolding authed_run_def refresh_run_def
  by (auto split: if_splits dest!: exchange_length)

lemma api_run_length:
  assumes "api_run path options token nonce l r"
  shows "length l \<le> (if opt_auth options = Some False then 3 else 12)"
proof (cases "opt_auth options = Some False")
  case True
  with assms show ?thesis by (auto simp: api_run_def Let_def dest!: exchange_length)
next
  case False
  from api_run_authE [OF assms False] obtain l1 l2 t where "l = l1 @ l2"
    "l1 = [] \<or> refresh_run nonce l1 t" "run_args path options t (nonce_after l1 nonce) l2 r"
    by blast
  then have "length l1 \<le> 3" "length l2 \<le> 9"
    using authed_run_length by (auto simp: refresh_run_def dest!: exchange_length)
  with \<open>l = l1 @ l2\<close> False show ?thesis by simp
qed


section \<open>URLs and tokens\<close>

text \<open>The parameters that are sent.\<close>

definition sent_params :: "(string \<times> param option) list \<Rightarrow> (string \<times> string) list" where
  "sent_params ps =
     List.map_filter (\<lambda>(k, v). case v of None \<Rightarrow> None
       | Some p \<Rightarrow> if p = PStr [] then None else Some (k, param_string p)) ps"

lemma sent_params_simps [simp]:
  "sent_params [] = []"
  "sent_params ((k, None) # ps) = sent_params ps"
  "sent_params ((k, Some p) # ps) =
     (if p = PStr [] then sent_params ps else (k, param_string p) # sent_params ps)"
  by (simp_all add: sent_params_def List.map_filter_simps)

lemma set_params_distinct:
  assumes "distinct (map fst ps)" and "fst ` set ps \<inter> fst ` set sp = {}"
  shows "set_params ps sp = sp @ sent_params ps"
  using assms
proof (induction ps arbitrary: sp)
  case (Cons p ps)
  obtain k v where p: "p = (k, v)" by fastforce
  from Cons.prems p have k: "k \<notin> fst ` set sp" "fst ` set ps \<inter> fst ` set sp = {}"
    "k \<notin> fst ` set ps" "distinct (map fst ps)" by auto
  show ?case
  proof (cases v)
    case None
    with Cons.IH [OF k(4,2)] p show ?thesis by simp
  next
    case (Some w)
    have "fst ` set ps \<inter> fst ` set (sp @ [(k, param_string w)]) = {}" using k by auto
    from Cons.IH [OF k(4) this] Cons.IH [OF k(4,2)] Some p k(1) show ?thesis
      by (simp add: sp_set_fresh)
  qed
qed simp

lemma request_url_query:
  assumes "distinct (map fst ps)"
  shows "request_url path (Some ps) =
    ''/api'' @ path @ (if sent_params ps = [] then [] else CHR ''?'' # sp_toString (sent_params ps))"
  using set_params_distinct [OF assms, of "[]"] sp_toString_Nil [of "sent_params ps"]
  by (simp add: request_url_def Let_def js_defs)

lemma sp_toString_visible: "c \<in> set (sp_toString ps) \<Longrightarrow> 32 < ord c"
proof -
  have "32 < ord x" if "x \<in> set (form_encode t)" for x t
    using form_encode_set [OF that] by (auto simp: form_keep_def alnum_def)
  then have "32 < ord x" if "x \<in> set (sp_pair p)" for x p
    using that by (auto simp: sp_pair_def)
  then show "c \<in> set (sp_toString ps) \<Longrightarrow> 32 < ord c"
    using set_intercalate [of "''&''" "map sp_pair ps"] by (fastforce simp: sp_toString_def)
qed

lemma API_PATHS_no_query:
  assumes "well_formed_endpoint e"
  shows "CHR ''?'' \<notin> set (API_PATHS e)"
proof
  assume "CHR ''?'' \<in> set (API_PATHS e)"
  then have "\<exists>s \<in> set (endpoint_segments e). CHR ''?'' \<in> set s"
    using set_intercalate [of "''/''" "endpoint_segments e"] by (auto simp: API_PATHS_segments)
  then show False
    using endpoint_segments_plain [OF assms]
    by (auto simp: plain_segment_def list_all_iff seg_char_def path_keep_def)
qed

lemma query_part_request_url:
  assumes "well_formed_endpoint e" and "distinct (map fst ps)"
  shows "query_part (request_url (API_PATHS e) (Some ps)) = sp_toString (sent_params ps)"
proof -
  have p: "CHR ''?'' \<notin> set (''/api'' @ API_PATHS e)" using API_PATHS_no_query [OF assms(1)] by simp
  show ?thesis
  proof (cases "sent_params ps = []")
    case True
    with query_part_absent [OF p] sp_toString_Nil [of "[]"] show ?thesis
      by (simp add: request_url_query [OF assms(2)])
  next
    case False
    with query_part_append [OF p] show ?thesis
      by (simp only: request_url_query [OF assms(2)] if_False append.assoc)
  qed
qed

text \<open>A token is three parts between dots; only the middle one is read.\<close>

lemma token_payload_middle:
  assumes "CHR ''.'' \<notin> set h" and "CHR ''.'' \<notin> set p"
  shows "token_payload (h @ CHR ''.'' # p @ CHR ''.'' # sig) = Option.bind (atob p) json_parse"
  by (simp add: token_payload_def split_on_append [OF assms(1)] split_on_append [OF assms(2)]
      js_nth_def)

lemma all_some_None: "None \<in> set xs \<Longrightarrow> all_some xs = None"
  by (induction xs rule: all_some.induct) auto

lemma b64_unpad_keeps:
  assumes "c \<in> set t" and "c \<noteq> CHR ''=''"
  shows "c \<in> set (b64_unpad t)"
proof (cases "rev t")
  case (Cons x u)
  then have t: "set t = insert x (set u)" by (metis list.simps(15) set_rev)
  show ?thesis
    using assms Cons unfolding b64_unpad_def
    by (cases u) (auto simp: t)
qed (use assms in simp)

lemma atob_url_alphabet:
  assumes "CHR ''-'' \<in> set p \<or> CHR ''_'' \<in> set p"
  shows "atob p = None"
proof -
  obtain c where c: "c \<in> set p" "c = CHR ''-'' \<or> c = CHR ''_''" using assms by blast
  then have "c \<in> set (filter (\<lambda>c. \<not> b64_space c) p)" by (auto simp: b64_space_def)
  then have "c \<in> set (b64_unpad (filter (\<lambda>c. \<not> b64_space c) p))"
    by (rule b64_unpad_keeps) (use c in auto)
  moreover have "b64_val c = None" using c(2) by (auto simp: b64_val_def)
  ultimately show ?thesis
    by (auto simp: atob_def Let_def image_iff intro!: all_some_None bexI [of _ c])
qed

lemma base64url_plain:
  assumes "plain_text t"
  shows "atob (base64url (utf8 t)) = Some t"
proof -
  have b: "binary_string (utf8 t) = t"
    using assms
    by (induction t) (auto simp: utf8_def utf8_char_def binary_string_def plain_char_def unat_byte)
  have "base64url (utf8 t) = map b64_char (sextets t)"
    unfolding base64url_body b
    by (rule map_cong [OF refl]) (use sextets_plain [OF assms] in \<open>auto simp: url_char_def\<close>)
  then show ?thesis by (simp add: atob_unpadded)
qed


section \<open>Properties\<close>

text \<open>The exchange specification, read by position.\<close>

lemma exchange_nth:
  assumes "exchange n ok nonce l r" and "i < length l"
  shows "if i = 0 then ok nonce (fst (l ! i))
    else \<exists>res. snd (l ! (i - 1)) = Inr res \<and> isUseNonceResponse res
           \<and> truthy_ostr (rs_nonce res) \<and> ok (rs_nonce res) (fst (l ! i))"
  using assms
proof (induction n ok nonce l r arbitrary: i rule: exchange.induct)
  case (2 n ok nonce rq answer l r)
  show ?case
  proof (cases i)
    case 0
    with 2 show ?thesis by simp
  next
    case (Suc j)
    with 2 obtain res where res: "answer = Inr res" "isUseNonceResponse res" "truthy_ostr (rs_nonce res)"
      "0 < n" "exchange (n - 1) ok (rs_nonce res) l r" "j < length l"
      by (cases answer) (auto split: if_splits)
    with 2 have "if j = 0 then ok (rs_nonce res) (fst (l ! j))
        else \<exists>res. snd (l ! (j - 1)) = Inr res \<and> isUseNonceResponse res
           \<and> truthy_ostr (rs_nonce res) \<and> ok (rs_nonce res) (fst (l ! j))" by blast
    with res Suc show ?thesis by (cases j) auto
  qed
qed simp

text \<open>A server that challenges the first request of the sample state and accepts the others.\<close>

definition challenge_response :: response where
  "challenge_response =
     \<lparr>rs_status = 400, rs_nonce = Some ''n2'',
      rs_text = stringify (JObj [(''code'', JStr ''use_dpop_nonce'')])\<rparr>"

definition token_response :: response where
  "token_response =
     \<lparr>rs_status = 200, rs_nonce = Some ''n3'',
      rs_text = stringify (JObj [(''success'', JBool True), (''data'', JObj [(''token'', JStr ''h.e30.s'')])])\<rparr>"

definition challenge_platform :: "nat platform" where
  "challenge_platform = sample_platform
     \<lparr>fetch := (\<lambda>rq w. (Inr (if w < 10 then challenge_response else token_response), Suc w))\<rparr>"

definition sample_client :: "(nat \<times> traffic) client" where
  "sample_client =
     \<lparr>cachedKey = None, idbKey = None, world = (7, []), accessToken = None, dpopNonce = None\<rparr>"

lemma key_inv_sample: "key_inv sample_client"
  by (simp add: key_inv_def sample_client_def)

lemma challenge_is_use_nonce: "isUseNonceResponse challenge_response"
  by (simp add: isUseNonceResponse_def challenge_response_def json_parse_stringify del: stringify.simps)

lemma token_not_use_nonce: "\<not> isUseNonceResponse token_response"
  by (simp add: isUseNonceResponse_def token_response_def)

text \<open>
  C1: one logical request is at most three network requests. All of them repeat the caller's URL,
  method, body and headers; the proof of the first carries the remembered nonce, and every further
  one is sent only after a \<open>use_dpop_nonce\<close> challenge with a fresh nonce, which its proof carries. The
  result is the last answer, which is a challenge only when the attempts are used up or the
  challenge brought no nonce; and the nonce remembered for the next request is the last one seen.
\<close>

theorem doFetch_challenges:
  assumes "doFetch (logged pl) url meth headers body s = (r, s')" and "key_inv s"
  shows "\<exists>l. log_of s' = log_of s @ l \<and> length l \<le> 3
    \<and> (\<forall>i < length l.
         if i = 0 then carries url meth headers body (dpopNonce s) (fst (l ! i))
         else \<exists>res. snd (l ! (i - 1)) = Inr res \<and> isUseNonceResponse res
           \<and> truthy_ostr (rs_nonce res) \<and> carries url meth headers body (rs_nonce res) (fst (l ! i)))
    \<and> (\<forall>res. r = Inr res \<longrightarrow> l \<noteq> [] \<and> snd (last l) = Inr res
         \<and> (isUseNonceResponse res \<and> truthy_ostr (rs_nonce res) \<longrightarrow> length l = 3))
    \<and> dpopNonce s' = nonce_after l (dpopNonce s)"
proof -
  from doFetch_exchange [OF assms] obtain l where l: "log_of s' = log_of s @ l"
    "exchange 2 (carries url meth headers body) (dpopNonce s) l r"
    "dpopNonce s' = nonce_after l (dpopNonce s)" by blast
  have "length l \<le> 3" using exchange_length [OF l(2)] by simp
  moreover have "\<forall>i < length l.
         if i = 0 then carries url meth headers body (dpopNonce s) (fst (l ! i))
         else \<exists>res. snd (l ! (i - 1)) = Inr res \<and> isUseNonceResponse res
           \<and> truthy_ostr (rs_nonce res) \<and> carries url meth headers body (rs_nonce res) (fst (l ! i))"
    using exchange_nth [OF l(2)] by blast
  moreover have "l \<noteq> [] \<and> snd (last l) = Inr res
      \<and> (isUseNonceResponse res \<and> truthy_ostr (rs_nonce res) \<longrightarrow> length l = 3)" if "r = Inr res" for res
    using exchange_result [OF l(2) [unfolded that]] by auto
  ultimately show ?thesis using l by blast
qed

lemma sample_nonces [simp]:
  "rs_nonce challenge_response = Some ''n2''" "rs_nonce token_response = Some ''n3''"
  by (simp_all add: challenge_response_def token_response_def)

lemma sample_doFetch:
  "\<exists>s'. doFetch (logged challenge_platform) ''/api/auth/refresh'' ''POST'' [] None sample_client
     = (Inr token_response, s') \<and> length (log_of s') = 2 \<and> snd (log_of s' ! 0) = Inr challenge_response"
  by (simp add: doFetch_def fetchWithProof_def dpop_defs act_simps on_world_def logged_def
      lift_world_def challenge_platform_def sample_platform_def sample_client_def Let_def usable_key_def
      captureDPoPNonce_eq numeral_2_eq_2 challenge_is_use_nonce token_not_use_nonce js_defs)

theorem doFetch_challenges_witness:
  "\<exists>s' l. doFetch (logged challenge_platform) ''/api/auth/refresh'' ''POST'' [] None sample_client
      = (Inr token_response, s')
    \<and> log_of s' = l \<and> length l = 2
    \<and> carries ''/api/auth/refresh'' ''POST'' [] None (Some ''n2'') (fst (l ! 1))"
proof -
  obtain s' where r: "doFetch (logged challenge_platform) ''/api/auth/refresh'' ''POST'' [] None
      sample_client = (Inr token_response, s')" and two: "length (log_of s') = 2"
    and first: "snd (log_of s' ! 0) = Inr challenge_response"
    using sample_doFetch by blast
  have empty: "log_of sample_client = []" by (simp add: sample_client_def)
  from doFetch_challenges [OF r key_inv_sample] empty obtain l where l: "log_of s' = l"
    "\<forall>i < length l.
       if i = 0 then carries ''/api/auth/refresh'' ''POST'' [] None (dpopNonce sample_client) (fst (l ! i))
       else \<exists>res. snd (l ! (i - 1)) = Inr res \<and> isUseNonceResponse res
         \<and> truthy_ostr (rs_nonce res)
         \<and> carries ''/api/auth/refresh'' ''POST'' [] None (rs_nonce res) (fst (l ! i))"
    by auto
  from l(2) [rule_format, of 1] l(1) two first
  have "carries ''/api/auth/refresh'' ''POST'' [] None (Some ''n2'') (fst (l ! 1))" by simp
  with r l(1) two show ?thesis by blast
qed

text \<open>
  C18: A refresh never rejects. Whatever happens on the way (a failing key store, no network, an
  error status, an answer that is no JSON or lacks a token), it resolves with the token that is then
  the client's access token, and that token is never the empty string.
\<close>

theorem refreshAccessToken_total:
  "\<exists>t s'. refreshAccessToken pl s = (Inr t, s') \<and> accessToken s' = t \<and> t \<noteq> Some []
    \<and> (t \<noteq> None \<longrightarrow> (\<exists>res s1. doFetch pl ''/api/auth/refresh'' ''POST'' [] None s = (Inr res, s1)
         \<and> rs_ok res \<and> Option.bind (json_parse (rs_text res)) refreshed_token = t))"
proof -
  obtain x s1 where x: "doFetch pl ''/api/auth/refresh'' ''POST'' [] None s = (x, s1)" by fastforce
  have "refresh_outcome x \<noteq> None \<longrightarrow> (\<exists>res. x = Inr res \<and> rs_ok res
      \<and> Option.bind (json_parse (rs_text res)) refreshed_token = refresh_outcome x)"
    by (auto simp: refresh_outcome_def split: sum.splits)
  with x refreshAccessToken_eq [OF x] refresh_outcome_truthy [of x] show ?thesis by auto
qed

theorem refreshAccessToken_total_witness:
  "\<exists>t s'. refreshAccessToken (logged challenge_platform) sample_client = (Inr t, s') \<and> accessToken s' = t"
  using refreshAccessToken_total [of "logged challenge_platform" sample_client] by blast

text \<open>
  C3: A request follows its specification \<open>api_run\<close> on the network: with authentication it is sent
  with a token that is unexpired or freshly obtained, an answer 401 leads to one refresh and, if that
  gives a token, to one more try with it, and the outcome is that of the last answer. It never
  causes more than twelve network requests, and three without authentication.
\<close>

theorem apiRequest_refines:
  assumes "apiRequest (logged pl) path options s = (r, s')" and "key_inv s"
  shows "\<exists>l. log_of s' = log_of s @ l \<and> api_run path options (accessToken s) (dpopNonce s) l r
    \<and> length l \<le> (if opt_auth options = Some False then 3 else 12)"
  using apiRequest_run [OF assms] api_run_length by blast

theorem apiRequest_refines_witness:
  "\<exists>r s'. apiGet (logged challenge_platform) (API_PATHS AuthWhoami) None sample_client = (r, s')
    \<and> length (log_of s') \<le> 12"
proof -
  let ?o = "\<lparr>opt_method = Some ''GET'', opt_body = None, opt_params = None, opt_auth = None\<rparr>"
  obtain r s' where r: "apiRequest (logged challenge_platform) (API_PATHS AuthWhoami) ?o sample_client = (r, s')"
    by fastforce
  from apiRequest_refines [OF r key_inv_sample] have "length (log_of s') \<le> 12"
    by (auto simp: sample_client_def)
  with r show ?thesis unfolding apiGet_def by blast
qed



text \<open>
  The client reads the claims of an access token: when the JSON of the claims is plain ASCII text
  (no character whose low six bits are 62 or 63), the payload of a token is the JSON the server
  encoded, and the token counts as expired exactly when its \<open>exp\<close>, in seconds, is not after the clock.
\<close>

theorem isTokenExpired_reads_exp:
  assumes "CHR ''.'' \<notin> set h" and "plain_text (stringify v)" and "jfield ''exp'' v = Some (JNum e)"
  shows "fst (isTokenExpired pl (h @ CHR ''.'' # encodeJSON v @ CHR ''.'' # sig) s)
    = Inr (e * 1000 \<le> int (fst (dateNow pl (world s))))"
proof -
  have "token_payload (h @ CHR ''.'' # encodeJSON v @ CHR ''.'' # sig) = Some v"
    using token_payload_middle [OF assms(1), of "encodeJSON v"] base64url_plain [OF assms(2)]
      base64url_no_dot by (simp add: encodeJSON_def json_parse_stringify)
  moreover have "v \<noteq> JNull" using assms(3) by (auto simp: jfield_def)
  ultimately show ?thesis by (simp add: isTokenExpired_eq assms(3) exp_passed_def)
qed

theorem isTokenExpired_reads_exp_witness:
  "fst (isTokenExpired challenge_platform
      (''h'' @ CHR ''.'' # encodeJSON (JObj [(''exp'', JNum 8)]) @ CHR ''.'' # ''s'')
      \<lparr>cachedKey = None, idbKey = None, world = 7, accessToken = None, dpopNonce = None\<rparr>) = Inr False"
proof -
  have t: "plain_text (stringify (JObj [(''exp'', JNum 8)]))"
    by (simp add: show_string_def escape_char_def show_int_def show_nat.simps plain_char_def)
  have "jfield ''exp'' (JObj [(''exp'', JNum 8)]) = Some (JNum 8)" by simp
  from isTokenExpired_reads_exp [OF _ t this, of "''h''" challenge_platform "''s''"]
  show ?thesis by (simp add: challenge_platform_def sample_platform_def)
qed

text \<open>
  A token is not read with the alphabet it is written in. JWTs use the URL-safe alphabet and \<open>atob\<close>
  refuses its two extra characters, so a token whose claims encode with a minus or an underscore counts
  as expired at every time: each authenticated request then starts with a refresh, which goes to the
  network with every one of them.
\<close>

theorem url_alphabet_token_expired:
  assumes "accessToken s = Some (h @ CHR ''.'' # p @ CHR ''.'' # sig)"
    and "CHR ''.'' \<notin> set h" and "CHR ''.'' \<notin> set p" and "CHR ''-'' \<in> set p \<or> CHR ''_'' \<in> set p"
  shows "isTokenExpired pl (h @ CHR ''.'' # p @ CHR ''.'' # sig) s = (Inr True, s)
    \<and> getValidToken pl s = refreshAccessToken pl s"
proof -
  have "token_payload (h @ CHR ''.'' # p @ CHR ''.'' # sig) = None"
    using token_payload_middle [OF assms(2,3)] atob_url_alphabet [OF assms(4)] by simp
  then have "isTokenExpired pl (h @ CHR ''.'' # p @ CHR ''.'' # sig) s = (Inr True, s)"
    by (simp add: isTokenExpired_eq)
  then show ?thesis using assms(1)
    by (auto simp: getValidToken_def andThen_def get_state_def js_defs)
qed

theorem url_alphabet_token_expired_witness:
  "let tok = ''h'' @ CHR ''.'' # encodeJSON (JObj [(''exp'', JNum 99), (''name'', JStr ''Jo???'')])
               @ CHR ''.'' # ''s''
   in fst (isTokenExpired challenge_platform tok
        \<lparr>cachedKey = None, idbKey = None, world = 7, accessToken = Some tok, dpopNonce = None\<rparr>) = Inr True"
proof -
  let ?p = "encodeJSON (JObj [(''exp'', JNum 99), (''name'', JStr ''Jo???'')])"
  have "CHR ''.'' \<notin> set ?p \<and> (CHR ''-'' \<in> set ?p \<or> CHR ''_'' \<in> set ?p)" by code_simp
  then show ?thesis
    using url_alphabet_token_expired [of _ "''h''" ?p "''s''" challenge_platform] by simp
qed

end
