(* ===== verification/Auth_Session.thy ===== *)
theory Auth_Session
  imports Api_Client
begin

text \<open>
  The session of the signed-in user, \<^verbatim>\<open>src/frontend/src/features/auth/hooks/use-auth.tsx\<close>, and
  the guards built on it, \<^verbatim>\<open>protected-route.tsx\<close> and \<^verbatim>\<open>admin-guard.tsx\<close>. The state holds the
  module state of the HTTP client, the entry of \<open>localStorage\<close>, the React state of \<open>AuthProvider\<close>
  and the routes that were pushed. An operation is one caller's run from its first to its last step.
\<close>

named_theorems auth_defs \<open>definitions of the session operations\<close>


section \<open>State\<close>

text \<open>\<open>storage_ok\<close> tells whether \<open>localStorage\<close> can be used; when not, its methods throw.\<close>

record 'w app =
  net :: "'w client"
  stored_user :: "string option"
  storage_ok :: bool
  auth_user :: "user option"
  isLoading :: bool
  readOnly :: bool
  routes :: "string list"

type_synonym ('w, 'a) app_act = "('w app, js_error, 'a) act"

definition client_call :: "('w client, js_error, 'a) act \<Rightarrow> ('w, 'a) app_act" where
  "client_call m = (\<lambda>s. let (r, c) = m (net s) in (r, s\<lparr>net := c\<rparr>))"

definition setUser :: "user option \<Rightarrow> ('w, unit) app_act" where
  [auth_defs]: "setUser u = modify (\<lambda>s. s\<lparr>auth_user := u\<rparr>)"

definition setReadOnly :: "bool \<Rightarrow> ('w, unit) app_act" where
  [auth_defs]: "setReadOnly b = modify (\<lambda>s. s\<lparr>readOnly := b\<rparr>)"

definition setIsLoading :: "bool \<Rightarrow> ('w, unit) app_act" where
  [auth_defs]: "setIsLoading b = modify (\<lambda>s. s\<lparr>isLoading := b\<rparr>)"

definition push_route :: "string \<Rightarrow> ('w, unit) app_act" where
  [auth_defs]: "push_route r = modify (\<lambda>s. s\<lparr>routes := routes s @ [r]\<rparr>)"


section \<open>The cached user\<close>

definition getCachedUser :: "'w app \<Rightarrow> user option" where
  "getCachedUser s =
     (if \<not> storage_ok s then None
      else case stored_user s of None \<Rightarrow> None
      | Some raw \<Rightarrow> if \<not> truthy_str raw then None else Option.bind (json_parse raw) user_of_json)"

definition setCachedUser :: "user option \<Rightarrow> ('w, unit) app_act" where
  [auth_defs]: "setCachedUser u = modify (\<lambda>s.
     if \<not> storage_ok s then s
     else s\<lparr>stored_user := (case u of Some v \<Rightarrow> Some (stringify (user_to_json v)) | None \<Rightarrow> None)\<rparr>)"


section \<open>The role\<close>

definition tokenRole :: "string option \<Rightarrow> string option" where
  "tokenRole token =
     (if truthy_ostr token
      then Option.bind (token_payload (the token)) (\<lambda>payload. jstring (jfield ''role'' payload))
      else None)"

definition withRole :: "user \<Rightarrow> string option \<Rightarrow> string option \<Rightarrow> user" where
  "withRole u rl token =
     (let r = (case rl of Some x \<Rightarrow> Some x | None \<Rightarrow> tokenRole token)
      in if truthy_ostr r then u\<lparr>user_role := r\<rparr> else u)"

fun isAuthUnavailable :: "js_error \<Rightarrow> bool" where
  "isAuthUnavailable (ApiError st code m data) = (500 \<le> st)"
| "isAuthUnavailable _ = False"


section \<open>Operations\<close>

text \<open>
  The user of a \<open>whoami\<close> answer with its role: \<open>res.success && res.data?.user\<close>. The user object is
  read at its declared type; one without an id or a name counts as missing.
\<close>

definition whoami_user :: "json \<Rightarrow> (user \<times> string option) option" where
  "whoami_user res =
     (let data = (case jfield ''data'' res of None \<Rightarrow> JNull | Some d \<Rightarrow> d)
      in if jtruthy (jfield ''success'' res) \<and> jtruthy (jfield ''user'' data)
         then map_option (\<lambda>u. (u, jstring (jfield ''role'' data)))
                (Option.bind (jfield ''user'' data) user_of_json)
         else None)"

definition signed_in :: "user \<Rightarrow> ('w, unit) app_act" where
  [auth_defs]: "signed_in next_user =
     andThen (setUser (Some next_user)) (\<lambda>_. andThen (setCachedUser (Some next_user)) (\<lambda>_.
       setReadOnly False))"

definition checkSession :: "'w platform \<Rightarrow> ('w, bool) app_act" where
  [auth_defs]: "checkSession pl =
     andThen
       (catching
         (andThen (client_call (apiGet pl (API_PATHS AuthWhoami) None)) (\<lambda>res.
            case whoami_user res of
              Some (u, rl) \<Rightarrow>
                andThen (get_state (\<lambda>s. withRole u rl (accessToken (net s)))) (\<lambda>next_user.
                andThen (signed_in next_user) (\<lambda>_. andThen (setIsLoading False) (\<lambda>_. ret True)))
            | None \<Rightarrow> ret False))
         (\<lambda>err.
            if isAuthUnavailable err
            then andThen (get_state getCachedUser) (\<lambda>cached.
                   case cached of
                     Some u \<Rightarrow>
                       andThen (get_state (\<lambda>s. withRole u None (accessToken (net s)))) (\<lambda>next_user.
                       andThen (setUser (Some next_user)) (\<lambda>_. andThen (setReadOnly True) (\<lambda>_.
                       andThen (setIsLoading False) (\<lambda>_. ret True))))
                   | None \<Rightarrow> ret False)
            else ret False))
       (\<lambda>done_already.
          if done_already then ret True
          else andThen (setUser None) (\<lambda>_. andThen (setReadOnly False) (\<lambda>_.
               andThen (setIsLoading False) (\<lambda>_. ret False))))"

text \<open>\<open>restoreSession\<close> has the same body and returns nothing.\<close>

definition restoreSession :: "'w platform \<Rightarrow> ('w, unit) app_act" where
  [auth_defs]: "restoreSession pl = andThen (checkSession pl) (\<lambda>_. ret ())"

definition refreshSession :: "'w platform \<Rightarrow> ('w, unit) app_act" where
  [auth_defs]: "refreshSession pl = andThen (setIsLoading True) (\<lambda>_. restoreSession pl)"

definition login :: "'w platform \<Rightarrow> login_request \<Rightarrow> ('w, unit) app_act" where
  [auth_defs]: "login pl data =
     andThen (client_call (apiRequest pl (API_PATHS AuthLogin)
         \<lparr>opt_method = Some ''POST'', opt_body = Some (login_body data), opt_params = None,
          opt_auth = Some False\<rparr>)) (\<lambda>res.
       let failed = throw (JsError (string_or ''Login failed'' (jfield ''message'' res)))
       in case refreshed_token res of
            None \<Rightarrow> failed
          | Some token \<Rightarrow>
              andThen (client_call (setAccessToken (Some token))) (\<lambda>_.
              andThen (client_call (apiGet pl (API_PATHS AuthWhoami) None)) (\<lambda>whoami.
                case whoami_user whoami of
                  Some (u, rl) \<Rightarrow>
                    andThen (get_state (\<lambda>s. withRole u rl (accessToken (net s)))) (\<lambda>next_user.
                    andThen (signed_in next_user) (\<lambda>_. push_route ''/home''))
                | None \<Rightarrow> failed)))"

definition register :: "'w platform \<Rightarrow> register_request \<Rightarrow> ('w, unit) app_act" where
  [auth_defs]: "register pl data =
     andThen (client_call (apiPost pl (API_PATHS AuthRegister) (Some (register_body data)) (Some False)))
       (\<lambda>res.
         if jtruthy (jfield ''success'' res)
         then login pl \<lparr>login_email = reg_email data, login_password = reg_password data\<rparr>
         else throw (JsError (string_or ''Registration failed'' (jfield ''message'' res))))"

definition logout :: "'w platform \<Rightarrow> ('w, unit) app_act" where
  [auth_defs]: "logout pl =
     andThen
       (catching (andThen (client_call (apiPost pl (API_PATHS AuthLogout) None (Some False))) (\<lambda>_. ret ()))
         (\<lambda>_. ret ()))
       (\<lambda>_. andThen (setUser None) (\<lambda>_. andThen (setCachedUser None) (\<lambda>_. andThen (setReadOnly False) (\<lambda>_.
            andThen (client_call (setAccessToken None)) (\<lambda>_. push_route ''/login'')))))"

definition isAuthenticated :: "'w app \<Rightarrow> bool" where
  "isAuthenticated s \<longleftrightarrow> auth_user s \<noteq> None"


section \<open>Guards\<close>

datatype view = Spinner | Blank | Children

text \<open>What a guard renders, and where its effect sends the router.\<close>

definition protected_route :: "'w app \<Rightarrow> view \<times> string option" where
  "protected_route s =
     ((if isLoading s then Spinner else if \<not> isAuthenticated s then Blank else Children),
      (if \<not> isLoading s \<and> \<not> isAuthenticated s \<and> \<not> readOnly s then Some ''/login'' else None))"

definition is_admin :: "'w app \<Rightarrow> bool" where
  "is_admin s \<longleftrightarrow> isAuthenticated s \<and> Option.bind (auth_user s) user_role = Some ''ADMIN''"

definition admin_guard :: "'w app \<Rightarrow> view \<times> string option" where
  "admin_guard s =
     ((if isLoading s then Spinner else if \<not> is_admin s then Blank else Children),
      (if isLoading s then None
       else if \<not> isAuthenticated s then Some ''/login''
       else if \<not> is_admin s then Some ''/home'' else None))"


section \<open>What the operations do, branch by branch\<close>

lemma client_call_eq:
  "client_call m s = (fst (m (net s)), s\<lparr>net := snd (m (net s))\<rparr>)"
  by (simp add: client_call_def split: prod.splits)

text \<open>The result of the \<open>whoami\<close> request decides a session check.\<close>

lemma checkSession_eq:
  assumes "apiGet pl (API_PATHS AuthWhoami) None (net s) = (r, c)"
  shows "checkSession pl s =
    (let s1 = s\<lparr>net := c\<rparr>;
         out = (Inr False, s1\<lparr>auth_user := None, readOnly := False, isLoading := False\<rparr>)
     in case r of
          Inr res \<Rightarrow>
            (case whoami_user res of
               Some (u, rl) \<Rightarrow>
                 let n = withRole u rl (accessToken c)
                 in (Inr True, s1\<lparr>auth_user := Some n, readOnly := False, isLoading := False,
                       stored_user := (if storage_ok s then Some (stringify (user_to_json n)) else stored_user s)\<rparr>)
             | None \<Rightarrow> out)
        | Inl err \<Rightarrow>
            if isAuthUnavailable err
            then (case getCachedUser s of
                    Some u \<Rightarrow> (Inr True, s1\<lparr>auth_user := Some (withRole u None (accessToken c)),
                                readOnly := True, isLoading := False\<rparr>)
                  | None \<Rightarrow> out)
            else out)"
  using assms
  by (auto simp: auth_defs act_simps client_call_eq Let_def getCachedUser_def split: sum.splits option.splits prod.splits)


text \<open>The call of \<open>login\<close>, once the two requests it makes are known.\<close>

lemma login_cases:
  assumes "login pl data s = (r, s')"
  shows "(\<exists>u. r = Inr () \<and> auth_user s' = Some u \<and> readOnly s' = False \<and> isLoading s' = isLoading s
            \<and> stored_user s' = (if storage_ok s then Some (stringify (user_to_json u)) else stored_user s)
            \<and> storage_ok s' = storage_ok s \<and> routes s' = routes s @ [''/home''])
       \<or> (\<exists>e c. r = Inl e \<and> s' = s\<lparr>net := c\<rparr>)"
  using assms
  by (auto simp: auth_defs act_simps client_call_eq Let_def setAccessToken_def
      split: sum.splits option.splits prod.splits)

lemma register_cases:
  assumes "register pl data s = (r, s')"
  shows "(\<exists>u. r = Inr () \<and> auth_user s' = Some u \<and> readOnly s' = False \<and> isLoading s' = isLoading s
            \<and> stored_user s' = (if storage_ok s then Some (stringify (user_to_json u)) else stored_user s)
            \<and> storage_ok s' = storage_ok s \<and> routes s' = routes s @ [''/home''])
       \<or> (\<exists>e c. r = Inl e \<and> s' = s\<lparr>net := c\<rparr>)"
proof -
  obtain p c where p: "apiPost pl (API_PATHS AuthRegister) (Some (register_body data)) (Some False) (net s) = (p, c)"
    by fastforce
  let ?d = "\<lparr>login_email = reg_email data, login_password = reg_password data\<rparr>"
  have "(\<exists>e. (r, s') = (Inl e, s\<lparr>net := c\<rparr>)) \<or> login pl ?d (s\<lparr>net := c\<rparr>) = (r, s')"
    using assms p
    by (auto simp: register_def andThen_def client_call_eq throw_def split: sum.splits if_splits)
  then show ?thesis
  proof
    assume "login pl ?d (s\<lparr>net := c\<rparr>) = (r, s')"
    from login_cases [OF this] show ?thesis by auto
  qed auto
qed

lemma logout_eq:
  "logout pl s = (Inr (),
     s\<lparr>net := (snd (apiPost pl (API_PATHS AuthLogout) None (Some False) (net s)))\<lparr>accessToken := None\<rparr>,
       auth_user := None, readOnly := False, routes := routes s @ [''/login''],
       stored_user := (if storage_ok s then None else stored_user s)\<rparr>)"
  by (auto simp: auth_defs act_simps client_call_eq setAccessToken_def split: sum.splits prod.splits)


section \<open>The session as a machine\<close>

text \<open>
  A page load resets the memory of the page; the entry in \<open>localStorage\<close> and the key in the database
  stay.
\<close>

datatype session_op =
    Restore
  | Check
  | Refresh_session
  | Login login_request
  | Register register_request
  | Logout
  | Reload

definition reload :: "'w app \<Rightarrow> 'w app" where
  "reload s = s\<lparr>auth_user := None, isLoading := True, readOnly := False,
     net := (net s)\<lparr>accessToken := None, dpopNonce := None, cachedKey := None\<rparr>\<rparr>"

fun perform :: "'w platform \<Rightarrow> session_op \<Rightarrow> 'w app \<Rightarrow> 'w app" where
  "perform pl Restore s = snd (restoreSession pl s)"
| "perform pl Check s = snd (checkSession pl s)"
| "perform pl Refresh_session s = snd (refreshSession pl s)"
| "perform pl (Login d) s = snd (login pl d s)"
| "perform pl (Register d) s = snd (register pl d s)"
| "perform pl Logout s = snd (logout pl s)"
| "perform pl Reload s = reload s"

inductive session_step :: "'w platform \<Rightarrow> 'w app \<Rightarrow> session_op \<Rightarrow> 'w app \<Rightarrow> bool"
  for pl :: "'w platform" where
  perform_op: "session_step pl s operation (perform pl operation s)"

inductive_simps session_step_iff: "session_step pl s operation t"

text \<open>A fresh page; a user cached by an earlier visit may be there.\<close>

definition session_init :: "'w app \<Rightarrow> bool" where
  "session_init s \<longleftrightarrow> auth_user s = None \<and> isLoading s \<and> \<not> readOnly s"

text \<open>
  A read-only session has a user, and the user of a full session is the cached one.
\<close>

definition session_inv :: "'w app \<Rightarrow> bool" where
  "session_inv s \<longleftrightarrow>
     (readOnly s \<longrightarrow> auth_user s \<noteq> None)
     \<and> (\<forall>u. auth_user s = Some u \<and> \<not> readOnly s \<and> storage_ok s \<longrightarrow> getCachedUser s = Some u)"

lemma stringify_not_Nil: "stringify v \<noteq> []"
  by (rule stringify_Cons [of v]) simp

lemma getCachedUser_written:
  "storage_ok s \<Longrightarrow> stored_user s = Some (stringify (user_to_json u)) \<Longrightarrow> getCachedUser s = Some u"
  using read_written_user [of u] by (simp add: getCachedUser_def truthy_str_def stringify_not_Nil)

lemma session_inv_check: "session_inv s \<Longrightarrow> session_inv (snd (checkSession pl s))"
proof -
  assume inv: "session_inv s"
  obtain r c where w: "apiGet pl (API_PATHS AuthWhoami) None (net s) = (r, c)" by fastforce
  show ?thesis
    by (auto simp: checkSession_eq [OF w] Let_def session_inv_def getCachedUser_written
        split: sum.splits option.splits)
qed

lemma restore_snd: "snd (restoreSession pl s) = snd (checkSession pl s)"
  by (simp add: restoreSession_def andThen_def ret_def split: prod.splits sum.splits)

lemma refresh_snd: "snd (refreshSession pl s) = snd (checkSession pl (s\<lparr>isLoading := True\<rparr>))"
  using restore_snd [of pl "s\<lparr>isLoading := True\<rparr>"]
  by (simp add: refreshSession_def andThen_def setIsLoading_def modify_def)

lemma getCachedUser_cong [simp]:
  "getCachedUser (s\<lparr>net := c\<rparr>) = getCachedUser s"
  "getCachedUser (s\<lparr>isLoading := b\<rparr>) = getCachedUser s"
  by (simp_all add: getCachedUser_def)

lemma session_inv_signed:
  assumes "(\<exists>u. r = Inr () \<and> auth_user t = Some u \<and> readOnly t = False \<and> isLoading t = isLoading s
            \<and> stored_user t = (if storage_ok s then Some (stringify (user_to_json u)) else stored_user s)
            \<and> storage_ok t = storage_ok s \<and> routes t = routes s @ [''/home''])
       \<or> (\<exists>e c. r = Inl e \<and> t = s\<lparr>net := c\<rparr>)"
    and "session_inv s"
  shows "session_inv t"
  using assms by (auto simp: session_inv_def getCachedUser_written)

lemma session_inv_step:
  assumes "session_inv s" and "session_step pl s operation t"
  shows "session_inv t"
proof (cases operation)
  case Restore
  with assms session_inv_check show ?thesis by (auto simp: session_step_iff restore_snd)
next
  case Check
  with assms session_inv_check show ?thesis by (auto simp: session_step_iff)
next
  case Refresh_session
  have "session_inv (s\<lparr>isLoading := True\<rparr>)" using assms(1) by (simp add: session_inv_def)
  with Refresh_session assms session_inv_check show ?thesis by (auto simp: session_step_iff refresh_snd)
next
  case (Login d)
  obtain r u where l: "login pl d s = (r, u)" by fastforce
  with Login assms have "t = u" by (simp add: session_step_iff)
  with session_inv_signed [OF login_cases [OF l] assms(1)] show ?thesis by simp
next
  case (Register d)
  obtain r u where l: "register pl d s = (r, u)" by fastforce
  with Register assms have "t = u" by (simp add: session_step_iff)
  with session_inv_signed [OF register_cases [OF l] assms(1)] show ?thesis by simp
next
  case Logout
  with assms show ?thesis by (auto simp: session_step_iff logout_eq session_inv_def)
next
  case Reload
  with assms show ?thesis by (auto simp: session_step_iff reload_def session_inv_def)
qed

interpretation session: invariant_machine session_init "session_step pl" session_inv
proof unfold_locales
  show "session_init s \<Longrightarrow> session_inv s" for s by (simp add: session_init_def session_inv_def)
qed (rule session_inv_step)


section \<open>Properties\<close>

definition outage_response :: response where
  "outage_response = \<lparr>rs_status = 503, rs_nonce = None, rs_text = stringify (JObj [])\<rparr>"

definition outage_platform :: "nat platform" where
  "outage_platform = sample_platform\<lparr>fetch := (\<lambda>rq w. (Inr outage_response, w))\<rparr>"

definition sample_user :: user where
  "sample_user = \<lparr>user_id = ''u1'', user_name = ''Ada'', user_email = Some ''ada@chat.test'',
                   user_role = Some ''ADMIN''\<rparr>"

definition whoami_response :: response where
  "whoami_response =
     \<lparr>rs_status = 200, rs_nonce = Some ''n3'',
      rs_text = stringify (JObj [(''success'', JBool True),
        (''data'', JObj [(''user'', user_to_json (sample_user\<lparr>user_role := None\<rparr>)), (''role'', JStr ''ADMIN'')])])\<rparr>"

definition account_platform :: "nat platform" where
  "account_platform = sample_platform
     \<lparr>fetch := (\<lambda>rq w. (Inr (if rq_url rq = ''/api/auth/login'' then token_response else whoami_response), w))\<rparr>"

definition refused_response :: response where
  "refused_response = \<lparr>rs_status = 401, rs_nonce = None, rs_text = stringify (JObj [])\<rparr>"

definition refused_platform :: "nat platform" where
  "refused_platform = sample_platform\<lparr>fetch := (\<lambda>rq w. (Inr refused_response, w))\<rparr>"

definition sample_login :: login_request where
  "sample_login = \<lparr>login_email = ''ada@chat.test'', login_password = ''secret''\<rparr>"

definition fresh_app :: "nat app" where
  "fresh_app =
     \<lparr>net = \<lparr>cachedKey = None, idbKey = None, world = 7, accessToken = None, dpopNonce = None\<rparr>,
      stored_user = None, storage_ok = True, auth_user = None, isLoading = True, readOnly = False,
      routes = []\<rparr>"

lemma fresh_app_init: "session_init fresh_app"
  by (simp add: fresh_app_def session_init_def)

lemma outage_parts [simp]:
  "rs_nonce outage_response = None" "rs_status outage_response = 503" "\<not> rs_ok outage_response"
  "\<not> isUseNonceResponse outage_response" "json_parse (rs_text outage_response) = Some (JObj [])"
  by (simp_all add: outage_response_def rs_ok_def isUseNonceResponse_def json_parse_stringify
      del: stringify.simps)

lemma refused_parts [simp]:
  "rs_nonce refused_response = None" "rs_status refused_response = 401" "\<not> rs_ok refused_response"
  "\<not> isUseNonceResponse refused_response" "json_parse (rs_text refused_response) = Some (JObj [])"
  by (simp_all add: refused_response_def rs_ok_def isUseNonceResponse_def json_parse_stringify
      del: stringify.simps)

lemma token_parts [simp]:
  "rs_status token_response = 200" "rs_ok token_response"
  "json_parse (rs_text token_response)
     = Some (JObj [(''success'', JBool True), (''data'', JObj [(''token'', JStr ''h.e30.s'')])])"
  by (simp_all add: token_response_def rs_ok_def json_parse_stringify del: stringify.simps)

lemma whoami_parts [simp]:
  "rs_nonce whoami_response = Some ''n3''" "rs_status whoami_response = 200" "rs_ok whoami_response"
  "\<not> isUseNonceResponse whoami_response"
  "json_parse (rs_text whoami_response) = Some (JObj [(''success'', JBool True),
        (''data'', JObj [(''user'', user_to_json (sample_user\<lparr>user_role := None\<rparr>)), (''role'', JStr ''ADMIN'')])])"
  by (simp_all add: whoami_response_def rs_ok_def isUseNonceResponse_def json_parse_stringify
      del: stringify.simps)

text \<open>The state of a client after its first requests: a key, and whatever nonce and token.\<close>

definition keyed_client :: "nat \<Rightarrow> string option \<Rightarrow> string option \<Rightarrow> nat client" where
  "keyed_client w token nonce =
     \<lparr>cachedKey = Some \<lparr>privateKey = Some 7, publicJwk = sample_jwk\<rparr>,
      idbKey = Some \<lparr>privateKey = Some 7, publicJwk = sample_jwk\<rparr>,
      world = w, accessToken = token, dpopNonce = nonce\<rparr>"

lemmas eval_client = client_defs dpop_defs act_simps on_world_def sample_platform_def
  Let_def usable_key_def numeral_2_eq_2 js_defs request_headers_def jtruthy_def authorize_def
  api_error_def string_or_def request_url_def

lemma outage_whoami:
  "\<exists>c. apiGet outage_platform (API_PATHS AuthWhoami) None (net fresh_app)
    = (Inl (ApiError 503 ''UNKNOWN'' ''An unexpected error occurred'' None), c) \<and> accessToken c = None"
  by (simp add: eval_client outage_platform_def fresh_app_def)

lemma refused_whoami:
  "\<exists>w. apiGet refused_platform (API_PATHS AuthWhoami) None (net fresh_app)
    = (Inl (ApiError 401 ''UNKNOWN'' ''An unexpected error occurred'' None), keyed_client w None None)"
  by (simp add: eval_client refused_platform_def fresh_app_def keyed_client_def)

lemma keyed_outage:
  "\<exists>c. apiGet outage_platform (API_PATHS AuthWhoami) None (keyed_client w None nonce)
    = (Inl (ApiError 503 ''UNKNOWN'' ''An unexpected error occurred'' None), c) \<and> accessToken c = None"
  by (simp add: eval_client outage_platform_def keyed_client_def)

lemma reloaded_outage:
  "\<exists>c. apiGet outage_platform (API_PATHS AuthWhoami) None
        (keyed_client w token nonce\<lparr>accessToken := None, dpopNonce := None, cachedKey := None\<rparr>)
    = (Inl (ApiError 503 ''UNKNOWN'' ''An unexpected error occurred'' None), c) \<and> accessToken c = None"
  by (simp add: eval_client outage_platform_def keyed_client_def)

lemma token_live: "token_payload ''h.e30.s'' = Some (JObj [])"
  by code_simp

lemma whoami_sample:
  "whoami_user (JObj [(''success'', JBool True),
        (''data'', JObj [(''user'', user_to_json u), (''role'', JStr rl)])]) = Some (u, Some rl)"
proof -
  have "jtruthy (Some (user_to_json u))" by (simp add: user_to_json_def jobject_def jtruthy_def)
  moreover have "jtruthy (Some (JBool True))" by (simp add: jtruthy_def)
  ultimately show ?thesis by (simp add: whoami_user_def user_of_to_json)
qed

lemma sample_user_admin: "sample_user\<lparr>user_role := Some ''ADMIN''\<rparr> = sample_user"
  by (simp add: sample_user_def)

lemma account_login:
  "\<exists>w u. login account_platform d fresh_app = (Inr (), u) \<and> storage_ok u
    \<and> net u = keyed_client w (Some ''h.e30.s'') (Some ''n3'')
    \<and> auth_user u = Some sample_user"
  by (simp add: eval_client auth_defs account_platform_def fresh_app_def client_call_def keyed_client_def
      token_not_use_nonce token_live refreshed_token_def whoami_sample withRole_def exp_passed_def
      sample_user_admin)

text \<open>
  C5: whatever sequence of sign-ins, sign-outs, checks, refreshes and page loads a session goes
  through, the guards are sound and never strand a visitor: protected content is shown only to a
  user, admin content only to a user whose role is ADMIN, and a page that shows neither content
  nor a spinner is being redirected, to the login page when there is no user.
\<close>

theorem guards_sound:
  assumes "reachable session_init (session_step pl) s"
  shows "(fst (protected_route s) = Children \<longrightarrow> auth_user s \<noteq> None)
    \<and> (fst (protected_route s) = Blank \<longleftrightarrow> snd (protected_route s) = Some ''/login'')
    \<and> (fst (admin_guard s) = Children \<longrightarrow> (\<exists>u. auth_user s = Some u \<and> user_role u = Some ''ADMIN''))
    \<and> (fst (admin_guard s) = Blank \<longrightarrow>
         snd (admin_guard s) = Some (if auth_user s = None then ''/login'' else ''/home''))"
proof -
  have "session_inv s" by (rule session.reachable_inv [OF assms])
  then show ?thesis
    by (auto simp: protected_route_def admin_guard_def is_admin_def isAuthenticated_def session_inv_def
        bind_eq_Some_conv)
qed

theorem guards_sound_witness:
  "\<exists>s. session_step outage_platform fresh_app Logout s
    \<and> fst (admin_guard (s\<lparr>isLoading := False\<rparr>)) = Blank \<and> fst (protected_route s) = Spinner
    \<and> (fst (protected_route s) = Children \<longrightarrow> auth_user s \<noteq> None)"
proof -
  let ?s = "perform outage_platform Logout fresh_app"
  have "session_step outage_platform fresh_app Logout ?s" by (rule perform_op)
  moreover from this have "reachable session_init (session_step outage_platform) ?s"
    using fresh_app_init by (auto intro: reachableI [of _ _ _ "[Logout]"] simp: run_Cons_iff)
  from guards_sound [OF this]
  have "fst (protected_route ?s) = Children \<longrightarrow> auth_user ?s \<noteq> None" by blast
  ultimately show ?thesis
    by (intro exI [of _ ?s])
      (simp add: logout_eq fresh_app_def admin_guard_def is_admin_def isAuthenticated_def protected_route_def)
qed

text \<open>
  C22: A successful sign-in survives an outage of the server: when the page is loaded again and the
  session check fails with a server error, the user is shown as cached, in read-only mode, with the
  same id, name and e-mail, and with the same role unless a newer access token names one.
\<close>

theorem login_survives_outage:
  assumes "login pl data s = (Inr (), s1)" and "storage_ok s"
    and "apiGet pl' (API_PATHS AuthWhoami) None (net (reload s1)) = (Inl err, c)" and "isAuthUnavailable err"
  shows "\<exists>u t. auth_user s1 = Some u \<and> \<not> readOnly s1 \<and> last (routes s1) = ''/home''
    \<and> checkSession pl' (reload s1) = (Inr True, t) \<and> readOnly t
    \<and> auth_user t = Some (withRole u None (accessToken c))
    \<and> (accessToken c = None \<longrightarrow> auth_user t = auth_user s1)"
proof -
  from login_cases [OF assms(1)] assms(2) obtain u where u: "auth_user s1 = Some u" "\<not> readOnly s1"
    "stored_user s1 = Some (stringify (user_to_json u))" "storage_ok s1" "routes s1 = routes s @ [''/home'']"
    by auto
  have "getCachedUser (reload s1) = Some u"
    by (rule getCachedUser_written) (use u in \<open>simp_all add: reload_def\<close>)
  moreover have "withRole u None None = u" by (simp add: withRole_def tokenRole_def js_defs)
  ultimately show ?thesis using u
    by (simp add: checkSession_eq [OF assms(3)] assms(4) Let_def)
qed

theorem login_survives_outage_witness:
  "\<exists>s1 t. login account_platform sample_login fresh_app = (Inr (), s1)
    \<and> checkSession outage_platform (reload s1) = (Inr True, t) \<and> readOnly t
    \<and> auth_user t = Some sample_user"
proof -
  obtain w s1 where l: "login account_platform sample_login fresh_app = (Inr (), s1)" "auth_user s1 = Some sample_user"
    "net s1 = keyed_client w (Some ''h.e30.s'') (Some ''n3'')"
    using account_login by blast
  obtain c where c: "apiGet outage_platform (API_PATHS AuthWhoami) None (net (reload s1))
      = (Inl (ApiError 503 ''UNKNOWN'' ''An unexpected error occurred'' None), c)" "accessToken c = None"
    using reloaded_outage [of w "Some ''h.e30.s''" "Some ''n3''"] by (auto simp: reload_def l(3))
  have "storage_ok fresh_app" by (simp add: fresh_app_def)
  from login_survives_outage [OF l(1) this c(1)] c(2) l show ?thesis by auto
qed

text \<open>
  C23: signing out always completes and leaves nothing behind: even when the request fails, there is no
  user, no access token, no read-only mode and no cached user, the visitor is sent to the login page, and
  a later outage does not bring the user back.
\<close>

theorem logout_clears:
  assumes "storage_ok s"
  shows "\<exists>t. logout pl s = (Inr (), t) \<and> auth_user t = None \<and> \<not> readOnly t \<and> accessToken (net t) = None
    \<and> getCachedUser t = None \<and> last (routes t) = ''/login''
    \<and> (\<forall>err c. apiGet pl (API_PATHS AuthWhoami) None (net (reload t)) = (Inl err, c) \<longrightarrow>
         auth_user (snd (checkSession pl (reload t))) = None)"
proof -
  have none: "getCachedUser (reload (snd (logout pl s))) = None"
    using assms by (simp add: logout_eq reload_def getCachedUser_def)
  have "auth_user (snd (checkSession pl (reload (snd (logout pl s))))) = None"
    if "apiGet pl (API_PATHS AuthWhoami) None (net (reload (snd (logout pl s)))) = (Inl err, c)" for err c
    using none by (simp add: checkSession_eq [OF that] Let_def)
  then show ?thesis using assms
    by (intro exI [of _ "snd (logout pl s)"]) (simp add: logout_eq getCachedUser_def)
qed

theorem logout_clears_witness:
  "\<exists>t. logout outage_platform (fresh_app\<lparr>stored_user := Some (stringify (user_to_json sample_user))\<rparr>)
      = (Inr (), t) \<and> getCachedUser t = None"
  using logout_clears [of "fresh_app\<lparr>stored_user := Some (stringify (user_to_json sample_user))\<rparr>" outage_platform]
  by (auto simp: fresh_app_def)

text \<open>
  A session the server has rejected can come back. When a session check fails with an error below
  500 the visitor is signed out, but the cached user is kept; if the next check then meets a server
  error, that user is shown as signed in, in read-only mode.
\<close>

theorem rejected_session_restored:
  assumes "getCachedUser s = Some u"
    and "apiGet pl (API_PATHS AuthWhoami) None (net s) = (Inl (ApiError 401 code m d), c)"
    and "apiGet pl' (API_PATHS AuthWhoami) None c = (Inl (ApiError 503 code' m' d'), c')"
  shows "let s1 = snd (checkSession pl s); s2 = snd (checkSession pl' s1)
    in auth_user s1 = None \<and> getCachedUser s1 = Some u
       \<and> auth_user s2 = Some (withRole u None (accessToken c')) \<and> readOnly s2"
proof -
  let ?s1 = "snd (checkSession pl s)"
  have s1: "?s1 = s\<lparr>net := c, auth_user := None, readOnly := False, isLoading := False\<rparr>"
    by (simp add: checkSession_eq [OF assms(2)] Let_def)
  have cached: "getCachedUser ?s1 = Some u" 
    using assms(1) by (auto simp: s1 getCachedUser_def split: if_splits)
  have "net ?s1 = c" by (simp add: s1)
  with assms(3) have "apiGet pl' (API_PATHS AuthWhoami) None (net ?s1) = (Inl (ApiError 503 code' m' d'), c')"
    by simp
  from checkSession_eq [OF this] cached show ?thesis
    by (simp add: Let_def) (simp add: s1)
qed

theorem rejected_session_restored_witness:
  "let s = fresh_app\<lparr>stored_user := Some (stringify (user_to_json sample_user))\<rparr>;
       s1 = snd (checkSession refused_platform s); s2 = snd (checkSession outage_platform s1)
   in auth_user s1 = None \<and> auth_user s2 = Some sample_user \<and> readOnly s2"
proof -
  let ?s = "fresh_app\<lparr>stored_user := Some (stringify (user_to_json sample_user))\<rparr>"
  have g: "getCachedUser ?s = Some sample_user"
    by (rule getCachedUser_written) (simp_all add: fresh_app_def)
  obtain w where r: "apiGet refused_platform (API_PATHS AuthWhoami) None (net ?s)
      = (Inl (ApiError 401 ''UNKNOWN'' ''An unexpected error occurred'' None), keyed_client w None None)"
    using refused_whoami by auto
  obtain c where c: "apiGet outage_platform (API_PATHS AuthWhoami) None (keyed_client w None None)
      = (Inl (ApiError 503 ''UNKNOWN'' ''An unexpected error occurred'' None), c)" "accessToken c = None"
    using keyed_outage by blast
  have "withRole sample_user None None = sample_user"
    by (simp add: withRole_def tokenRole_def js_defs)
  with rejected_session_restored [OF g r c(1)] c(2) show ?thesis by (simp add: Let_def)
qed

text \<open>
  A failed sign-in or registration changes nothing the visitor sees: the user, the cached user, the
  read-only mode, the loading flag and the routes stay as they were.
\<close>

theorem failed_login_keeps_session:
  assumes "login pl data s = (Inl e, s') \<or> register pl reg s = (Inl e, s')"
  shows "auth_user s' = auth_user s \<and> getCachedUser s' = getCachedUser s \<and> readOnly s' = readOnly s
    \<and> isLoading s' = isLoading s \<and> routes s' = routes s"
  using assms login_cases [of pl data s "Inl e" s'] register_cases [of pl reg s "Inl e" s']
  by auto


lemma outage_login: "\<exists>e t. login outage_platform d fresh_app = (Inl e, t)"
  by (simp add: eval_client auth_defs outage_platform_def fresh_app_def client_call_def)

theorem failed_login_keeps_session_witness:
  "\<exists>e t. login outage_platform sample_login fresh_app = (Inl e, t) \<and> auth_user t = None \<and> routes t = []"
proof -
  obtain e t where l: "login outage_platform sample_login fresh_app = (Inl e, t)" using outage_login by blast
  from failed_login_keeps_session [OF disjI1 [OF l]] l show ?thesis
    by (auto simp: fresh_app_def)
qed

end
