(* ===== verification/Rest_Api.thy ===== *)
theory Rest_Api
  imports Auth_Session
begin

text \<open>
  The functions that call the REST interface: \<^verbatim>\<open>features/room/api/room-api.ts\<close>,
  \<^verbatim>\<open>features/chat/api/chat-api.ts\<close> and \<^verbatim>\<open>features/admin/api/admin-api.ts\<close> under
  \<^verbatim>\<open>src/frontend/src\<close>. Each is one definition; the table \<open>route\<close> lists method and endpoint
  of every call, and \<open>perform_call\<close> runs the call of an entry.
\<close>

type_synonym 'w call = "('w client, js_error, json) act"

type_synonym params = "(string \<times> param option) list"


section \<open>room-api.ts\<close>

definition fetchRooms :: "'w platform \<Rightarrow> string \<Rightarrow> 'w call" where
  "fetchRooms pl userId = apiGet pl (API_PATHS (RoomsList userId)) None"

definition fetchRoom :: "'w platform \<Rightarrow> string \<Rightarrow> 'w call" where
  "fetchRoom pl i = apiGet pl (API_PATHS (RoomsGet i)) None"

definition createRoom :: "'w platform \<Rightarrow> create_room_request \<Rightarrow> 'w call" where
  "createRoom pl data = apiPost pl (API_PATHS RoomsCreate) (Some (create_room_body data)) None"

definition updateRoom :: "'w platform \<Rightarrow> string \<Rightarrow> update_room_request \<Rightarrow> 'w call" where
  "updateRoom pl i data = apiPut pl (API_PATHS (RoomsUpdate i)) (Some (update_room_body data))"

definition deleteRoom :: "'w platform \<Rightarrow> string \<Rightarrow> 'w call" where
  "deleteRoom pl i = apiDelete pl (API_PATHS (RoomsDelete i))"

definition fetchRoomMembers :: "'w platform \<Rightarrow> string \<Rightarrow> 'w call" where
  "fetchRoomMembers pl roomId = apiGet pl (API_PATHS (RoomsMembers roomId)) None"

definition fetchRoomMember :: "'w platform \<Rightarrow> string \<Rightarrow> string \<Rightarrow> 'w call" where
  "fetchRoomMember pl roomId userId = apiGet pl (API_PATHS (RoomsMember roomId userId)) None"

definition member_body :: "string \<Rightarrow> int option \<Rightarrow> json" where
  "member_body userId rl =
     jobject [(''user_id'', Some (JStr userId)), (''role'', map_option JNum rl)]"

definition addRoomMember :: "'w platform \<Rightarrow> string \<Rightarrow> string \<Rightarrow> int option \<Rightarrow> 'w call" where
  "addRoomMember pl roomId userId rl =
     apiPost pl (API_PATHS (RoomsMembers roomId)) (Some (member_body userId rl)) None"

definition removeRoomMember :: "'w platform \<Rightarrow> string \<Rightarrow> string \<Rightarrow> 'w call" where
  "removeRoomMember pl roomId userId = apiDelete pl (API_PATHS (RoomsMember roomId userId))"

definition updateRoomMember :: "'w platform \<Rightarrow> string \<Rightarrow> string \<Rightarrow> role \<Rightarrow> 'w call" where
  "updateRoomMember pl roomId userId rl =
     apiPut pl (API_PATHS (RoomsMember roomId userId)) (Some (update_room_member_body rl))"

definition createInviteLink :: "'w platform \<Rightarrow> string \<Rightarrow> create_invite_link_request option \<Rightarrow> 'w call" where
  "createInviteLink pl roomId data =
     apiPost pl (API_PATHS (RoomsInvite roomId))
       (Some (case data of Some d \<Rightarrow> create_invite_link_body d | None \<Rightarrow> JObj [])) None"

definition joinRoomViaInvite :: "'w platform \<Rightarrow> string \<Rightarrow> 'w call" where
  "joinRoomViaInvite pl token = apiPost pl (API_PATHS (RoomsJoinInvite token)) None None"

definition popRoom :: "'w platform \<Rightarrow> string \<Rightarrow> 'w call" where
  "popRoom pl roomId = apiPost pl (API_PATHS (RoomsPop roomId)) None None"


section \<open>chat-api.ts\<close>

definition fetchMessages :: "'w platform \<Rightarrow> string \<Rightarrow> string option \<Rightarrow> string option \<Rightarrow> 'w call" where
  "fetchMessages pl roomId cur aft =
     apiGet pl (API_PATHS (ChatMessages roomId))
       (Some [(''cursor'', map_option PStr cur), (''after'', map_option PStr aft)])"

definition fetchMessage :: "'w platform \<Rightarrow> string \<Rightarrow> string \<Rightarrow> 'w call" where
  "fetchMessage pl roomId messageId = apiGet pl (API_PATHS (ChatMessage roomId messageId)) None"

definition createMessage :: "'w platform \<Rightarrow> string \<Rightarrow> create_message_request \<Rightarrow> 'w call" where
  "createMessage pl roomId data =
     apiPost pl (API_PATHS (ChatMessages roomId)) (Some (create_message_body data)) None"

definition updateMessage :: "'w platform \<Rightarrow> string \<Rightarrow> string \<Rightarrow> string \<Rightarrow> 'w call" where
  "updateMessage pl roomId messageId content =
     apiPut pl (API_PATHS (ChatMessage roomId messageId)) (Some (update_message_body content))"

definition deleteMessage :: "'w platform \<Rightarrow> string \<Rightarrow> string \<Rightarrow> 'w call" where
  "deleteMessage pl roomId messageId = apiDelete pl (API_PATHS (ChatMessage roomId messageId))"


section \<open>admin-api.ts\<close>

definition fetchAdminUsers :: "'w platform \<Rightarrow> params option \<Rightarrow> 'w call" where
  "fetchAdminUsers pl ps = apiGet pl (API_PATHS AdminUsers) ps"

definition fetchAdminUser :: "'w platform \<Rightarrow> string \<Rightarrow> 'w call" where
  "fetchAdminUser pl i = apiGet pl (API_PATHS (AdminUser i)) None"

definition createAdminUser :: "'w platform \<Rightarrow> admin_create_user_input \<Rightarrow> 'w call" where
  "createAdminUser pl input = apiPost pl (API_PATHS AdminUsers) (Some (admin_create_user_body input)) None"

definition updateAdminUser :: "'w platform \<Rightarrow> string \<Rightarrow> admin_update_user_input \<Rightarrow> 'w call" where
  "updateAdminUser pl i input = apiPut pl (API_PATHS (AdminUser i)) (Some (admin_update_user_body input))"

definition updateAdminUserRole :: "'w platform \<Rightarrow> string \<Rightarrow> string \<Rightarrow> 'w call" where
  "updateAdminUserRole pl i rl = apiPut pl (API_PATHS (AdminUserRole i)) (Some (JObj [(''role'', JStr rl)]))"

definition disableAdminUser :: "'w platform \<Rightarrow> string \<Rightarrow> 'w call" where
  "disableAdminUser pl i = apiDelete pl (API_PATHS (AdminUser i))"

definition restoreAdminUser :: "'w platform \<Rightarrow> string \<Rightarrow> 'w call" where
  "restoreAdminUser pl i = apiPost pl (API_PATHS (AdminUserRestore i)) None None"

definition fetchAdminSessions :: "'w platform \<Rightarrow> params option \<Rightarrow> 'w call" where
  "fetchAdminSessions pl ps = apiGet pl (API_PATHS AdminSessions) ps"

definition fetchAdminSession :: "'w platform \<Rightarrow> string \<Rightarrow> 'w call" where
  "fetchAdminSession pl i = apiGet pl (API_PATHS (AdminSession i)) None"

definition revokeAdminSession :: "'w platform \<Rightarrow> string \<Rightarrow> 'w call" where
  "revokeAdminSession pl i = apiDelete pl (API_PATHS (AdminSession i))"

definition fetchAdminAudit :: "'w platform \<Rightarrow> params option \<Rightarrow> 'w call" where
  "fetchAdminAudit pl ps = apiGet pl (API_PATHS AdminAudit) ps"

definition fetchAdminRooms :: "'w platform \<Rightarrow> params option \<Rightarrow> 'w call" where
  "fetchAdminRooms pl ps = apiGet pl (API_PATHS AdminRooms) ps"

definition fetchAdminRoom :: "'w platform \<Rightarrow> string \<Rightarrow> 'w call" where
  "fetchAdminRoom pl i = apiGet pl (API_PATHS (AdminRoom i)) None"

definition deleteAdminRoom :: "'w platform \<Rightarrow> string \<Rightarrow> 'w call" where
  "deleteAdminRoom pl i = apiDelete pl (API_PATHS (AdminRoom i))"

definition fetchAdminRoomMembers :: "'w platform \<Rightarrow> string \<Rightarrow> 'w call" where
  "fetchAdminRoomMembers pl roomId = apiGet pl (API_PATHS (AdminRoomMembers roomId)) None"

definition addAdminRoomMember :: "'w platform \<Rightarrow> string \<Rightarrow> string \<Rightarrow> int option \<Rightarrow> 'w call" where
  "addAdminRoomMember pl roomId userId rl =
     apiPost pl (API_PATHS (AdminRoomMembers roomId)) (Some (member_body userId rl)) None"

definition updateAdminRoomMember :: "'w platform \<Rightarrow> string \<Rightarrow> string \<Rightarrow> int option \<Rightarrow> 'w call" where
  "updateAdminRoomMember pl roomId userId rl =
     apiPut pl (API_PATHS (AdminRoomMember roomId userId)) (Some (jobject [(''role'', map_option JNum rl)]))"

definition removeAdminRoomMember :: "'w platform \<Rightarrow> string \<Rightarrow> string \<Rightarrow> 'w call" where
  "removeAdminRoomMember pl roomId userId = apiDelete pl (API_PATHS (AdminRoomMember roomId userId))"

definition fetchAdminUserRooms :: "'w platform \<Rightarrow> string \<Rightarrow> 'w call" where
  "fetchAdminUserRooms pl userId = apiGet pl (API_PATHS (AdminUserRooms userId)) None"

definition fetchAdminMessages :: "'w platform \<Rightarrow> params option \<Rightarrow> 'w call" where
  "fetchAdminMessages pl ps = apiGet pl (API_PATHS AdminMessages) ps"

definition deleteAdminMessage :: "'w platform \<Rightarrow> string \<Rightarrow> 'w call" where
  "deleteAdminMessage pl i = apiDelete pl (API_PATHS (AdminMessage i))"

definition fetchAdminStatsUsers :: "'w platform \<Rightarrow> 'w call" where
  "fetchAdminStatsUsers pl = apiGet pl (API_PATHS AdminStatsUsers) None"

definition fetchAdminStatsSessions :: "'w platform \<Rightarrow> 'w call" where
  "fetchAdminStatsSessions pl = apiGet pl (API_PATHS AdminStatsSessions) None"

definition fetchAdminStatsRooms :: "'w platform \<Rightarrow> 'w call" where
  "fetchAdminStatsRooms pl = apiGet pl (API_PATHS AdminStatsRooms) None"

definition fetchAdminStatsMessages :: "'w platform \<Rightarrow> 'w call" where
  "fetchAdminStatsMessages pl = apiGet pl (API_PATHS AdminStatsMessages) None"

lemmas rest_defs = fetchRooms_def fetchRoom_def createRoom_def updateRoom_def deleteRoom_def
  fetchRoomMembers_def fetchRoomMember_def addRoomMember_def removeRoomMember_def updateRoomMember_def
  createInviteLink_def joinRoomViaInvite_def popRoom_def fetchMessages_def fetchMessage_def
  createMessage_def updateMessage_def deleteMessage_def fetchAdminUsers_def fetchAdminUser_def
  createAdminUser_def updateAdminUser_def updateAdminUserRole_def disableAdminUser_def
  restoreAdminUser_def fetchAdminSessions_def fetchAdminSession_def revokeAdminSession_def
  fetchAdminAudit_def fetchAdminRooms_def fetchAdminRoom_def deleteAdminRoom_def
  fetchAdminRoomMembers_def addAdminRoomMember_def updateAdminRoomMember_def
  removeAdminRoomMember_def fetchAdminUserRooms_def fetchAdminMessages_def deleteAdminMessage_def
  fetchAdminStatsUsers_def fetchAdminStatsSessions_def fetchAdminStatsRooms_def fetchAdminStatsMessages_def


section \<open>The table of calls\<close>

datatype rest_call =
    FetchRooms string | FetchRoom string | CreateRoom create_room_request
  | UpdateRoom string update_room_request | DeleteRoom string | FetchRoomMembers string
  | FetchRoomMember string string | AddRoomMember string string "int option"
  | RemoveRoomMember string string | UpdateRoomMember string string role
  | CreateInviteLink string "create_invite_link_request option" | JoinRoomViaInvite string | PopRoom string
  | FetchMessages string "string option" "string option" | FetchMessage string string
  | CreateMessage string create_message_request | UpdateMessage string string string
  | DeleteMessage string string
  | CreateAdminUser admin_create_user_input | UpdateAdminUserRole string string
  | DisableAdminUser string | RestoreAdminUser string | RevokeAdminSession string
  | DeleteAdminRoom string | AddAdminRoomMember string string "int option"
  | RemoveAdminRoomMember string string | DeleteAdminMessage string
  | FetchAdminUsers "params option" | FetchAdminSessions "params option" | FetchAdminAudit "params option"
  | FetchAdminRooms "params option" | FetchAdminMessages "params option" | FetchAdminRoomMembers string
  | FetchAdminUser string | UpdateAdminUser string admin_update_user_input | FetchAdminSession string
  | FetchAdminRoom string | UpdateAdminRoomMember string string "int option" | FetchAdminUserRooms string
  | FetchAdminStatsUsers | FetchAdminStatsSessions | FetchAdminStatsRooms | FetchAdminStatsMessages

fun perform_call :: "'w platform \<Rightarrow> rest_call \<Rightarrow> 'w call" where
  "perform_call pl (FetchRooms u) = fetchRooms pl u"
| "perform_call pl (FetchRoom i) = fetchRoom pl i"
| "perform_call pl (CreateRoom d) = createRoom pl d"
| "perform_call pl (UpdateRoom i d) = updateRoom pl i d"
| "perform_call pl (DeleteRoom i) = deleteRoom pl i"
| "perform_call pl (FetchRoomMembers r) = fetchRoomMembers pl r"
| "perform_call pl (FetchRoomMember r u) = fetchRoomMember pl r u"
| "perform_call pl (AddRoomMember r u l) = addRoomMember pl r u l"
| "perform_call pl (RemoveRoomMember r u) = removeRoomMember pl r u"
| "perform_call pl (UpdateRoomMember r u l) = updateRoomMember pl r u l"
| "perform_call pl (CreateInviteLink r d) = createInviteLink pl r d"
| "perform_call pl (JoinRoomViaInvite t) = joinRoomViaInvite pl t"
| "perform_call pl (PopRoom r) = popRoom pl r"
| "perform_call pl (FetchMessages r c a) = fetchMessages pl r c a"
| "perform_call pl (FetchMessage r m) = fetchMessage pl r m"
| "perform_call pl (CreateMessage r d) = createMessage pl r d"
| "perform_call pl (UpdateMessage r m c) = updateMessage pl r m c"
| "perform_call pl (DeleteMessage r m) = deleteMessage pl r m"
| "perform_call pl (CreateAdminUser d) = createAdminUser pl d"
| "perform_call pl (UpdateAdminUserRole i l) = updateAdminUserRole pl i l"
| "perform_call pl (DisableAdminUser i) = disableAdminUser pl i"
| "perform_call pl (RestoreAdminUser i) = restoreAdminUser pl i"
| "perform_call pl (RevokeAdminSession i) = revokeAdminSession pl i"
| "perform_call pl (DeleteAdminRoom i) = deleteAdminRoom pl i"
| "perform_call pl (AddAdminRoomMember r u l) = addAdminRoomMember pl r u l"
| "perform_call pl (RemoveAdminRoomMember r u) = removeAdminRoomMember pl r u"
| "perform_call pl (DeleteAdminMessage i) = deleteAdminMessage pl i"
| "perform_call pl (FetchAdminUsers p) = fetchAdminUsers pl p"
| "perform_call pl (FetchAdminSessions p) = fetchAdminSessions pl p"
| "perform_call pl (FetchAdminAudit p) = fetchAdminAudit pl p"
| "perform_call pl (FetchAdminRooms p) = fetchAdminRooms pl p"
| "perform_call pl (FetchAdminMessages p) = fetchAdminMessages pl p"
| "perform_call pl (FetchAdminRoomMembers r) = fetchAdminRoomMembers pl r"
| "perform_call pl (FetchAdminUser i) = fetchAdminUser pl i"
| "perform_call pl (UpdateAdminUser i d) = updateAdminUser pl i d"
| "perform_call pl (FetchAdminSession i) = fetchAdminSession pl i"
| "perform_call pl (FetchAdminRoom i) = fetchAdminRoom pl i"
| "perform_call pl (UpdateAdminRoomMember r u l) = updateAdminRoomMember pl r u l"
| "perform_call pl (FetchAdminUserRooms u) = fetchAdminUserRooms pl u"
| "perform_call pl FetchAdminStatsUsers = fetchAdminStatsUsers pl"
| "perform_call pl FetchAdminStatsSessions = fetchAdminStatsSessions pl"
| "perform_call pl FetchAdminStatsRooms = fetchAdminStatsRooms pl"
| "perform_call pl FetchAdminStatsMessages = fetchAdminStatsMessages pl"

text \<open>Method and endpoint of each call.\<close>

fun route :: "rest_call \<Rightarrow> string \<times> endpoint" where
  "route (FetchRooms u) = (''GET'', RoomsList u)"
| "route (FetchRoom i) = (''GET'', RoomsGet i)"
| "route (CreateRoom d) = (''POST'', RoomsCreate)"
| "route (UpdateRoom i d) = (''PUT'', RoomsUpdate i)"
| "route (DeleteRoom i) = (''DELETE'', RoomsDelete i)"
| "route (FetchRoomMembers r) = (''GET'', RoomsMembers r)"
| "route (FetchRoomMember r u) = (''GET'', RoomsMember r u)"
| "route (AddRoomMember r u l) = (''POST'', RoomsMembers r)"
| "route (RemoveRoomMember r u) = (''DELETE'', RoomsMember r u)"
| "route (UpdateRoomMember r u l) = (''PUT'', RoomsMember r u)"
| "route (CreateInviteLink r d) = (''POST'', RoomsInvite r)"
| "route (JoinRoomViaInvite t) = (''POST'', RoomsJoinInvite t)"
| "route (PopRoom r) = (''POST'', RoomsPop r)"
| "route (FetchMessages r c a) = (''GET'', ChatMessages r)"
| "route (FetchMessage r m) = (''GET'', ChatMessage r m)"
| "route (CreateMessage r d) = (''POST'', ChatMessages r)"
| "route (UpdateMessage r m c) = (''PUT'', ChatMessage r m)"
| "route (DeleteMessage r m) = (''DELETE'', ChatMessage r m)"
| "route (CreateAdminUser d) = (''POST'', AdminUsers)"
| "route (UpdateAdminUserRole i l) = (''PUT'', AdminUserRole i)"
| "route (DisableAdminUser i) = (''DELETE'', AdminUser i)"
| "route (RestoreAdminUser i) = (''POST'', AdminUserRestore i)"
| "route (RevokeAdminSession i) = (''DELETE'', AdminSession i)"
| "route (DeleteAdminRoom i) = (''DELETE'', AdminRoom i)"
| "route (AddAdminRoomMember r u l) = (''POST'', AdminRoomMembers r)"
| "route (RemoveAdminRoomMember r u) = (''DELETE'', AdminRoomMember r u)"
| "route (DeleteAdminMessage i) = (''DELETE'', AdminMessage i)"
| "route (FetchAdminUsers p) = (''GET'', AdminUsers)"
| "route (FetchAdminSessions p) = (''GET'', AdminSessions)"
| "route (FetchAdminAudit p) = (''GET'', AdminAudit)"
| "route (FetchAdminRooms p) = (''GET'', AdminRooms)"
| "route (FetchAdminMessages p) = (''GET'', AdminMessages)"
| "route (FetchAdminRoomMembers r) = (''GET'', AdminRoomMembers r)"
| "route (FetchAdminUser i) = (''GET'', AdminUser i)"
| "route (UpdateAdminUser i d) = (''PUT'', AdminUser i)"
| "route (FetchAdminSession i) = (''GET'', AdminSession i)"
| "route (FetchAdminRoom i) = (''GET'', AdminRoom i)"
| "route (UpdateAdminRoomMember r u l) = (''PUT'', AdminRoomMember r u)"
| "route (FetchAdminUserRooms u) = (''GET'', AdminUserRooms u)"
| "route FetchAdminStatsUsers = (''GET'', AdminStatsUsers)"
| "route FetchAdminStatsSessions = (''GET'', AdminStatsSessions)"
| "route FetchAdminStatsRooms = (''GET'', AdminStatsRooms)"
| "route FetchAdminStatsMessages = (''GET'', AdminStatsMessages)"

text \<open>Which entry of the table a route belongs to; two entries share neither method and path.\<close>

fun call_entry :: "rest_call \<Rightarrow> nat" where
  "call_entry (FetchRooms u) = 0"
| "call_entry (FetchRoom i) = 1"
| "call_entry (CreateRoom d) = 2"
| "call_entry (UpdateRoom i d) = 3"
| "call_entry (DeleteRoom i) = 4"
| "call_entry (FetchRoomMembers r) = 5"
| "call_entry (FetchRoomMember r u) = 6"
| "call_entry (AddRoomMember r u l) = 7"
| "call_entry (RemoveRoomMember r u) = 8"
| "call_entry (UpdateRoomMember r u l) = 9"
| "call_entry (CreateInviteLink r d) = 10"
| "call_entry (JoinRoomViaInvite t) = 11"
| "call_entry (PopRoom r) = 12"
| "call_entry (FetchMessages r c a) = 13"
| "call_entry (FetchMessage r m) = 14"
| "call_entry (CreateMessage r d) = 15"
| "call_entry (UpdateMessage r m c) = 16"
| "call_entry (DeleteMessage r m) = 17"
| "call_entry (CreateAdminUser d) = 18"
| "call_entry (UpdateAdminUserRole i l) = 19"
| "call_entry (DisableAdminUser i) = 20"
| "call_entry (RestoreAdminUser i) = 21"
| "call_entry (RevokeAdminSession i) = 22"
| "call_entry (DeleteAdminRoom i) = 23"
| "call_entry (AddAdminRoomMember r u l) = 24"
| "call_entry (RemoveAdminRoomMember r u) = 25"
| "call_entry (DeleteAdminMessage i) = 26"
| "call_entry (FetchAdminUsers p) = 27"
| "call_entry (FetchAdminSessions p) = 28"
| "call_entry (FetchAdminAudit p) = 29"
| "call_entry (FetchAdminRooms p) = 30"
| "call_entry (FetchAdminMessages p) = 31"
| "call_entry (FetchAdminRoomMembers r) = 32"
| "call_entry (FetchAdminUser i) = 33"
| "call_entry (UpdateAdminUser i d) = 34"
| "call_entry (FetchAdminSession i) = 35"
| "call_entry (FetchAdminRoom i) = 36"
| "call_entry (UpdateAdminRoomMember r u l) = 37"
| "call_entry (FetchAdminUserRooms u) = 38"
| "call_entry FetchAdminStatsUsers = 39"
| "call_entry FetchAdminStatsSessions = 40"
| "call_entry FetchAdminStatsRooms = 41"
| "call_entry FetchAdminStatsMessages = 42"

text \<open>The body of each call.\<close>

fun call_body :: "rest_call \<Rightarrow> json option" where
  "call_body (CreateRoom d) = Some (create_room_body d)"
| "call_body (UpdateRoom i d) = Some (update_room_body d)"
| "call_body (AddRoomMember r u l) = Some (member_body u l)"
| "call_body (UpdateRoomMember r u l) = Some (update_room_member_body l)"
| "call_body (CreateInviteLink r d) =
     Some (case d of Some d \<Rightarrow> create_invite_link_body d | None \<Rightarrow> JObj [])"
| "call_body (CreateMessage r d) = Some (create_message_body d)"
| "call_body (UpdateMessage r m c) = Some (update_message_body c)"
| "call_body (CreateAdminUser d) = Some (admin_create_user_body d)"
| "call_body (UpdateAdminUser i d) = Some (admin_update_user_body d)"
| "call_body (UpdateAdminUserRole i l) = Some (JObj [(''role'', JStr l)])"
| "call_body (AddAdminRoomMember r u l) = Some (member_body u l)"
| "call_body (UpdateAdminRoomMember r u l) = Some (jobject [(''role'', map_option JNum l)])"
| "call_body c = None"

lemma route_wire:
  "\<exists>ps. perform_call pl c = apiRequest pl (API_PATHS (snd (route c)))
     \<lparr>opt_method = Some (fst (route c)), opt_body = call_body c, opt_params = ps, opt_auth = None\<rparr>"
  by (cases c) (auto simp: rest_defs apiGet_def apiPost_def apiPut_def apiDelete_def)

lemma method_cases: "fst (route c) \<in> {''GET'', ''POST'', ''PUT'', ''DELETE''}"
  by (cases c) simp_all

lemma get_routes_differ:
  "fst (route c) = ''GET'' \<Longrightarrow> fst (route d) = ''GET''
   \<Longrightarrow> endpoint_segments (snd (route c)) = endpoint_segments (snd (route d)) \<Longrightarrow> call_entry c = call_entry d"
  by (cases c; simp; cases d; simp)

lemma post_routes_differ:
  "fst (route c) = ''POST'' \<Longrightarrow> fst (route d) = ''POST''
   \<Longrightarrow> endpoint_segments (snd (route c)) = endpoint_segments (snd (route d)) \<Longrightarrow> call_entry c = call_entry d"
  by (cases c; simp; cases d; simp)

lemma put_routes_differ:
  "fst (route c) = ''PUT'' \<Longrightarrow> fst (route d) = ''PUT''
   \<Longrightarrow> endpoint_segments (snd (route c)) = endpoint_segments (snd (route d)) \<Longrightarrow> call_entry c = call_entry d"
  by (cases c; simp; cases d; simp)

lemma delete_routes_differ:
  "fst (route c) = ''DELETE'' \<Longrightarrow> fst (route d) = ''DELETE''
   \<Longrightarrow> endpoint_segments (snd (route c)) = endpoint_segments (snd (route d)) \<Longrightarrow> call_entry c = call_entry d"
  by (cases c; simp; cases d; simp)

lemma call_routes_differ:
  "fst (route c) = fst (route d) \<Longrightarrow> endpoint_segments (snd (route c)) = endpoint_segments (snd (route d))
   \<Longrightarrow> call_entry c = call_entry d"
  using method_cases [of c] get_routes_differ post_routes_differ put_routes_differ delete_routes_differ
  by (metis empty_iff insert_iff)


section \<open>Properties\<close>

text \<open>Every network request of an API request is a refresh or the request itself.\<close>

lemma refresh_run_requests:
  "refresh_run nonce l t \<Longrightarrow> (rq, a) \<in> set l \<Longrightarrow> rq_url rq = ''/api/auth/refresh'' \<and> rq_method rq = ''POST''"
  by (auto simp: refresh_run_def carries_def dest!: exchange_ok)

lemma exchange_requests:
  "exchange n (carries url meth headers body) nonce l x \<Longrightarrow> (rq, a) \<in> set l
   \<Longrightarrow> rq_url rq = url \<and> rq_method rq = meth \<and> rq_body rq = body"
  by (auto simp: carries_def dest!: exchange_ok)

lemma authed_run_requests:
  assumes "authed_run url meth headers body nonce l r" and "(rq, a) \<in> set l"
  shows "rq_url rq = ''/api/auth/refresh'' \<and> rq_method rq = ''POST''
    \<or> rq_url rq = url \<and> rq_method rq = meth \<and> rq_body rq = body"
  using assms unfolding authed_run_def
  by (auto split: if_splits dest: exchange_requests refresh_run_requests)

lemma api_run_requests:
  assumes "api_run path options token nonce l r" and "opt_auth options \<noteq> Some False" and "(rq, a) \<in> set l"
  shows "rq_url rq = ''/api/auth/refresh'' \<and> rq_method rq = ''POST''
    \<or> rq_url rq = request_url path (opt_params options)
      \<and> rq_method rq = (case opt_method options of None \<Rightarrow> ''GET'' | Some m \<Rightarrow> m)
      \<and> rq_body rq = (if jtruthy (opt_body options) then map_option stringify (opt_body options) else None)"
proof -
  from api_run_authE [OF assms(1,2)] obtain l1 l2 t where l: "l = l1 @ l2"
    "l1 = [] \<or> refresh_run nonce l1 t" "run_args path options t (nonce_after l1 nonce) l2 r" by blast
  then show ?thesis
    using assms(3) refresh_run_requests authed_run_requests [OF l(3)] by fastforce
qed



end
