(* ===== verification/Query_Hooks.thy ===== *)
theory Query_Hooks
  imports Rest_Api
begin

text \<open>
  The query hooks: \<^verbatim>\<open>features/room/hooks/use-rooms.ts\<close> and
  \<^verbatim>\<open>features/admin/hooks/use-admin.ts\<close> under \<^verbatim>\<open>src/frontend/src\<close>. A query is what the
  hook hands to \<open>useQuery\<close> (key, function, enabled), a mutation what it hands to \<open>useMutation\<close>
  (function and the effects of its two callbacks). The query library itself is not modelled: which
  cached keys an invalidated key reaches is a parameter, assumed to be the documented prefix match.
\<close>


section \<open>Queries and mutations\<close>

datatype key_part = KStr string | KUndef | KParams params

type_synonym query_key = "key_part list"

datatype ui_effect =
    Invalidate query_key
  | ToastSuccess string
  | ToastFailure string

record 'w query =
  queryKey :: query_key
  queryFn :: "'w call"
  enabled :: bool

record ('v, 'w) mutation =
  mutationFn :: "'v \<Rightarrow> 'w call"
  onSuccess :: "ui_effect list"
  onFailure :: "js_error \<Rightarrow> ui_effect list"

text \<open>\<open>user?.id\<close> in a key, and the message of an error in a toast.\<close>

definition uid :: "user option \<Rightarrow> key_part" where
  "uid u = (case u of None \<Rightarrow> KUndef | Some v \<Rightarrow> KStr (user_id v))"

definition has_id :: "user option \<Rightarrow> bool" where
  "has_id u \<longleftrightarrow> truthy_ostr (map_option user_id u)"

definition toast_error :: "js_error \<Rightarrow> ui_effect list" where
  "toast_error err = [ToastFailure (getErrorMessage err)]"

abbreviation id_of :: "user option \<Rightarrow> string" where
  "id_of u \<equiv> user_id (the u)"


section \<open>use-rooms.ts\<close>

definition useRooms :: "'w platform \<Rightarrow> user option \<Rightarrow> bool \<Rightarrow> 'w query" where
  "useRooms pl u ro =
     \<lparr>queryKey = [KStr ''rooms'', uid u], queryFn = fetchRooms pl (id_of u), enabled = (has_id u \<and> \<not> ro)\<rparr>"

definition useRoom :: "'w platform \<Rightarrow> string \<Rightarrow> bool \<Rightarrow> 'w query" where
  "useRoom pl i ro =
     \<lparr>queryKey = [KStr ''room'', KStr i], queryFn = fetchRoom pl i, enabled = (truthy_str i \<and> \<not> ro)\<rparr>"

definition useCreateRoom :: "'w platform \<Rightarrow> user option \<Rightarrow> (create_room_request, 'w) mutation" where
  "useCreateRoom pl u =
     \<lparr>mutationFn = createRoom pl, onSuccess = [Invalidate [KStr ''rooms'', uid u]], onFailure = toast_error\<rparr>"

definition useUpdateRoom :: "'w platform \<Rightarrow> user option \<Rightarrow> string \<Rightarrow> (update_room_request, 'w) mutation" where
  "useUpdateRoom pl u i =
     \<lparr>mutationFn = updateRoom pl i,
      onSuccess = [Invalidate [KStr ''room'', KStr i], Invalidate [KStr ''rooms'', uid u]],
      onFailure = toast_error\<rparr>"

definition useDeleteRoom :: "'w platform \<Rightarrow> user option \<Rightarrow> string \<Rightarrow> (unit, 'w) mutation" where
  "useDeleteRoom pl u i =
     \<lparr>mutationFn = (\<lambda>_. deleteRoom pl i), onSuccess = [Invalidate [KStr ''rooms'', uid u]],
      onFailure = toast_error\<rparr>"

definition useCreateInviteLink ::
    "'w platform \<Rightarrow> string \<Rightarrow> (create_invite_link_request option, 'w) mutation" where
  "useCreateInviteLink pl roomId =
     \<lparr>mutationFn = createInviteLink pl roomId, onSuccess = [], onFailure = toast_error\<rparr>"

definition memberQuery :: "'w platform \<Rightarrow> string \<Rightarrow> user option \<Rightarrow> bool \<Rightarrow> 'w query" where
  "memberQuery pl roomId u ro =
     \<lparr>queryKey = [KStr ''roomMember'', KStr roomId, uid u], queryFn = fetchRoomMember pl roomId (id_of u),
      enabled = (truthy_str roomId \<and> has_id u \<and> \<not> ro)\<rparr>"

text \<open>
  \<open>isOwner || data?.data?.role === Role.ADMIN\<close>, from the room and the membership as far as they are
  loaded: the comparison of owner and user compares two values that may both be undefined.
\<close>

definition useIsAdmin :: "room option \<Rightarrow> room_member option \<Rightarrow> user option \<Rightarrow> bool" where
  "useIsAdmin roomData memberData u =
     (let isOwner = (map_option room_owner_id roomData = map_option user_id u)
      in isOwner \<or> map_option mem_role memberData = Some ADMIN)"

definition useRoomMembers :: "'w platform \<Rightarrow> string \<Rightarrow> bool \<Rightarrow> 'w query" where
  "useRoomMembers pl roomId ro =
     \<lparr>queryKey = [KStr ''roomMembers'', KStr roomId], queryFn = fetchRoomMembers pl roomId,
      enabled = (truthy_str roomId \<and> \<not> ro)\<rparr>"

definition useJoinRoomViaInvite :: "'w platform \<Rightarrow> user option \<Rightarrow> (string, 'w) mutation" where
  "useJoinRoomViaInvite pl u =
     \<lparr>mutationFn = joinRoomViaInvite pl, onSuccess = [Invalidate [KStr ''rooms'', uid u]],
      onFailure = toast_error\<rparr>"

definition usePopRoom :: "'w platform \<Rightarrow> user option \<Rightarrow> string \<Rightarrow> (unit, 'w) mutation" where
  "usePopRoom pl u roomId =
     \<lparr>mutationFn = (\<lambda>_. popRoom pl roomId),
      onSuccess = [Invalidate [KStr ''room'', KStr roomId], Invalidate [KStr ''rooms'', uid u]],
      onFailure = toast_error\<rparr>"

definition useUpdateRoomMember :: "'w platform \<Rightarrow> string \<Rightarrow> (string \<times> role, 'w) mutation" where
  "useUpdateRoomMember pl roomId =
     \<lparr>mutationFn = (\<lambda>(userId, rl). updateRoomMember pl roomId userId rl),
      onSuccess = [Invalidate [KStr ''roomMembers'', KStr roomId]], onFailure = toast_error\<rparr>"

definition useRemoveRoomMember :: "'w platform \<Rightarrow> user option \<Rightarrow> string \<Rightarrow> (string, 'w) mutation" where
  "useRemoveRoomMember pl u roomId =
     \<lparr>mutationFn = removeRoomMember pl roomId,
      onSuccess = [Invalidate [KStr ''roomMembers'', KStr roomId], Invalidate [KStr ''rooms'', uid u]],
      onFailure = toast_error\<rparr>"


section \<open>use-admin.ts\<close>

text \<open>The parameters of a list are part of its key: \<open>params ?? {}\<close>.\<close>

definition params_key :: "params option \<Rightarrow> key_part" where
  "params_key ps = KParams (case ps of None \<Rightarrow> [] | Some p \<Rightarrow> p)"

definition admin_key :: "string \<Rightarrow> query_key" where
  "admin_key entity = [KStr ''admin'', KStr entity]"

definition admin_mutation :: "('v \<Rightarrow> 'w call) \<Rightarrow> string \<Rightarrow> query_key \<Rightarrow> ('v, 'w) mutation" where
  "admin_mutation fn note_text k =
     \<lparr>mutationFn = fn, onSuccess = [ToastSuccess note_text, Invalidate k], onFailure = toast_error\<rparr>"

definition useAdminUsers :: "'w platform \<Rightarrow> params option \<Rightarrow> 'w query" where
  "useAdminUsers pl ps =
     \<lparr>queryKey = admin_key ''users'' @ [params_key ps], queryFn = fetchAdminUsers pl ps, enabled = True\<rparr>"

definition useCreateAdminUser :: "'w platform \<Rightarrow> (admin_create_user_input, 'w) mutation" where
  "useCreateAdminUser pl = admin_mutation (createAdminUser pl) ''User created'' (admin_key ''users'')"

definition useUpdateAdminUserRole :: "'w platform \<Rightarrow> string \<Rightarrow> (string, 'w) mutation" where
  "useUpdateAdminUserRole pl i =
     admin_mutation (updateAdminUserRole pl i) ''Role updated'' (admin_key ''users'')"

definition useDisableAdminUser :: "'w platform \<Rightarrow> string \<Rightarrow> (unit, 'w) mutation" where
  "useDisableAdminUser pl i =
     admin_mutation (\<lambda>_. disableAdminUser pl i) ''User disabled'' (admin_key ''users'')"

definition useRestoreAdminUser :: "'w platform \<Rightarrow> string \<Rightarrow> (unit, 'w) mutation" where
  "useRestoreAdminUser pl i =
     admin_mutation (\<lambda>_. restoreAdminUser pl i) ''User restored'' (admin_key ''users'')"

definition useAdminSessions :: "'w platform \<Rightarrow> params option \<Rightarrow> 'w query" where
  "useAdminSessions pl ps =
     \<lparr>queryKey = admin_key ''sessions'' @ [params_key ps], queryFn = fetchAdminSessions pl ps, enabled = True\<rparr>"

definition useRevokeAdminSession :: "'w platform \<Rightarrow> string \<Rightarrow> (unit, 'w) mutation" where
  "useRevokeAdminSession pl i =
     admin_mutation (\<lambda>_. revokeAdminSession pl i) ''Session revoked'' (admin_key ''sessions'')"

definition useAdminAudit :: "'w platform \<Rightarrow> params option \<Rightarrow> 'w query" where
  "useAdminAudit pl ps =
     \<lparr>queryKey = admin_key ''audit'' @ [params_key ps], queryFn = fetchAdminAudit pl ps, enabled = True\<rparr>"

definition useAdminRooms :: "'w platform \<Rightarrow> params option \<Rightarrow> 'w query" where
  "useAdminRooms pl ps =
     \<lparr>queryKey = admin_key ''rooms'' @ [params_key ps], queryFn = fetchAdminRooms pl ps, enabled = True\<rparr>"

definition useDeleteAdminRoom :: "'w platform \<Rightarrow> string \<Rightarrow> (unit, 'w) mutation" where
  "useDeleteAdminRoom pl i =
     admin_mutation (\<lambda>_. deleteAdminRoom pl i) ''Room deleted'' (admin_key ''rooms'')"

definition useAdminRoomMembers :: "'w platform \<Rightarrow> string \<Rightarrow> 'w query" where
  "useAdminRoomMembers pl roomId =
     \<lparr>queryKey = admin_key ''room-members'' @ [KStr roomId], queryFn = fetchAdminRoomMembers pl roomId,
      enabled = truthy_str roomId\<rparr>"

definition useAddAdminRoomMember :: "'w platform \<Rightarrow> string \<Rightarrow> (string \<times> int option, 'w) mutation" where
  "useAddAdminRoomMember pl roomId =
     admin_mutation (\<lambda>(userId, rl). addAdminRoomMember pl roomId userId rl) ''Member added''
       (admin_key ''room-members'' @ [KStr roomId])"

definition useRemoveAdminRoomMember :: "'w platform \<Rightarrow> string \<Rightarrow> (string, 'w) mutation" where
  "useRemoveAdminRoomMember pl roomId =
     admin_mutation (removeAdminRoomMember pl roomId) ''Member removed''
       (admin_key ''room-members'' @ [KStr roomId])"

definition useAdminMessages :: "'w platform \<Rightarrow> params option \<Rightarrow> 'w query" where
  "useAdminMessages pl ps =
     \<lparr>queryKey = admin_key ''messages'' @ [params_key ps], queryFn = fetchAdminMessages pl ps, enabled = True\<rparr>"

definition useDeleteAdminMessage :: "'w platform \<Rightarrow> string \<Rightarrow> (unit, 'w) mutation" where
  "useDeleteAdminMessage pl i =
     admin_mutation (\<lambda>_. deleteAdminMessage pl i) ''Message deleted'' (admin_key ''messages'')"

definition useAdminStats :: "'w platform \<Rightarrow> 'w query list" where
  "useAdminStats pl =
     (let stat = (\<lambda>what fn. \<lparr>queryKey = [KStr ''admin'', KStr ''stats'', KStr what], queryFn = fn, enabled = True\<rparr>)
      in [stat ''users'' (fetchAdminStatsUsers pl), stat ''sessions'' (fetchAdminStatsSessions pl),
          stat ''rooms'' (fetchAdminStatsRooms pl), stat ''messages'' (fetchAdminStatsMessages pl)])"

lemmas hook_defs = useRooms_def useRoom_def useCreateRoom_def useUpdateRoom_def useDeleteRoom_def
  useCreateInviteLink_def memberQuery_def useRoomMembers_def useJoinRoomViaInvite_def usePopRoom_def
  useUpdateRoomMember_def useRemoveRoomMember_def useAdminUsers_def useCreateAdminUser_def
  useUpdateAdminUserRole_def useDisableAdminUser_def useRestoreAdminUser_def useAdminSessions_def
  useRevokeAdminSession_def useAdminAudit_def useAdminRooms_def useDeleteAdminRoom_def
  useAdminRoomMembers_def useAddAdminRoomMember_def useRemoveAdminRoomMember_def useAdminMessages_def
  useDeleteAdminMessage_def useAdminStats_def admin_mutation_def admin_key_def


section \<open>The contract of a mutation\<close>

text \<open>
  The cached keys a list of effects makes stale, for a given matching of keys. The documented
  matching: a key reaches every key it is a prefix of, and a string in it has to stand at the same
  place of the key it reaches.
\<close>

definition made_stale :: "(query_key \<Rightarrow> query_key \<Rightarrow> bool) \<Rightarrow> ui_effect list \<Rightarrow> query_key set" where
  "made_stale matches effects = {q. \<exists>k. Invalidate k \<in> set effects \<and> matches k q}"

definition prefix_matching :: "(query_key \<Rightarrow> query_key \<Rightarrow> bool) \<Rightarrow> bool" where
  "prefix_matching matches \<longleftrightarrow>
     (\<forall>k q. take (length k) q = k \<longrightarrow> matches k q)
     \<and> (\<forall>k q i t. matches k q \<and> i < length k \<and> k ! i = KStr t \<longrightarrow> i < length q \<and> q ! i = KStr t)"

text \<open>
  What the pages rely on: after a success every query the change affects is stale, after a failure the
  user sees one message, that of the error, and nothing is refetched.
\<close>

locale mutation_contract =
  fixes matches :: "query_key \<Rightarrow> query_key \<Rightarrow> bool"
    and m :: "('v, 'w) mutation"
    and affected :: "query_key set"
  assumes covers: "prefix_matching matches \<Longrightarrow> affected \<subseteq> made_stale matches (onSuccess m)"
    and one_toast: "onFailure m = toast_error"
begin

lemma stale:
  "prefix_matching matches \<Longrightarrow> q \<in> affected \<Longrightarrow> q \<in> made_stale matches (onSuccess m)"
  using covers by blast

lemma failure_changes_nothing:
  "made_stale matches (onFailure m e) = {} \<and> onFailure m e = [ToastFailure (getErrorMessage e)]"
  by (simp add: one_toast toast_error_def made_stale_def)

end

lemma made_staleI:
  "prefix_matching matches \<Longrightarrow> Invalidate k \<in> set es \<Longrightarrow> take (length k) q = k \<Longrightarrow> q \<in> made_stale matches es"
  by (auto simp: made_stale_def prefix_matching_def)

lemma first_part_matches:
  assumes "prefix_matching matches" and "matches (KStr t # k) q"
  shows "take 1 q = [KStr t]"
proof -
  have "0 < length q \<and> q ! 0 = KStr t"
    using assms unfolding prefix_matching_def by (metis length_greater_0_conv list.distinct(1) nth_Cons_0)
  then show ?thesis by (cases q) auto
qed

interpretation create_room: mutation_contract matches "useCreateRoom pl u"
    "{queryKey (useRooms pl u ro) | ro. True}"
  for matches pl u
  by unfold_locales (auto simp: hook_defs intro: made_staleI)

interpretation update_room: mutation_contract matches "useUpdateRoom pl u i"
    "{queryKey (useRooms pl u ro) | ro. True} \<union> {queryKey (useRoom pl i ro) | ro. True}"
  for matches pl u i
  by unfold_locales (auto simp: hook_defs intro: made_staleI)

interpretation pop_room: mutation_contract matches "usePopRoom pl u i"
    "{queryKey (useRooms pl u ro) | ro. True} \<union> {queryKey (useRoom pl i ro) | ro. True}"
  for matches pl u i
  by unfold_locales (auto simp: hook_defs intro: made_staleI)

interpretation delete_room: mutation_contract matches "useDeleteRoom pl u i"
    "{queryKey (useRooms pl u ro) | ro. True}"
  for matches pl u i
  by unfold_locales (auto simp: hook_defs intro: made_staleI)

interpretation join_room: mutation_contract matches "useJoinRoomViaInvite pl u"
    "{queryKey (useRooms pl u ro) | ro. True}"
  for matches pl u
  by unfold_locales (auto simp: hook_defs intro: made_staleI)

interpretation remove_member: mutation_contract matches "useRemoveRoomMember pl u r"
    "{queryKey (useRooms pl u ro) | ro. True} \<union> {queryKey (useRoomMembers pl r ro) | ro. True}"
  for matches pl u r
  by unfold_locales (auto simp: hook_defs intro: made_staleI)

interpretation update_member: mutation_contract matches "useUpdateRoomMember pl r"
    "{queryKey (useRoomMembers pl r ro) | ro. True}"
  for matches pl r
  by unfold_locales (auto simp: hook_defs intro: made_staleI)

interpretation create_user: mutation_contract matches "useCreateAdminUser pl"
    "{queryKey (useAdminUsers pl ps) | ps. True}"
  for matches pl
  by unfold_locales (auto simp: hook_defs intro: made_staleI)

interpretation disable_user: mutation_contract matches "useDisableAdminUser pl i"
    "{queryKey (useAdminUsers pl ps) | ps. True}"
  for matches pl i
  by unfold_locales (auto simp: hook_defs intro: made_staleI)

interpretation restore_user: mutation_contract matches "useRestoreAdminUser pl i"
    "{queryKey (useAdminUsers pl ps) | ps. True}"
  for matches pl i
  by unfold_locales (auto simp: hook_defs intro: made_staleI)

interpretation user_role: mutation_contract matches "useUpdateAdminUserRole pl i"
    "{queryKey (useAdminUsers pl ps) | ps. True}"
  for matches pl i
  by unfold_locales (auto simp: hook_defs intro: made_staleI)

interpretation revoke_session: mutation_contract matches "useRevokeAdminSession pl i"
    "{queryKey (useAdminSessions pl ps) | ps. True}"
  for matches pl i
  by unfold_locales (auto simp: hook_defs intro: made_staleI)

interpretation delete_admin_room: mutation_contract matches "useDeleteAdminRoom pl i"
    "{queryKey (useAdminRooms pl ps) | ps. True}"
  for matches pl i
  by unfold_locales (auto simp: hook_defs intro: made_staleI)

interpretation add_admin_member: mutation_contract matches "useAddAdminRoomMember pl r"
    "{queryKey (useAdminRoomMembers pl r)}"
  for matches pl r
  by unfold_locales (auto simp: hook_defs intro: made_staleI)

interpretation remove_admin_member: mutation_contract matches "useRemoveAdminRoomMember pl r"
    "{queryKey (useAdminRoomMembers pl r)}"
  for matches pl r
  by unfold_locales (auto simp: hook_defs intro: made_staleI)

interpretation delete_admin_message: mutation_contract matches "useDeleteAdminMessage pl i"
    "{queryKey (useAdminMessages pl ps) | ps. True}"
  for matches pl i
  by unfold_locales (auto simp: hook_defs intro: made_staleI)


section \<open>Properties\<close>

definition by_prefix :: "query_key \<Rightarrow> query_key \<Rightarrow> bool" where
  "by_prefix k q \<longleftrightarrow> take (length k) q = k"

lemma by_prefix_matching: "prefix_matching by_prefix"
  unfolding prefix_matching_def by_prefix_def by (metis length_take min_less_iff_conj nth_take)

text \<open>
  Every change an administrator makes refreshes every list it shows up in, with whatever search
  parameters and page the list was fetched; a change that fails refetches nothing and shows exactly one
  message, that of the server.
\<close>

theorem admin_mutations_refresh:
  assumes "prefix_matching matches"
  shows "queryKey (useAdminUsers pl ps) \<in> made_stale matches (onSuccess (useCreateAdminUser pl))
    \<and> queryKey (useAdminUsers pl ps) \<in> made_stale matches (onSuccess (useUpdateAdminUserRole pl i))
    \<and> queryKey (useAdminUsers pl ps) \<in> made_stale matches (onSuccess (useDisableAdminUser pl i))
    \<and> queryKey (useAdminUsers pl ps) \<in> made_stale matches (onSuccess (useRestoreAdminUser pl i))
    \<and> queryKey (useAdminSessions pl ps) \<in> made_stale matches (onSuccess (useRevokeAdminSession pl i))
    \<and> queryKey (useAdminRooms pl ps) \<in> made_stale matches (onSuccess (useDeleteAdminRoom pl i))
    \<and> queryKey (useAdminRoomMembers pl i) \<in> made_stale matches (onSuccess (useAddAdminRoomMember pl i))
    \<and> queryKey (useAdminRoomMembers pl i) \<in> made_stale matches (onSuccess (useRemoveAdminRoomMember pl i))
    \<and> queryKey (useAdminMessages pl ps) \<in> made_stale matches (onSuccess (useDeleteAdminMessage pl i))
    \<and> made_stale matches (onFailure (useDeleteAdminRoom pl i) e) = {}
    \<and> onFailure (useDeleteAdminRoom pl i) e = [ToastFailure (getErrorMessage e)]"
  by (intro conjI create_user.stale [OF assms] user_role.stale [OF assms] disable_user.stale [OF assms]
      restore_user.stale [OF assms] revoke_session.stale [OF assms] delete_admin_room.stale [OF assms]
      add_admin_member.stale [OF assms] remove_admin_member.stale [OF assms]
      delete_admin_message.stale [OF assms])
    (rule delete_admin_room.failure_changes_nothing [THEN conjunct1]
      delete_admin_room.failure_changes_nothing [THEN conjunct2] | blast)+

theorem admin_mutations_refresh_witness:
  "queryKey (useAdminUsers sample_platform (Some [(''search'', Some (PStr ''ada''))]))
     \<in> made_stale by_prefix (onSuccess (useCreateAdminUser sample_platform))"
  using admin_mutations_refresh [OF by_prefix_matching] by blast

text \<open>
  Every change a member makes to rooms refreshes the room list, and the open room or its member
  list where the change concerns them; joining, leaving and popping included. Two reads stay stale: the
  membership the administrator check is computed from after a role change or a removal, and the room
  itself after its deletion.
\<close>

theorem room_mutations_refresh:
  assumes "prefix_matching matches"
  shows "queryKey (useRooms pl u ro) \<in> made_stale matches (onSuccess (useCreateRoom pl u))
    \<and> {queryKey (useRooms pl u ro), queryKey (useRoom pl i ro)}
        \<subseteq> made_stale matches (onSuccess (useUpdateRoom pl u i)) \<inter> made_stale matches (onSuccess (usePopRoom pl u i))
    \<and> queryKey (useRooms pl u ro) \<in> made_stale matches (onSuccess (useDeleteRoom pl u i))
        \<inter> made_stale matches (onSuccess (useJoinRoomViaInvite pl u))
    \<and> {queryKey (useRooms pl u ro), queryKey (useRoomMembers pl i ro)}
        \<subseteq> made_stale matches (onSuccess (useRemoveRoomMember pl u i))
    \<and> queryKey (useRoomMembers pl i ro) \<in> made_stale matches (onSuccess (useUpdateRoomMember pl i))
    \<and> queryKey (memberQuery pl i u ro) \<notin> made_stale matches (onSuccess (useUpdateRoomMember pl i))
        \<union> made_stale matches (onSuccess (useRemoveRoomMember pl u i))
    \<and> queryKey (useRoom pl i ro) \<notin> made_stale matches (onSuccess (useDeleteRoom pl u i))"
proof -
  have stale: "queryKey (memberQuery pl i u ro) \<notin> made_stale matches (onSuccess (useUpdateRoomMember pl i))
        \<union> made_stale matches (onSuccess (useRemoveRoomMember pl u i))"
    "queryKey (useRoom pl i ro) \<notin> made_stale matches (onSuccess (useDeleteRoom pl u i))"
    using first_part_matches [OF assms] by (fastforce simp: made_stale_def hook_defs)+
  have fresh: "queryKey (useRooms pl u ro) \<in> made_stale matches (onSuccess (useCreateRoom pl u))"
    "queryKey (useRooms pl u ro) \<in> made_stale matches (onSuccess (useUpdateRoom pl u i))"
    "queryKey (useRoom pl i ro) \<in> made_stale matches (onSuccess (useUpdateRoom pl u i))"
    "queryKey (useRooms pl u ro) \<in> made_stale matches (onSuccess (usePopRoom pl u i))"
    "queryKey (useRoom pl i ro) \<in> made_stale matches (onSuccess (usePopRoom pl u i))"
    "queryKey (useRooms pl u ro) \<in> made_stale matches (onSuccess (useDeleteRoom pl u i))"
    "queryKey (useRooms pl u ro) \<in> made_stale matches (onSuccess (useJoinRoomViaInvite pl u))"
    "queryKey (useRooms pl u ro) \<in> made_stale matches (onSuccess (useRemoveRoomMember pl u i))"
    "queryKey (useRoomMembers pl i ro) \<in> made_stale matches (onSuccess (useRemoveRoomMember pl u i))"
    "queryKey (useRoomMembers pl i ro) \<in> made_stale matches (onSuccess (useUpdateRoomMember pl i))"
    by (rule create_room.stale [OF assms] update_room.stale [OF assms] pop_room.stale [OF assms]
        delete_room.stale [OF assms] join_room.stale [OF assms] remove_member.stale [OF assms]
        update_member.stale [OF assms], blast)+
  with stale show ?thesis by simp
qed

theorem room_mutations_refresh_witness:
  "queryKey (useRooms sample_platform (Some sample_user) False)
     \<in> made_stale by_prefix (onSuccess (useCreateRoom sample_platform (Some sample_user)))"
  using room_mutations_refresh [OF by_prefix_matching] by blast

text \<open>
  The administrator check is right once the room is loaded: it holds exactly for the owner and for
  members with the administrator role. Before that it is not: without a user and before the room is
  loaded both sides of the owner comparison are undefined, and the visitor counts as administrator.
\<close>

theorem useIsAdmin_correct:
  "(useIsAdmin (Some r) memberData (Some u) \<longleftrightarrow>
     room_owner_id r = user_id u \<or> map_option mem_role memberData = Some ADMIN) \<and> useIsAdmin None None None"
  by (auto simp: useIsAdmin_def Let_def)

end
