(* ===== verification/Request_Gate.thy ===== *)
theory Request_Gate
  imports Api_Client
begin

text \<open>
  Concurrency in \<^verbatim>\<open>src/frontend/src/lib/api-client.ts\<close>: the promise chain \<open>dpopGate\<close> through
  which every \<open>doFetch\<close> runs, and the shared \<open>refreshPromise\<close>. The state is what the module keeps,
  with one phase per body handed to \<open>withDPoPGate\<close>; a step is one event: a call, the start of a body
  when its predecessor in the chain has settled, an answer of the network, a rejection (of the network
  or of making the proof), or the end of the refresh that callers share. Between two awaits JavaScript runs one step at a time, so the
  interleavings of callers are the sequences of these steps.
\<close>


section \<open>The machine\<close>

text \<open>A body of the gate: not started, waiting for an answer to its n-th retry, or settled.\<close>

datatype phase =
    Waiting
  | InFlight "string option" nat
  | Settled "js_error + response"

text \<open>
  \<open>refresh_job\<close> is the refresh that \<open>refreshPromise\<close> stands for and \<open>waiters\<close> the callers that await
  it. \<open>answered\<close>, \<open>refreshes\<close> and \<open>resolved\<close> are history: the nonces of the requests that got an
  answer, the jobs that were refreshes, and the tokens callers were given.
\<close>

record gate =
  jobs :: "phase list"
  gate_nonce :: "string option"
  gate_token :: "string option"
  refresh_job :: "nat option"
  waiters :: "nat list"
  answered :: "string option list"
  refreshes :: "nat list"
  resolved :: "(nat \<times> string option) list"

datatype gate_event =
    Request
  | Refresh nat
  | Start nat
  | Respond nat response
  | Break nat js_error
  | FinishRefresh
  | SetToken "string option"

fun is_settled :: "phase \<Rightarrow> bool" where
  "is_settled (Settled x) = True"
| "is_settled _ = False"

text \<open>A body may start when its predecessor has settled, in either way: \<open>dpopGate.then(fn, fn)\<close>.\<close>

definition may_start :: "phase list \<Rightarrow> nat \<Rightarrow> bool" where
  "may_start js i \<longleftrightarrow> i < length js \<and> js ! i = Waiting \<and> (i = 0 \<or> is_settled (js ! (i - 1)))"

text \<open>After an answer to attempt \<open>a\<close>: retry with the challenge nonce, or settle.\<close>

definition after_answer :: "response \<Rightarrow> nat \<Rightarrow> phase" where
  "after_answer res a =
     (if a < 2 \<and> isUseNonceResponse res \<and> truthy_ostr (rs_nonce res)
      then InFlight (rs_nonce res) (a + 1) else Settled (Inr res))"

definition captured :: "response \<Rightarrow> string option \<Rightarrow> string option" where
  "captured res nonce = (if truthy_ostr (rs_nonce res) then rs_nonce res else nonce)"

inductive gate_step :: "gate \<Rightarrow> gate_event \<Rightarrow> gate \<Rightarrow> bool" where
  request: "gate_step s Request (s\<lparr>jobs := jobs s @ [Waiting]\<rparr>)"
| refresh_join: "refresh_job s = Some j \<Longrightarrow>
    gate_step s (Refresh c) (s\<lparr>waiters := waiters s @ [c]\<rparr>)"
| refresh_new: "refresh_job s = None \<Longrightarrow>
    gate_step s (Refresh c)
      (s\<lparr>jobs := jobs s @ [Waiting], refresh_job := Some (length (jobs s)), waiters := [c],
         refreshes := refreshes s @ [length (jobs s)]\<rparr>)"
| start: "may_start (jobs s) i \<Longrightarrow>
    gate_step s (Start i) (s\<lparr>jobs := (jobs s)[i := InFlight (gate_nonce s) 0]\<rparr>)"
| respond: "i < length (jobs s) \<Longrightarrow> jobs s ! i = InFlight n a \<Longrightarrow>
    gate_step s (Respond i res)
      (s\<lparr>jobs := (jobs s)[i := after_answer res a], gate_nonce := captured res (gate_nonce s),
         answered := answered s @ [n]\<rparr>)"
| break: "i < length (jobs s) \<Longrightarrow> jobs s ! i = InFlight n a \<Longrightarrow>
    gate_step s (Break i m) (s\<lparr>jobs := (jobs s)[i := Settled (Inl m)]\<rparr>)"
| finish_refresh: "refresh_job s = Some j \<Longrightarrow> j < length (jobs s) \<Longrightarrow> jobs s ! j = Settled x \<Longrightarrow>
    gate_step s FinishRefresh
      (s\<lparr>gate_token := refresh_outcome x, refresh_job := None, waiters := [],
         resolved := resolved s @ map (\<lambda>c. (c, refresh_outcome x)) (waiters s)\<rparr>)"
| set_token: "gate_step s (SetToken t) (s\<lparr>gate_token := t\<rparr>)"

inductive_cases gate_stepE: "gate_step s e t"

definition gate_init :: "gate \<Rightarrow> bool" where
  "gate_init s \<longleftrightarrow> jobs s = [] \<and> refresh_job s = None \<and> waiters s = [] \<and> answered s = []
     \<and> refreshes s = [] \<and> resolved s = []"

text \<open>The same machine as a function, to run it.\<close>

fun gate_next :: "gate \<Rightarrow> gate_event \<Rightarrow> gate option" where
  "gate_next s Request = Some (s\<lparr>jobs := jobs s @ [Waiting]\<rparr>)"
| "gate_next s (Refresh c) =
     (case refresh_job s of
        Some j \<Rightarrow> Some (s\<lparr>waiters := waiters s @ [c]\<rparr>)
      | None \<Rightarrow> Some (s\<lparr>jobs := jobs s @ [Waiting], refresh_job := Some (length (jobs s)),
                      waiters := [c], refreshes := refreshes s @ [length (jobs s)]\<rparr>))"
| "gate_next s (Start i) =
     (if may_start (jobs s) i
      then Some (s\<lparr>jobs := (jobs s)[i := InFlight (gate_nonce s) 0]\<rparr>) else None)"
| "gate_next s (Respond i res) =
     (if i < length (jobs s)
      then (case jobs s ! i of
              InFlight n a \<Rightarrow>
                Some (s\<lparr>jobs := (jobs s)[i := after_answer res a],
                        gate_nonce := captured res (gate_nonce s), answered := answered s @ [n]\<rparr>)
            | _ \<Rightarrow> None)
      else None)"
| "gate_next s (Break i m) =
     (if i < length (jobs s)
      then (case jobs s ! i of
              InFlight n a \<Rightarrow> Some (s\<lparr>jobs := (jobs s)[i := Settled (Inl m)]\<rparr>)
            | _ \<Rightarrow> None)
      else None)"
| "gate_next s FinishRefresh =
     (case refresh_job s of None \<Rightarrow> None
      | Some j \<Rightarrow>
          if j < length (jobs s)
          then (case jobs s ! j of
                  Settled x \<Rightarrow>
                    Some (s\<lparr>gate_token := refresh_outcome x, refresh_job := None, waiters := [],
                            resolved := resolved s @ map (\<lambda>c. (c, refresh_outcome x)) (waiters s)\<rparr>)
                | _ \<Rightarrow> None)
          else None)"
| "gate_next s (SetToken t) = Some (s\<lparr>gate_token := t\<rparr>)"

lemma gate_step_next: "gate_step s e t \<longleftrightarrow> gate_next s e = Some t"
proof
  show "gate_step s e t \<Longrightarrow> gate_next s e = Some t"
    by (erule gate_stepE) simp_all
  show "gate_next s e = Some t \<Longrightarrow> gate_step s e t"
    by (cases e) (auto intro: gate_step.intros split: option.splits if_splits phase.splits)
qed

fun gate_run :: "gate \<Rightarrow> gate_event list \<Rightarrow> gate option" where
  "gate_run s [] = Some s"
| "gate_run s (e # es) = Option.bind (gate_next s e) (\<lambda>t. gate_run t es)"

lemma gate_run_run: "run gate_step s es t \<longleftrightarrow> gate_run s es = Some t"
  by (induction es arbitrary: s) (auto simp: run_Cons_iff gate_step_next bind_eq_Some_conv)


section \<open>Mutual exclusion\<close>

text \<open>
  The chain is first come, first served: nothing after an unsettled body has started. A body in
  flight carries the current nonce. The refresh that callers share is the only unsettled one.
\<close>

definition chain_inv :: "phase list \<Rightarrow> bool" where
  "chain_inv js \<longleftrightarrow> (\<forall>j < length js. js ! j \<noteq> Waiting \<longrightarrow> (\<forall>i < j. is_settled (js ! i)))"

fun carries_now :: "string option \<Rightarrow> phase \<Rightarrow> bool" where
  "carries_now nonce (InFlight n a) \<longleftrightarrow> n = nonce \<and> a \<le> 2"
| "carries_now nonce _ \<longleftrightarrow> True"

definition nonce_inv :: "gate \<Rightarrow> bool" where
  "nonce_inv s \<longleftrightarrow> (\<forall>p \<in> set (jobs s). carries_now (gate_nonce s) p)"

definition only_refresh :: "phase list \<Rightarrow> nat option \<Rightarrow> nat list \<Rightarrow> bool" where
  "only_refresh js shared all_refreshes \<longleftrightarrow>
     (\<forall>j \<in> set all_refreshes. j < length js \<and> (\<not> is_settled (js ! j) \<longrightarrow> shared = Some j))
     \<and> (\<forall>j. shared = Some j \<longrightarrow> j \<in> set all_refreshes)"

definition refresh_inv :: "gate \<Rightarrow> bool" where
  "refresh_inv s \<longleftrightarrow> only_refresh (jobs s) (refresh_job s) (refreshes s)
     \<and> (refresh_job s = None \<longleftrightarrow> waiters s = [])"

definition gate_inv :: "gate \<Rightarrow> bool" where
  "gate_inv s \<longleftrightarrow> chain_inv (jobs s) \<and> nonce_inv s \<and> refresh_inv s"

lemma chain_append: "chain_inv js \<Longrightarrow> chain_inv (js @ [Waiting])"
  by (auto simp: chain_inv_def nth_append)

lemma chain_update:
  assumes "chain_inv js" and "i < length js" and "\<not> is_settled (js ! i)"
    and "\<forall>k < i. is_settled (js ! k)"
  shows "chain_inv (js[i := p])"
  unfolding chain_inv_def
proof (intro allI impI)
  fix j k assume j: "j < length (js[i := p])" "js[i := p] ! j \<noteq> Waiting" and k: "k < j"
  consider "j < i" | "j = i" | "i < j" by linarith
  then show "is_settled (js[i := p] ! k)"
  proof cases
    case 3
    with j assms(1) have "is_settled (js ! i)" by (auto simp: chain_inv_def)
    with assms(3) show ?thesis by blast
  qed (use assms k in auto)
qed

lemma chain_below:
  "chain_inv js \<Longrightarrow> i < length js \<Longrightarrow> js ! i = InFlight n a \<Longrightarrow> \<forall>k < i. is_settled (js ! k)"
  by (auto simp: chain_inv_def)

lemma may_start_below:
  assumes "chain_inv js" and "may_start js i"
  shows "\<forall>k < i. is_settled (js ! k)"
proof (intro allI impI)
  fix k assume "k < i"
  with assms(2) have p: "is_settled (js ! (i - 1))" "i - 1 < length js" "k \<le> i - 1"
    by (auto simp: may_start_def)
  then have "js ! (i - 1) \<noteq> Waiting" by auto
  with p assms(1) show "is_settled (js ! k)"
    by (cases "k = i - 1") (auto simp: chain_inv_def)
qed

lemma chain_start: "chain_inv js \<Longrightarrow> may_start js i \<Longrightarrow> chain_inv (js[i := p])"
  using may_start_below by (intro chain_update) (auto simp: may_start_def)

lemma chain_flight:
  "chain_inv js \<Longrightarrow> i < length js \<Longrightarrow> js ! i = InFlight n a \<Longrightarrow> chain_inv (js[i := p])"
  using chain_below by (intro chain_update) auto

text \<open>Two bodies are never in flight together.\<close>

lemma chain_unique:
  assumes "chain_inv js" and "i < length js" and "j < length js"
    and "js ! i = InFlight n a" and "js ! j = InFlight m b"
  shows "i = j"
  using assms chain_below [of js i] chain_below [of js j]
  by (metis is_settled.simps(3) linorder_neqE_nat)

lemma chain_inv_step: "chain_inv (jobs s) \<Longrightarrow> gate_step s e t \<Longrightarrow> chain_inv (jobs t)"
  by (erule gate_stepE) (auto intro: chain_append chain_start chain_flight)

lemma no_flight_start:
  assumes "chain_inv js" and "may_start js i" and "j < length js" and "js ! j = InFlight n a"
  shows False
proof -
  consider "j < i" | "j = i" | "i < j" by linarith
  then show False
  proof cases
    case 1
    with may_start_below [OF assms(1,2)] assms(4) show False by force
  next
    case 3
    with chain_below [OF assms(1,3,4)] assms(2) show False by (force simp: may_start_def)
  qed (use assms in \<open>simp add: may_start_def\<close>)
qed

lemma carries_other:
  assumes "\<forall>j < length js. j \<noteq> i \<longrightarrow> (\<forall>n a. js ! j \<noteq> InFlight n a)" and "carries_now n p"
  shows "\<forall>q \<in> set (js[i := p]). carries_now n q"
proof
  fix q assume "q \<in> set (js[i := p])"
  then obtain j where j: "j < length js" "q = js[i := p] ! j" by (auto simp: in_set_conv_nth)
  show "carries_now n q"
  proof (cases "j = i")
    case False
    with j have "q = js ! j" by simp
    with assms(1) j False show ?thesis by (cases "js ! j") simp_all
  qed (use j assms(2) in simp)
qed

lemma nonce_inv_nth: "nonce_inv s \<Longrightarrow> i < length (jobs s) \<Longrightarrow> carries_now (gate_nonce s) (jobs s ! i)"
  by (simp add: nonce_inv_def)

lemma nonce_inv_step:
  assumes "nonce_inv s" and "chain_inv (jobs s)" and "gate_step s e t"
  shows "nonce_inv t"
  using assms(3)
proof (cases rule: gate_step.cases)
  case (start i)
  then have "\<forall>j < length (jobs s). \<forall>n a. jobs s ! j \<noteq> InFlight n a"
    using no_flight_start [OF assms(2)] by blast
  with start carries_other [of "jobs s" i "gate_nonce s" "InFlight (gate_nonce s) 0"] show ?thesis
    by (simp add: nonce_inv_def)
next
  case (respond i n a res)
  then have "\<forall>j < length (jobs s). j \<noteq> i \<longrightarrow> (\<forall>m b. jobs s ! j \<noteq> InFlight m b)"
    using chain_unique [OF assms(2)] by blast
  moreover have "carries_now (captured res (gate_nonce s)) (after_answer res a)"
    by (simp add: after_answer_def captured_def)
  ultimately show ?thesis using respond carries_other [of "jobs s" i] by (simp add: nonce_inv_def)
next
  case (break i n a m)
  then have "\<forall>j < length (jobs s). j \<noteq> i \<longrightarrow> (\<forall>m b. jobs s ! j \<noteq> InFlight m b)"
    using chain_unique [OF assms(2)] by blast
  with break carries_other [of "jobs s" i "gate_nonce s" "Settled (Inl m)"] show ?thesis
    by (simp add: nonce_inv_def)
qed (use assms(1) in \<open>simp_all add: nonce_inv_def\<close>)

lemma only_refresh_update:
  assumes "only_refresh js r l" and "\<not> is_settled (js ! i)"
  shows "only_refresh (js[i := p]) r l"
proof -
  have "\<not> is_settled (js ! j)" if "\<not> is_settled (js[i := p] ! j)" for j
    using that assms(2) by (cases "i = j") auto
  with assms(1) show ?thesis unfolding only_refresh_def length_list_update by blast
qed

lemma only_refresh_append:
  assumes "only_refresh js r l"
  shows "only_refresh (js @ [p]) r l"
proof -
  have "(js @ [p]) ! j = js ! j" if "j < length js" for j using that by (simp add: nth_append)
  with assms show ?thesis unfolding only_refresh_def by (metis length_append_singleton less_SucI)
qed

lemma only_refresh_new:
  assumes "only_refresh js None l"
  shows "only_refresh (js @ [p]) (Some (length js)) (l @ [length js])"
proof -
  have "j < length js \<and> is_settled ((js @ [p]) ! j)" if "j \<in> set l" for j
    using assms that by (auto simp: only_refresh_def nth_append)
  then show ?thesis by (auto simp: only_refresh_def less_SucI)
qed

lemma only_refresh_end:
  "only_refresh js (Some j) l \<Longrightarrow> is_settled (js ! j) \<Longrightarrow> only_refresh js None l"
  by (auto simp: only_refresh_def)

lemma refresh_inv_step:
  assumes "refresh_inv s" and "gate_step s e t"
  shows "refresh_inv t"
  using assms(2)
proof (cases rule: gate_step.cases)
  case (finish_refresh j x)
  with assms(1) only_refresh_end [of "jobs s" j "refreshes s"] show ?thesis
    by (simp add: refresh_inv_def)
qed (use assms(1) in \<open>simp_all add: refresh_inv_def only_refresh_append only_refresh_new
  only_refresh_update may_start_def\<close>)

interpretation gate: invariant_machine gate_init gate_step gate_inv
proof unfold_locales
  show "gate_init s \<Longrightarrow> gate_inv s" for s
    by (simp add: gate_init_def gate_inv_def chain_inv_def nonce_inv_def refresh_inv_def only_refresh_def)
  show "gate_inv s \<Longrightarrow> gate_step s e t \<Longrightarrow> gate_inv t" for s e t
    using chain_inv_step nonce_inv_step refresh_inv_step unfolding gate_inv_def by blast
qed


section \<open>Nonces\<close>

fun responses :: "gate_event list \<Rightarrow> response list" where
  "responses [] = []"
| "responses (Respond i res # es) = res # responses es"
| "responses (e # es) = responses es"

lemma answered_step:
  assumes "gate_inv s" and "gate_step s e t" and "\<forall>res \<in> set (responses [e]). truthy_ostr (rs_nonce res)"
  shows "answered t @ [gate_nonce t] = answered s @ gate_nonce s # map rs_nonce (responses [e])"
  using assms(2)
proof (cases rule: gate_step.cases)
  case (respond i n a res)
  then have "n = gate_nonce s"
    using assms(1) nonce_inv_nth [of s i] by (simp add: gate_inv_def)
  with respond assms(3) show ?thesis by (simp add: captured_def)
qed simp_all

text \<open>When every answer brings a nonce, the answered requests used up the nonces in order.\<close>

lemma answered_run:
  "run gate_step s es t \<Longrightarrow> gate_inv s \<Longrightarrow> \<forall>res \<in> set (responses es). truthy_ostr (rs_nonce res)
   \<Longrightarrow> answered t @ [gate_nonce t] = answered s @ gate_nonce s # map rs_nonce (responses es)"
proof (induction rule: run.induct)
  case (run_Cons s e t es u)
  have split: "responses (e # es) = responses [e] @ responses es" by (cases e) simp_all
  have "gate_inv t" by (rule gate.inv_step [OF run_Cons(4,1)])
  with run_Cons split answered_step [OF run_Cons(4,1)] show ?case
    by (cases "responses [e]") (auto simp: Un_iff)
qed simp


section \<open>Progress\<close>

fun phase_weight :: "phase \<Rightarrow> nat" where
  "phase_weight Waiting = 4"
| "phase_weight (InFlight n a) = 3 - a"
| "phase_weight (Settled x) = 0"

definition weight :: "gate \<Rightarrow> nat" where
  "weight s = (\<Sum>p \<leftarrow> jobs s. phase_weight p)"

fun is_progress :: "gate_event \<Rightarrow> bool" where
  "is_progress (Start i) = True"
| "is_progress (Respond i res) = True"
| "is_progress (Break i m) = True"
| "is_progress _ = False"

lemma sum_update_less:
  "i < length js \<Longrightarrow> phase_weight p < phase_weight (js ! i)
   \<Longrightarrow> (\<Sum>q \<leftarrow> js[i := p]. phase_weight q) < (\<Sum>q \<leftarrow> js. phase_weight q)"
proof (induction js arbitrary: i)
  case (Cons q js)
  then show ?case by (cases i) auto
qed simp

lemma progress_decreases:
  assumes "nonce_inv s" and "gate_step s e t" and "is_progress e"
  shows "weight t < weight s"
  using assms(2)
proof (cases rule: gate_step.cases)
  case (start i)
  then show ?thesis by (auto simp: weight_def may_start_def intro!: sum_update_less)
next
  case (respond i n a res)
  with nonce_inv_nth [OF assms(1), of i] have "a \<le> 2" by simp
  with respond show ?thesis
    by (auto simp: weight_def after_answer_def intro!: sum_update_less)
next
  case (break i n a m)
  with nonce_inv_nth [OF assms(1), of i] have "a \<le> 2" by simp
  with break show ?thesis by (auto simp: weight_def intro!: sum_update_less)
qed (use assms(3) in auto)

lemma progress_run:
  "run gate_step s es t \<Longrightarrow> gate_inv s \<Longrightarrow> list_all is_progress es \<Longrightarrow> length es + weight t \<le> weight s"
proof (induction rule: run.induct)
  case (run_Cons s e t es u)
  have "gate_inv t" by (rule gate.inv_step [OF run_Cons(4,1)])
  moreover have "weight t < weight s"
    using progress_decreases [OF _ run_Cons(1)] run_Cons(4,5) by (simp add: gate_inv_def)
  ultimately show ?case using run_Cons by simp
qed simp

lemma weight_bound: "weight s \<le> 4 * length (jobs s)"
proof -
  have "phase_weight p \<le> 4" for p by (cases p) auto
  then have "(\<Sum>p \<leftarrow> js. phase_weight p) \<le> 4 * length js" for js
    by (induction js) (auto intro: add_mono)
  then show ?thesis by (simp add: weight_def)
qed

text \<open>The first unsettled body can start or is waiting for the network.\<close>

lemma first_unsettled:
  assumes "\<exists>i < length js. \<not> is_settled (js ! i)"
  obtains i where "i < length js" and "\<not> is_settled (js ! i)" and "\<forall>k < i. is_settled (js ! k)"
proof -
  let ?P = "\<lambda>i. i < length js \<and> \<not> is_settled (js ! i)"
  from assms have "\<exists>i. ?P i" by blast
  then have "?P (LEAST i. ?P i)" by (rule LeastI_ex)
  moreover have "\<forall>k < (LEAST i. ?P i). is_settled (js ! k)"
    using not_less_Least [of _ ?P] calculation by (meson order.strict_trans)
  ultimately show thesis using that by blast
qed

lemma can_progress:
  assumes "\<exists>i < length (jobs s). \<not> is_settled (jobs s ! i)"
  shows "\<exists>i. (\<exists>t. gate_step s (Start i) t) \<or> (\<forall>res. \<exists>t. gate_step s (Respond i res) t)"
proof -
  from first_unsettled [OF assms] obtain i where i: "i < length (jobs s)"
    "\<not> is_settled (jobs s ! i)" "\<forall>k < i. is_settled (jobs s ! k)" by blast
  show ?thesis
  proof (cases "jobs s ! i")
    case Waiting
    with i have "may_start (jobs s) i" by (cases i) (auto simp: may_start_def)
    then show ?thesis by (blast intro: gate_step.start)
  next
    case (InFlight n a)
    with i show ?thesis by (blast intro: gate_step.respond)
  qed (use i in simp)
qed


section \<open>One body of the gate is one doFetch\<close>

text \<open>The events of a body, from the traffic of a run of \<open>doFetch\<close> and its result.\<close>

fun events_of :: "nat \<Rightarrow> nat \<Rightarrow> traffic \<Rightarrow> js_error + response \<Rightarrow> gate_event list" where
  "events_of i a [] r = (case r of Inl e \<Rightarrow> [Break i e] | Inr res \<Rightarrow> [])"
| "events_of i a ((rq, Inl m) # l) r = [Break i (JsError m)]"
| "events_of i a ((rq, Inr res) # l) r =
     Respond i res # (case after_answer res a of InFlight n b \<Rightarrow> events_of i b l r | _ \<Rightarrow> [])"

lemma gate_replays:
  assumes "exchange (2 - a) ok nonce l r" and "i < length (jobs s)" and "jobs s ! i = InFlight n a"
  shows "\<exists>t. gate_run s (events_of i a l r) = Some t \<and> jobs t = (jobs s)[i := Settled r]
    \<and> gate_nonce t = nonce_after l (gate_nonce s)"
  using assms
proof (induction i a l r arbitrary: nonce n s rule: events_of.induct)
  case (1 i a r)
  then show ?case by (cases r) simp_all
next
  case (3 i a rq res l r)
  show ?case
  proof (cases "a < 2 \<and> isUseNonceResponse res \<and> truthy_ostr (rs_nonce res)")
    case True
    then have after: "after_answer res a = InFlight (rs_nonce res) (a + 1)"
      by (simp add: after_answer_def)
    define t where "t = s\<lparr>jobs := (jobs s)[i := InFlight (rs_nonce res) (a + 1)],
        gate_nonce := captured res (gate_nonce s), answered := answered s @ [n]\<rparr>"
    have "exchange (2 - (a + 1)) ok (rs_nonce res) l r" using 3(2) True by (auto simp: diff_diff_eq)
    from 3(1) [OF after this, of t "rs_nonce res"] 3(3)
    obtain u where "gate_run t (events_of i (a + 1) l r) = Some u"
      "jobs u = (jobs t)[i := Settled r]" "gate_nonce u = nonce_after l (gate_nonce t)"
      by (auto simp: t_def)
    with 3(3,4) after True show ?thesis by (simp add: t_def captured_def)
  next
    case False
    then have "after_answer res a = Settled (Inr res)" by (auto simp: after_answer_def)
    moreover have "l = []" "r = Inr res" using 3(2) False by (auto split: if_splits)
    ultimately show ?thesis using 3(3,4) by (simp add: captured_def)
  qed
qed simp


section \<open>Properties\<close>

text \<open>
  C2: the gate is mutually exclusive and first come, first served, on every run: two bodies are never
  in flight together, the one in flight carries the nonce the client last captured, and nothing
  behind an unsettled body has started.
\<close>

theorem gate_mutual_exclusion:
  assumes "reachable gate_init gate_step s" and "i < length (jobs s)" and "jobs s ! i = InFlight n a"
  shows "n = gate_nonce s \<and> (\<forall>j < i. is_settled (jobs s ! j))
    \<and> (\<forall>j. i < j \<and> j < length (jobs s) \<longrightarrow> jobs s ! j = Waiting)"
proof -
  have inv: "gate_inv s" by (rule gate.reachable_inv [OF assms(1)])
  then have "n = gate_nonce s" using nonce_inv_nth [of s i] assms(2,3) by (simp add: gate_inv_def)
  moreover have "\<forall>j < i. is_settled (jobs s ! j)"
    using inv chain_below [OF _ assms(2,3)] by (simp add: gate_inv_def)
  moreover have "jobs s ! j = Waiting" if "i < j" "j < length (jobs s)" for j
    using inv that assms(3) by (force simp: gate_inv_def chain_inv_def)
  ultimately show ?thesis by blast
qed

definition sample_gate :: gate where
  "sample_gate =
     \<lparr>jobs = [], gate_nonce = Some ''n1'', gate_token = None, refresh_job = None, waiters = [],
      answered = [], refreshes = [], resolved = []\<rparr>"

lemma sample_gate_init: "gate_init sample_gate"
  by (simp add: sample_gate_def gate_init_def)

lemma sample_reachable: "gate_run sample_gate es = Some s \<Longrightarrow> reachable gate_init gate_step s"
  using sample_gate_init by (auto intro: reachableI simp: gate_run_run [symmetric])

theorem gate_mutual_exclusion_witness:
  "\<exists>s. gate_run sample_gate [Request, Refresh 1, Start 0] = Some s
    \<and> jobs s ! 0 = InFlight (gate_nonce s) 0 \<and> jobs s ! 1 = Waiting"
proof -
  obtain s where s: "gate_run sample_gate [Request, Refresh 1, Start 0] = Some s"
    and j: "jobs s = [InFlight (Some ''n1'') 0, Waiting]"
    by (simp add: sample_gate_def may_start_def)
  have "reachable gate_init gate_step s"
    by (rule sample_reachable [OF s])
  from gate_mutual_exclusion [OF this, of 0 "Some ''n1''" 0] s j show ?thesis by simp
qed



text \<open>
  C14: no caller is stuck behind the gate, and a failure does not break the chain: on every run, while a
  body is unsettled, either one can be started or one is waiting for the network and takes any
  answer; and starts, answers and failures without new calls settle everything within four steps
  per body.
\<close>

theorem gate_progress:
  assumes "reachable gate_init gate_step s"
  shows "((\<exists>i < length (jobs s). \<not> is_settled (jobs s ! i)) \<longrightarrow>
           (\<exists>i. (\<exists>t. gate_step s (Start i) t) \<or> (\<forall>res. \<exists>t. gate_step s (Respond i res) t)))
    \<and> (\<forall>es t. run gate_step s es t \<and> list_all is_progress es \<longrightarrow> length es \<le> 4 * length (jobs s))"
proof (intro conjI impI allI)
  assume "\<exists>i < length (jobs s). \<not> is_settled (jobs s ! i)"
  then show "\<exists>i. (\<exists>t. gate_step s (Start i) t) \<or> (\<forall>res. \<exists>t. gate_step s (Respond i res) t)"
    by (rule can_progress)
next
  fix es t assume "run gate_step s es t \<and> list_all is_progress es"
  with progress_run [of s es t] gate.reachable_inv [OF assms] weight_bound [of s]
  show "length es \<le> 4 * length (jobs s)" by fastforce
qed

theorem gate_progress_witness:
  "\<exists>s t. gate_run sample_gate [Request, Start 0, Break 0 (JsError ''offline''), Request] = Some s
    \<and> jobs s ! 1 = Waiting \<and> (\<exists>i. gate_step s (Start i) t \<or> (\<forall>res. \<exists>t. gate_step s (Respond i res) t))"
proof -
  obtain s where s: "gate_run sample_gate [Request, Start 0, Break 0 (JsError ''offline''), Request] = Some s"
    and j: "jobs s = [Settled (Inl (JsError ''offline'')), Waiting]"
    by (simp add: sample_gate_def may_start_def)
  have "reachable gate_init gate_step s"
    by (rule sample_reachable [OF s])
  from gate_progress [OF this] j
  have "\<exists>i. (\<exists>t. gate_step s (Start i) t) \<or> (\<forall>res. \<exists>t. gate_step s (Respond i res) t)"
    by (force intro: exI [of _ 1])
  with s j show ?thesis by auto
qed

text \<open>
  C16: callers share one refresh. On every run at most one refresh is unsettled, and it is the one
  new callers join; when it ends, every caller that waited gets the same token, which is then the
  client's token, and the next caller starts a new refresh.
\<close>

theorem refresh_shared:
  assumes "reachable gate_init gate_step s"
  shows "(\<forall>j \<in> set (refreshes s). \<forall>k \<in> set (refreshes s).
            \<not> is_settled (jobs s ! j) \<and> \<not> is_settled (jobs s ! k) \<longrightarrow> j = k \<and> refresh_job s = Some j)
    \<and> (\<forall>t. gate_step s FinishRefresh t \<longrightarrow> waiters s \<noteq> []
           \<and> resolved t = resolved s @ map (\<lambda>c. (c, gate_token t)) (waiters s)
           \<and> gate_token t \<noteq> Some [] \<and> refresh_job t = None)"
proof (intro conjI ballI impI allI)
  have inv: "refresh_inv s" using gate.reachable_inv [OF assms] by (simp add: gate_inv_def)
  fix j k assume jk: "j \<in> set (refreshes s)" "k \<in> set (refreshes s)"
    "\<not> is_settled (jobs s ! j) \<and> \<not> is_settled (jobs s ! k)"
  with inv have "refresh_job s = Some j" "refresh_job s = Some k"
    unfolding refresh_inv_def only_refresh_def by blast+
  then show "j = k" "refresh_job s = Some j" by simp_all
next
  have inv: "refresh_inv s" using gate.reachable_inv [OF assms] by (simp add: gate_inv_def)
  fix t assume "gate_step s FinishRefresh t"
  then obtain x j where f: "refresh_job s = Some j" "gate_token t = refresh_outcome x"
    "refresh_job t = None" "resolved t = resolved s @ map (\<lambda>c. (c, refresh_outcome x)) (waiters s)"
    by (cases rule: gate_step.cases) auto
  then show "waiters s \<noteq> []" using inv by (auto simp: refresh_inv_def)
  show "resolved t = resolved s @ map (\<lambda>c. (c, gate_token t)) (waiters s)" using f by simp
  show "gate_token t \<noteq> Some []" using f refresh_outcome_truthy by simp
  show "refresh_job t = None" using f by simp
qed

theorem refresh_shared_witness:
  "\<exists>s t. gate_run sample_gate [Refresh 1, Refresh 2, Start 0, Respond 0 token_response] = Some s
    \<and> gate_step s FinishRefresh t \<and> refresh_job t = None
    \<and> resolved t = [(1, gate_token t), (2, gate_token t)]"
proof -
  obtain s where s: "gate_run sample_gate [Refresh 1, Refresh 2, Start 0, Respond 0 token_response] = Some s"
    and j: "jobs s = [Settled (Inr token_response)]" "refresh_job s = Some 0" "waiters s = [1, 2]"
      "resolved s = []"
    using token_not_use_nonce
    by (simp add: sample_gate_def may_start_def after_answer_def js_defs)
  have "reachable gate_init gate_step s"
    by (rule sample_reachable [OF s])
  moreover obtain t where "gate_step s FinishRefresh t"
    using gate_step.finish_refresh [of s 0 "Inr token_response"] j by auto
  ultimately show ?thesis using refresh_shared [of s] s j by force
qed

text \<open>
  C17: A body of the gate is a run of \<open>doFetch\<close>: replaying the traffic of any run that meets the
  specification of \<open>doFetch\<close> as events of the gate settles the body with the result of that run and
  leaves the gate with the nonce the run leaves.
\<close>

theorem gate_body_is_doFetch:
  assumes "doFetch (logged pl) url meth headers body s = (r, s')" and "key_inv s"
    and "i < length (jobs g)" and "jobs g ! i = InFlight n 0" and "gate_nonce g = dpopNonce s"
  shows "\<exists>l g'. log_of s' = log_of s @ l \<and> gate_run g (events_of i 0 l r) = Some g'
    \<and> jobs g' = (jobs g)[i := Settled r] \<and> gate_nonce g' = dpopNonce s'"
proof -
  from doFetch_exchange [OF assms(1,2)] obtain l where l: "log_of s' = log_of s @ l"
    "exchange (2 - 0) (carries url meth headers body) (dpopNonce s) l r"
    "dpopNonce s' = nonce_after l (dpopNonce s)" by auto
  from gate_replays [OF l(2) assms(3,4)] l(1,3) assms(5) show ?thesis by auto
qed

theorem gate_body_is_doFetch_witness:
  "\<exists>g r s' l g'. doFetch (logged challenge_platform) ''/api/auth/whoami'' ''GET'' [] None sample_client = (r, s')
    \<and> gate_run sample_gate [Request, Start 0] = Some g
    \<and> gate_run (g\<lparr>gate_nonce := None\<rparr>) (events_of 0 0 l r) = Some g' \<and> jobs g' = [Settled r]"
proof -
  obtain r s' where r: "doFetch (logged challenge_platform) ''/api/auth/whoami'' ''GET'' [] None
      sample_client = (r, s')" by fastforce
  obtain g where g: "gate_run sample_gate [Request, Start 0] = Some g"
    and j: "jobs g = [InFlight (Some ''n1'') 0]"
    by (simp add: sample_gate_def may_start_def)
  from gate_body_is_doFetch [OF r key_inv_sample, of 0 "g\<lparr>gate_nonce := None\<rparr>" "Some ''n1''"] j
  obtain l g' where "gate_run (g\<lparr>gate_nonce := None\<rparr>) (events_of 0 0 l r) = Some g'"
    "jobs g' = [Settled r]"
    by (auto simp: sample_client_def)
  with r g show ?thesis by blast
qed

end
