(* ===== verification/Key_Race.thy ===== *)
theory Key_Race
  imports Dpop
begin

text \<open>
  Concurrent calls of \<open>getOrCreateDPoPKey\<close> in \<^verbatim>\<open>src/frontend/src/lib/dpop.ts\<close>. The function
  awaits between reading the store, generating a pair, writing it and caching it, so calls can
  interleave there; a step is what one call does between two awaits. Calls made for requests are
  serialized by the gate of the client, but the one of \<open>getGoogleAuthorizeURL\<close> is not. A key is a
  number here: generating one gives any number.
\<close>


section \<open>The machine\<close>

datatype call_pc =
    Reading
  | Generating
  | Writing nat
  | Caching nat
  | Returned nat
  | Rejected

record key_store =
  mem_key :: "nat option"
  idb_key :: "nat option"
  calls :: "call_pc list"

datatype key_event =
    Call
  | Read nat
  | Generate nat nat
  | Write nat
  | Cache nat
  | Fail nat

inductive key_step :: "key_store \<Rightarrow> key_event \<Rightarrow> key_store \<Rightarrow> bool" where
  call_key: "key_step s Call
    (s\<lparr>calls := calls s @ [case mem_key s of Some k \<Rightarrow> Returned k | None \<Rightarrow> Reading]\<rparr>)"
| read_some: "i < length (calls s) \<Longrightarrow> calls s ! i = Reading \<Longrightarrow> idb_key s = Some k \<Longrightarrow>
    key_step s (Read i) (s\<lparr>mem_key := Some k, calls := (calls s)[i := Returned k]\<rparr>)"
| read_none: "i < length (calls s) \<Longrightarrow> calls s ! i = Reading \<Longrightarrow> idb_key s = None \<Longrightarrow>
    key_step s (Read i) (s\<lparr>calls := (calls s)[i := Generating]\<rparr>)"
| generate_key: "i < length (calls s) \<Longrightarrow> calls s ! i = Generating \<Longrightarrow>
    key_step s (Generate i k) (s\<lparr>calls := (calls s)[i := Writing k]\<rparr>)"
| write_key: "i < length (calls s) \<Longrightarrow> calls s ! i = Writing k \<Longrightarrow>
    key_step s (Write i) (s\<lparr>idb_key := Some k, calls := (calls s)[i := Caching k]\<rparr>)"
| cache_key: "i < length (calls s) \<Longrightarrow> calls s ! i = Caching k \<Longrightarrow>
    key_step s (Cache i) (s\<lparr>mem_key := Some k, calls := (calls s)[i := Returned k]\<rparr>)"
| fail_call: "i < length (calls s) \<Longrightarrow> calls s ! i \<in> {Reading, Generating} \<union> range Writing \<Longrightarrow>
    key_step s (Fail i) (s\<lparr>calls := (calls s)[i := Rejected]\<rparr>)"

inductive_cases key_stepE: "key_step s e t"

text \<open>The store after a page load: nothing cached, at most one key persisted, no call yet.\<close>

definition key_init :: "key_store \<Rightarrow> bool" where
  "key_init s \<longleftrightarrow> mem_key s = None \<and> calls s = []"

fun finished :: "call_pc \<Rightarrow> bool" where
  "finished (Returned k) = True"
| "finished Rejected = True"
| "finished _ = False"

text \<open>The discipline of the gate: a call starts when the earlier ones have finished.\<close>

definition serial_step :: "key_store \<Rightarrow> key_event \<Rightarrow> key_store \<Rightarrow> bool" where
  "serial_step s e t \<longleftrightarrow> key_step s e t \<and> (e = Call \<longrightarrow> list_all finished (calls s))"


section \<open>Serial calls agree\<close>

text \<open>Where a call stands determines what cache and store hold.\<close>

fun pc_ok :: "nat option \<Rightarrow> nat option \<Rightarrow> call_pc \<Rightarrow> bool" where
  "pc_ok mem idb Reading \<longleftrightarrow> mem = None"
| "pc_ok mem idb Generating \<longleftrightarrow> mem = None \<and> idb = None"
| "pc_ok mem idb (Writing k) \<longleftrightarrow> mem = None \<and> idb = None"
| "pc_ok mem idb (Caching k) \<longleftrightarrow> mem = None \<and> idb = Some k"
| "pc_ok mem idb (Returned k) \<longleftrightarrow> mem = Some k"
| "pc_ok mem idb Rejected \<longleftrightarrow> True"

definition key_agree :: "key_store \<Rightarrow> bool" where
  "key_agree s \<longleftrightarrow>
     (\<forall>k. mem_key s = Some k \<longrightarrow> idb_key s = Some k)
     \<and> (\<forall>pc \<in> set (calls s). pc_ok (mem_key s) (idb_key s) pc)
     \<and> list_all finished (butlast (calls s))"

text \<open>With nothing cached, every finished call has rejected.\<close>

lemma finished_ok: "finished pc \<Longrightarrow> pc_ok None idb pc \<longleftrightarrow> pc = Rejected"
  by (cases pc) simp_all

lemma agree_update:
  assumes "key_agree s" and "i < length (calls s)" and "\<not> finished (calls s ! i)"
    and "pc_ok mem idb pc" and "\<forall>k. mem = Some k \<longrightarrow> idb = Some k"
  shows "key_agree \<lparr>mem_key = mem, idb_key = idb, calls = (calls s)[i := pc]\<rparr>"
proof -
  have fin: "list_all finished (butlast (calls s))" using assms(1) by (simp add: key_agree_def)
  have update: "(calls s)[i := pc] = butlast (calls s) @ [pc]"
    using only_last(3) [of "calls s" finished i pc] assms(2,3) fin by (simp add: list_all_iff)
  have "pc_ok (mem_key s) (idb_key s) (calls s ! i)" using assms(1,2) by (auto simp: key_agree_def)
  with assms(3) have "mem_key s = None" by (cases "calls s ! i") auto
  have "q = Rejected" if "q \<in> set (butlast (calls s))" for q
  proof -
    from that have "q \<in> set (calls s)" "finished q"
      using fin by (auto simp: list_all_iff dest: in_set_butlastD)
    with assms(1) \<open>mem_key s = None\<close> finished_ok [of q] show ?thesis by (auto simp: key_agree_def)
  qed
  then have "\<forall>q \<in> set (butlast (calls s)). pc_ok mem idb q" using pc_ok.simps(6) by blast
  with update show ?thesis using assms(4,5) fin
    by (simp add: key_agree_def)
qed


lemma agree_call:
  assumes "key_agree s" and "list_all finished (calls s)"
  shows "key_agree (s\<lparr>calls := calls s @ [case mem_key s of Some k \<Rightarrow> Returned k | None \<Rightarrow> Reading]\<rparr>)"
  using assms by (auto simp: key_agree_def split: option.splits)

lemma key_agree_eq:
  "key_agree s = key_agree \<lparr>mem_key = mem_key s, idb_key = idb_key s, calls = calls s\<rparr>"
  by (simp add: key_agree_def)

lemma agree_pc: "key_agree s \<Longrightarrow> i < length (calls s) \<Longrightarrow> pc_ok (mem_key s) (idb_key s) (calls s ! i)"
  by (simp add: key_agree_def)

lemma key_agree_step:
  assumes "key_agree s" and "serial_step s e t"
  shows "key_agree t"
  using assms(2) [unfolded serial_step_def, THEN conjunct1]
proof (cases rule: key_step.cases)
  case call_key
  with assms agree_call show ?thesis by (simp add: serial_step_def)
next
  case (read_some i k)
  with agree_update [OF assms(1), of i "Some k" "Some k" "Returned k"] show ?thesis
    by (simp add: key_agree_def)
next
  case (read_none i)
  with agree_update [OF assms(1), of i None None Generating] agree_pc [OF assms(1), of i] show ?thesis
    by (simp add: key_agree_def)
next
  case (generate_key i k)
  with agree_update [OF assms(1), of i None None "Writing k"] agree_pc [OF assms(1), of i] show ?thesis
    by (simp add: key_agree_def)
next
  case (write_key i k)
  with agree_update [OF assms(1), of i None "Some k" "Caching k"] agree_pc [OF assms(1), of i] show ?thesis
    by (simp add: key_agree_def)
next
  case (cache_key i k)
  with agree_update [OF assms(1), of i "Some k" "Some k" "Returned k"] agree_pc [OF assms(1), of i] show ?thesis
    by (simp add: key_agree_def)
next
  case (fail_call i)
  with agree_update [OF assms(1), of i "mem_key s" "idb_key s" Rejected] assms(1) show ?thesis
    by (auto simp: key_agree_def)
qed

interpretation serial_keys: invariant_machine key_init serial_step key_agree
proof unfold_locales
  show "key_init s \<Longrightarrow> key_agree s" for s by (simp add: key_init_def key_agree_def)
qed (rule key_agree_step)


section \<open>Properties\<close>

text \<open>
  When calls do not overlap, all of them return one key: on every serial run, whatever fails, the
  calls that returned agree with each other, with the cached key and with the persisted one.
\<close>

theorem serial_calls_agree:
  assumes "reachable key_init serial_step s" and "Returned k \<in> set (calls s)"
  shows "mem_key s = Some k \<and> idb_key s = Some k \<and> (\<forall>l. Returned l \<in> set (calls s) \<longrightarrow> l = k)"
proof -
  have inv: "key_agree s" by (rule serial_keys.reachable_inv [OF assms(1)])
  have mem: "mem_key s = Some l" if "Returned l \<in> set (calls s)" for l
    using inv that by (auto simp: key_agree_def dest!: bspec)
  from mem [OF assms(2)] inv have "idb_key s = Some k" by (simp add: key_agree_def)
  moreover have "l = k" if "Returned l \<in> set (calls s)" for l
    using mem [OF that] mem [OF assms(2)] by simp
  ultimately show ?thesis using mem [OF assms(2)] by blast
qed

definition empty_store :: key_store where
  "empty_store = \<lparr>mem_key = None, idb_key = None, calls = []\<rparr>"

lemma empty_store_init: "key_init empty_store"
  by (simp add: empty_store_def key_init_def)

theorem serial_calls_agree_witness:
  "\<exists>s. run serial_step empty_store [Call, Read 0, Generate 0 5, Write 0, Cache 0, Call] s
    \<and> calls s = [Returned 5, Returned 5] \<and> idb_key s = Some 5"
proof -
  define s where "s = \<lparr>mem_key = Some 5, idb_key = Some 5, calls = [Returned 5, Returned 5]\<rparr>"
  have r: "run serial_step empty_store [Call, Read 0, Generate 0 5, Write 0, Cache 0, Call] s"
    unfolding run_Cons_iff serial_step_def
    by (intro exI conjI)
      (rule key_step.intros, (simp add: empty_store_def s_def)+)+
  then have "reachable key_init serial_step s" by (rule reachableI [of key_init, OF empty_store_init])
  moreover have "Returned 5 \<in> set (calls s)" by (simp add: s_def)
  ultimately have "idb_key s = Some 5" using serial_calls_agree by blast
  with r show ?thesis by (auto simp: s_def)
qed

text \<open>
  Two overlapping first calls can return different keys, and then the cached key need not be the
  persisted one: the key that proofs are made with is lost at the next page load. This is possible in
  the client because \<open>getGoogleAuthorizeURL\<close> calls \<open>getOrCreateDPoPKey\<close> outside the gate.
\<close>

theorem concurrent_calls_disagree:
  "\<exists>s. reachable key_init key_step s \<and> calls s = [Returned 1, Returned 2]
    \<and> mem_key s = Some 1 \<and> idb_key s = Some 2"
proof -
  define s where "s = \<lparr>mem_key = Some 1, idb_key = Some 2, calls = [Returned 1, Returned 2]\<rparr>"
  have "run key_step empty_store
      [Call, Call, Read 0, Read 1, Generate 0 1, Generate 1 2, Write 0, Write 1, Cache 1, Cache 0] s"
    unfolding run_Cons_iff
    by (intro exI conjI; (rule key_step.intros)?; simp add: empty_store_def s_def)
  then have "reachable key_init key_step s" by (rule reachableI [of key_init, OF empty_store_init])
  then show ?thesis by (auto simp: s_def)
qed

end
