(* ===== verification/Ws_Client.thy ===== *)
theory Ws_Client
  imports Js_Url
begin

text \<open>
  The WebSocket client of a chat room, \<^verbatim>\<open>src/frontend/src/services/websocket-client.ts\<close>: the
  ticket request, the socket, the heartbeat and the reconnection with back-off. The state holds the
  private fields of \<open>WsClient\<close> and what the browser keeps for it: the sockets it created with their
  \<open>readyState\<close>, the pending timeouts and the running intervals. Every handler is a function on the
  state; the step relation says which of them an event runs.
\<close>

named_theorems ws_defs \<open>definitions of the handlers\<close>


section \<open>State\<close>

datatype ready_state = CONNECTING | OPEN | CLOSING | CLOSED

datatype ws_status = disconnected | connecting | connected

text \<open>
  \<open>timeouts\<close> pairs the id of a pending timeout with its delay. \<open>connect_called\<close> and \<open>tries\<close> are
  history: whether the owner has called \<open>connect\<close>, and the tickets requested since a socket opened.
\<close>

record ws_client =
  sockets :: "ready_state list"
  ws :: "nat option"
  reconnectAttempt :: nat
  reconnectTimeout :: "nat option"
  heartbeatInterval :: "nat option"
  intentionalClose :: bool
  connectInFlight :: bool
  status :: ws_status
  timeouts :: "(nat \<times> nat) list"
  intervals :: "nat list"
  next_id :: nat
  status_changes :: "ws_status list"
  delivered :: "json list"
  frames :: "(nat \<times> string) list"
  socket_urls :: "string list"
  connect_called :: bool
  tries :: nat

definition new_client :: ws_client where
  "new_client =
     \<lparr>sockets = [], ws = None, reconnectAttempt = 0, reconnectTimeout = None,
      heartbeatInterval = None, intentionalClose = False, connectInFlight = False,
      status = disconnected, timeouts = [], intervals = [], next_id = 0, status_changes = [],
      delivered = [], frames = [], socket_urls = [], connect_called = False, tries = 0\<rparr>"

definition maxReconnectAttempts :: nat where
  "maxReconnectAttempts = 10"

record location =
  loc_protocol :: string
  loc_hostname :: string
  loc_port :: string

definition WS_BASE :: "string option \<Rightarrow> location option \<Rightarrow> string" where
  "WS_BASE explicit window =
     (if truthy_ostr explicit then the explicit
      else case window of None \<Rightarrow> ''ws://localhost:8000''
      | Some l \<Rightarrow>
          (let scheme = (if loc_protocol l = ''https:'' then ''wss'' else ''ws'');
               port = (if loc_port l = ''3000'' then ''8000'' else loc_port l);
               host = (if truthy_str port then loc_hostname l @ '':'' @ port else loc_hostname l)
           in scheme @ ''://'' @ host))"

definition socket_url :: "string \<Rightarrow> string \<Rightarrow> string \<Rightarrow> string" where
  "socket_url base room ticket =
     base @ ''/api/chat/rooms/'' @ room @ ''/ws?ticket='' @ encodeURIComponent ticket"


section \<open>Methods and handlers\<close>

definition setStatus :: "ws_status \<Rightarrow> ws_client \<Rightarrow> ws_client" where
  [ws_defs]: "setStatus st s = s\<lparr>status := st, status_changes := status_changes s @ [st]\<rparr>"

definition ready :: "ws_client \<Rightarrow> ready_state option" where
  "ready s = (case ws s of None \<Rightarrow> None | Some i \<Rightarrow> js_nth (sockets s) i)"

definition reconnect_delay :: "nat \<Rightarrow> nat" where
  "reconnect_delay attempt = min (1000 * 2 ^ attempt) 30000"

definition scheduleReconnect :: "ws_client \<Rightarrow> ws_client" where
  [ws_defs]: "scheduleReconnect s =
     (if maxReconnectAttempts \<le> reconnectAttempt s then s
      else s\<lparr>reconnectAttempt := reconnectAttempt s + 1,
             timeouts := timeouts s @ [(next_id s, reconnect_delay (reconnectAttempt s))],
             reconnectTimeout := Some (next_id s), next_id := next_id s + 1\<rparr>)"

definition stopHeartbeat :: "ws_client \<Rightarrow> ws_client" where
  [ws_defs]: "stopHeartbeat s =
     (case heartbeatInterval s of None \<Rightarrow> s
      | Some h \<Rightarrow> s\<lparr>intervals := remove1 h (intervals s), heartbeatInterval := None\<rparr>)"

definition startHeartbeat :: "ws_client \<Rightarrow> ws_client" where
  [ws_defs]: "startHeartbeat s =
     (let s1 = stopHeartbeat s
      in s1\<lparr>intervals := intervals s1 @ [next_id s1], heartbeatInterval := Some (next_id s1),
            next_id := next_id s1 + 1\<rparr>)"

definition send :: "json \<Rightarrow> ws_client \<Rightarrow> ws_client" where
  [ws_defs]: "send data s =
     (if ready s = Some OPEN then s\<lparr>frames := frames s @ [(the (ws s), stringify data)]\<rparr> else s)"

definition connect :: "ws_client \<Rightarrow> ws_client" where
  [ws_defs]: "connect s =
     (if connectInFlight s \<or> ready s = Some OPEN \<or> ready s = Some CONNECTING then s
      else (setStatus connecting (s\<lparr>intentionalClose := False\<rparr>))
             \<lparr>connectInFlight := True, tries := tries s + 1\<rparr>)"

text \<open>The end of the awaited ticket request in \<open>openSocket\<close>: \<open>res.data?.ticket\<close>, or a rejection.\<close>

definition ticket_resolved :: "string \<Rightarrow> string \<Rightarrow> string option \<Rightarrow> ws_client \<Rightarrow> ws_client" where
  [ws_defs]: "ticket_resolved base room ticket s =
     (if intentionalClose s then s\<lparr>connectInFlight := False\<rparr>
      else if \<not> truthy_ostr ticket then scheduleReconnect (s\<lparr>connectInFlight := False\<rparr>)
      else s\<lparr>sockets := sockets s @ [CONNECTING], ws := Some (length (sockets s)),
             socket_urls := socket_urls s @ [socket_url base room (the ticket)],
             connectInFlight := False\<rparr>)"

definition ticket_rejected :: "ws_client \<Rightarrow> ws_client" where
  [ws_defs]: "ticket_rejected s =
     (if intentionalClose s then s\<lparr>connectInFlight := False\<rparr>
      else scheduleReconnect (s\<lparr>connectInFlight := False\<rparr>))"

definition onopen :: "ws_client \<Rightarrow> ws_client" where
  [ws_defs]: "onopen s = startHeartbeat (setStatus connected (s\<lparr>reconnectAttempt := 0, tries := 0\<rparr>))"

definition onmessage :: "string \<Rightarrow> ws_client \<Rightarrow> ws_client" where
  [ws_defs]: "onmessage text s =
     (case json_parse text of None \<Rightarrow> s | Some data \<Rightarrow> s\<lparr>delivered := delivered s @ [data]\<rparr>)"

definition onclose :: "ws_client \<Rightarrow> ws_client" where
  [ws_defs]: "onclose s =
     (let s1 = setStatus disconnected (stopHeartbeat s)
      in if \<not> intentionalClose s1 then scheduleReconnect s1 else s1)"

definition close_socket :: "nat \<Rightarrow> ready_state list \<Rightarrow> ready_state list" where
  "close_socket i socks =
     (if socks ! i = CONNECTING \<or> socks ! i = OPEN then socks[i := CLOSING] else socks)"

definition disconnect :: "ws_client \<Rightarrow> ws_client" where
  [ws_defs]: "disconnect s =
     (let s1 = stopHeartbeat (s\<lparr>intentionalClose := True\<rparr>);
          s2 = (case reconnectTimeout s1 of None \<Rightarrow> s1
                | Some t \<Rightarrow> s1\<lparr>timeouts := filter (\<lambda>p. fst p \<noteq> t) (timeouts s1), reconnectTimeout := None\<rparr>);
          s3 = (case ws s2 of None \<Rightarrow> s2 | Some i \<Rightarrow> s2\<lparr>sockets := close_socket i (sockets s2)\<rparr>)
      in setStatus disconnected (s3\<lparr>ws := None\<rparr>))"


section \<open>Steps\<close>

text \<open>
  \<open>Connect\<close>, \<open>Disconnect\<close> and \<open>Send\<close> are calls of the owner, the other events come from the
  browser. A socket opens once, delivers while it is open, and its close event comes last.
\<close>

datatype ws_event =
    Connect
  | Disconnect
  | Send json
  | TicketResolved "string option"
  | TicketRejected
  | SocketOpen nat
  | SocketMessage nat string
  | SocketClosing nat
  | SocketClose nat
  | TimeoutFires nat
  | IntervalFires nat

inductive ws_step :: "string \<Rightarrow> string \<Rightarrow> ws_client \<Rightarrow> ws_event \<Rightarrow> ws_client \<Rightarrow> bool"
  for base room :: string where
  call_connect: "ws_step base room s Connect ((connect s)\<lparr>connect_called := True\<rparr>)"
| call_disconnect: "ws_step base room s Disconnect (disconnect s)"
| call_send: "ws_step base room s (Send data) (send data s)"
| resolved: "connectInFlight s \<Longrightarrow>
    ws_step base room s (TicketResolved ticket) (ticket_resolved base room ticket s)"
| rejected: "connectInFlight s \<Longrightarrow> ws_step base room s TicketRejected (ticket_rejected s)"
| opened: "i < length (sockets s) \<Longrightarrow> sockets s ! i = CONNECTING \<Longrightarrow>
    ws_step base room s (SocketOpen i) (onopen (s\<lparr>sockets := (sockets s)[i := OPEN]\<rparr>))"
| message: "i < length (sockets s) \<Longrightarrow> sockets s ! i = OPEN \<Longrightarrow>
    ws_step base room s (SocketMessage i m) (onmessage m s)"
| closing: "i < length (sockets s) \<Longrightarrow> sockets s ! i = OPEN \<Longrightarrow>
    ws_step base room s (SocketClosing i) (s\<lparr>sockets := (sockets s)[i := CLOSING]\<rparr>)"
| closed: "i < length (sockets s) \<Longrightarrow> sockets s ! i \<noteq> CLOSED \<Longrightarrow>
    ws_step base room s (SocketClose i) (onclose (s\<lparr>sockets := (sockets s)[i := CLOSED]\<rparr>))"
| timeout: "t \<in> fst ` set (timeouts s) \<Longrightarrow>
    ws_step base room s (TimeoutFires t)
      (connect (s\<lparr>timeouts := filter (\<lambda>p. fst p \<noteq> t) (timeouts s)\<rparr>))"
| interval: "h \<in> set (intervals s) \<Longrightarrow>
    ws_step base room s (IntervalFires h) (send (JObj [(''type'', JStr ''ping'')]) s)"

inductive_cases ws_stepE: "ws_step base room s e t"

fun ws_next :: "string \<Rightarrow> string \<Rightarrow> ws_client \<Rightarrow> ws_event \<Rightarrow> ws_client option" where
  "ws_next base room s Connect = Some ((connect s)\<lparr>connect_called := True\<rparr>)"
| "ws_next base room s Disconnect = Some (disconnect s)"
| "ws_next base room s (Send data) = Some (send data s)"
| "ws_next base room s (TicketResolved ticket) =
     (if connectInFlight s then Some (ticket_resolved base room ticket s) else None)"
| "ws_next base room s TicketRejected =
     (if connectInFlight s then Some (ticket_rejected s) else None)"
| "ws_next base room s (SocketOpen i) =
     (if i < length (sockets s) \<and> sockets s ! i = CONNECTING
      then Some (onopen (s\<lparr>sockets := (sockets s)[i := OPEN]\<rparr>)) else None)"
| "ws_next base room s (SocketMessage i m) =
     (if i < length (sockets s) \<and> sockets s ! i = OPEN then Some (onmessage m s) else None)"
| "ws_next base room s (SocketClosing i) =
     (if i < length (sockets s) \<and> sockets s ! i = OPEN
      then Some (s\<lparr>sockets := (sockets s)[i := CLOSING]\<rparr>) else None)"
| "ws_next base room s (SocketClose i) =
     (if i < length (sockets s) \<and> sockets s ! i \<noteq> CLOSED
      then Some (onclose (s\<lparr>sockets := (sockets s)[i := CLOSED]\<rparr>)) else None)"
| "ws_next base room s (TimeoutFires t) =
     (if t \<in> fst ` set (timeouts s)
      then Some (connect (s\<lparr>timeouts := filter (\<lambda>p. fst p \<noteq> t) (timeouts s)\<rparr>)) else None)"
| "ws_next base room s (IntervalFires h) =
     (if h \<in> set (intervals s) then Some (send (JObj [(''type'', JStr ''ping'')]) s) else None)"

lemma ws_step_next: "ws_step base room s e t \<longleftrightarrow> ws_next base room s e = Some t"
  by (cases e) (auto elim!: ws_stepE intro: ws_step.intros split: if_splits)

fun ws_run :: "string \<Rightarrow> string \<Rightarrow> ws_client \<Rightarrow> ws_event list \<Rightarrow> ws_client option" where
  "ws_run base room s [] = Some s"
| "ws_run base room s (e # es) = Option.bind (ws_next base room s e) (\<lambda>t. ws_run base room t es)"

lemma ws_run_run: "run (ws_step base room) s es t \<longleftrightarrow> ws_run base room s es = Some t"
  by (induction es arbitrary: s) (auto simp: run_Cons_iff ws_step_next bind_eq_Some_conv)

text \<open>
  How \<open>useMessages\<close> owns a client: one \<open>connect\<close> after construction, then \<open>disconnect\<close> on unmount;
  it never connects a client again.
\<close>

definition hook_step :: "string \<Rightarrow> string \<Rightarrow> ws_client \<Rightarrow> ws_event \<Rightarrow> ws_client \<Rightarrow> bool" where
  "hook_step base room s e t \<longleftrightarrow>
     ws_step base room s e t \<and> (e = Connect \<longrightarrow> \<not> connect_called s \<and> \<not> intentionalClose s)"

definition ws_init :: "ws_client \<Rightarrow> bool" where
  "ws_init s \<longleftrightarrow> s = new_client"


section \<open>The invariant of a client owned by the hook\<close>

text \<open>The state of the newest socket; without one, it counts as closed.\<close>

definition newest :: "ready_state list \<Rightarrow> ready_state" where
  "newest socks = (if socks = [] then CLOSED else last socks)"

definition sockets_inv :: "ws_client \<Rightarrow> bool" where
  "sockets_inv s \<longleftrightarrow>
     (\<forall>x \<in> set (butlast (sockets s)). x = CLOSED)
     \<and> (if intentionalClose s then ws s = None \<and> newest (sockets s) \<in> {CLOSING, CLOSED}
        else if sockets s = [] then ws s = None else ws s = Some (length (sockets s) - 1))"

definition activity_inv :: "ws_client \<Rightarrow> bool" where
  "activity_inv s \<longleftrightarrow>
     (connectInFlight s \<longrightarrow> newest (sockets s) = CLOSED)
     \<and> (timeouts s = [] \<or>
          (\<exists>t d. timeouts s = [(t, d)] \<and> reconnectTimeout s = Some t \<and> d \<le> 30000)
          \<and> \<not> intentionalClose s \<and> \<not> connectInFlight s \<and> newest (sockets s) = CLOSED)"

definition heartbeat_inv :: "ws_client \<Rightarrow> bool" where
  "heartbeat_inv s \<longleftrightarrow>
     (heartbeatInterval s = None \<longrightarrow> intervals s = [] \<and> status s \<noteq> connected)
     \<and> (\<forall>h. heartbeatInterval s = Some h \<longrightarrow>
          intervals s = [h] \<and> \<not> intentionalClose s \<and> newest (sockets s) \<in> {OPEN, CLOSING}
          \<and> status s = connected)"

definition counters_inv :: "ws_client \<Rightarrow> bool" where
  "counters_inv s \<longleftrightarrow>
     reconnectAttempt s \<le> 10
     \<and> tries s \<le> reconnectAttempt s + (if timeouts s = [] then 1 else 0)
     \<and> (intentionalClose s \<longrightarrow> status s = disconnected)
     \<and> (\<not> connect_called s \<longrightarrow> sockets s = [] \<and> timeouts s = [] \<and> \<not> connectInFlight s
          \<and> reconnectAttempt s = 0 \<and> tries s = 0)"

definition ws_inv :: "ws_client \<Rightarrow> bool" where
  "ws_inv s \<longleftrightarrow> sockets_inv s \<and> activity_inv s \<and> heartbeat_inv s \<and> counters_inv s"

lemmas ws_inv_defs = ws_inv_def sockets_inv_def activity_inv_def heartbeat_inv_def counters_inv_def

lemma newest_simps [simp]: "newest [] = CLOSED" "newest (xs @ [x]) = x"
  by (simp_all add: newest_def)

lemma reconnect_delay_le: "reconnect_delay n \<le> 30000" "1000 \<le> reconnect_delay n"
  by (simp_all add: reconnect_delay_def)

text \<open>The guard of \<open>connect\<close> reads the newest socket.\<close>

lemma ready_newest:
  assumes "sockets_inv s"
  shows "ready s = Some OPEN \<longleftrightarrow> \<not> intentionalClose s \<and> newest (sockets s) = OPEN"
    and "ready s = Some CONNECTING \<longleftrightarrow> \<not> intentionalClose s \<and> newest (sockets s) = CONNECTING"
  using assms
  by (auto simp: sockets_inv_def ready_def js_nth_def newest_def last_conv_nth split: if_splits)

text \<open>A socket that is not closed is the newest.\<close>

lemma live_newest:
  assumes "sockets_inv s" and "i < length (sockets s)" and "sockets s ! i \<noteq> CLOSED"
  shows "sockets s = butlast (sockets s) @ [sockets s ! i]" and "i = length (sockets s) - 1"
    and "(sockets s)[i := x] = butlast (sockets s) @ [x]" and "newest (sockets s) = sockets s ! i"
proof -
  have old: "\<forall>x \<in> set (butlast (sockets s)). x = CLOSED" using assms(1) by (simp add: sockets_inv_def)
  show eq: "sockets s = butlast (sockets s) @ [sockets s ! i]"
    by (rule only_last(1) [OF old assms(2,3)])
  show "i = length (sockets s) - 1" by (rule only_last(2) [OF old assms(2,3)])
  show "(sockets s)[i := x] = butlast (sockets s) @ [x]" by (rule only_last(3) [OF old assms(2,3)])
  show "newest (sockets s) = sockets s ! i" by (metis eq newest_simps(2))
qed

lemma connect_inv:
  assumes "ws_inv s" and "\<not> intentionalClose s" and "timeouts s = []" and "\<not> connectInFlight s"
    and "newest (sockets s) = CLOSED" and "tries s \<le> reconnectAttempt s"
  shows "ws_inv ((connect s)\<lparr>connect_called := True\<rparr>)"
proof -
  have "ready s \<noteq> Some OPEN" "ready s \<noteq> Some CONNECTING"
    using ready_newest assms by (auto simp: ws_inv_def)
  moreover have "heartbeatInterval s = None"
    using assms by (auto simp: ws_inv_defs split: option.splits)
  ultimately show ?thesis using assms by (auto simp: ws_inv_defs connect_def setStatus_def)
qed

lemma schedule_inv:
  assumes "ws_inv s" and "\<not> intentionalClose s" and "timeouts s = []" and "\<not> connectInFlight s"
    and "newest (sockets s) = CLOSED" and "connect_called s"
  shows "ws_inv (scheduleReconnect s)"
  using assms by (auto simp: ws_inv_defs scheduleReconnect_def maxReconnectAttempts_def
      reconnect_delay_le split: option.splits)


lemma resolved_inv:
  assumes "ws_inv s" and "connectInFlight s"
  shows "ws_inv (ticket_resolved base room ticket s)"
proof -
  have c: "newest (sockets s) = CLOSED" "timeouts s = []" "connect_called s" "heartbeatInterval s = None"
    using assms by (auto simp: ws_inv_defs split: option.splits)
  have land: "ws_inv (s\<lparr>connectInFlight := False\<rparr>)" using assms c by (simp add: ws_inv_defs)
  consider (gone) "intentionalClose s" | (empty) "\<not> intentionalClose s" "\<not> truthy_ostr ticket"
    | (socket) "\<not> intentionalClose s" "truthy_ostr ticket" by blast
  then show ?thesis
  proof cases
    case gone
    with land show ?thesis by (simp add: ticket_resolved_def)
  next
    case empty
    with schedule_inv [OF land] c show ?thesis by (simp add: ticket_resolved_def)
  next
    case socket
    have "\<forall>x \<in> set (sockets s). x = CLOSED"
    proof (cases "sockets s" rule: rev_cases)
      case (snoc ys y)
      with c(1) assms(1) show ?thesis by (auto simp: ws_inv_defs)
    qed simp
    with socket land c show ?thesis
      by (auto simp: ws_inv_defs ticket_resolved_def)
  qed
qed

lemma rejected_inv:
  assumes "ws_inv s" and "connectInFlight s"
  shows "ws_inv (ticket_rejected s)"
proof -
  have c: "newest (sockets s) = CLOSED" "timeouts s = []" "connect_called s" "heartbeatInterval s = None"
    using assms by (auto simp: ws_inv_defs split: option.splits)
  have land: "ws_inv (s\<lparr>connectInFlight := False\<rparr>)" using assms c by (simp add: ws_inv_defs)
  then show ?thesis using schedule_inv [OF land] c by (simp add: ticket_rejected_def)
qed

lemma stopHeartbeat_eq:
  assumes "heartbeat_inv s"
  shows "stopHeartbeat s = s\<lparr>intervals := [], heartbeatInterval := None\<rparr>"
  using assms by (cases "heartbeatInterval s") (auto simp: heartbeat_inv_def stopHeartbeat_def)

lemma opened_inv:
  assumes "ws_inv s" and "i < length (sockets s)" and "sockets s ! i = CONNECTING"
  shows "ws_inv (onopen (s\<lparr>sockets := (sockets s)[i := OPEN]\<rparr>))"
proof -
  have si: "sockets_inv s" using assms(1) by (simp add: ws_inv_def)
  have nc: "sockets s ! i \<noteq> CLOSED" using assms(3) by simp
  note live = live_newest [OF si assms(2) nc] assms(3)
  have c: "\<not> intentionalClose s" "timeouts s = []" "\<not> connectInFlight s" "heartbeatInterval s = None"
    "intervals s = []" "connect_called s" "sockets s \<noteq> []"
    using assms live by (auto simp: ws_inv_defs split: option.splits)
  then show ?thesis
    using assms(1) live
    by (simp add: ws_inv_defs onopen_def setStatus_def startHeartbeat_def stopHeartbeat_def Let_def)
qed

lemma closed_inv:
  assumes "ws_inv s" and "i < length (sockets s)" and "sockets s ! i \<noteq> CLOSED"
  shows "ws_inv (onclose (s\<lparr>sockets := (sockets s)[i := CLOSED]\<rparr>))"
proof -
  have si: "sockets_inv s" and hi: "heartbeat_inv s" using assms(1) by (simp_all add: ws_inv_def)
  note live = live_newest [OF si assms(2,3)]
  have c: "timeouts s = []" "\<not> connectInFlight s" "connect_called s" "sockets s \<noteq> []"
    using assms live by (auto simp: ws_inv_defs split: option.splits)
  let ?s = "setStatus disconnected (s\<lparr>sockets := (sockets s)[i := CLOSED], intervals := [],
      heartbeatInterval := None\<rparr>)"
  have hb: "stopHeartbeat (s\<lparr>sockets := (sockets s)[i := CLOSED]\<rparr>)
      = s\<lparr>sockets := (sockets s)[i := CLOSED], intervals := [], heartbeatInterval := None\<rparr>"
    using hi by (cases "heartbeatInterval s") (auto simp: heartbeat_inv_def stopHeartbeat_def)
  have inv: "ws_inv ?s"
    using assms(1) live(3) c by (auto simp: ws_inv_defs setStatus_def)
  have "newest (sockets ?s) = CLOSED" using live(3) by (simp add: setStatus_def)
  with schedule_inv [OF inv] inv c show ?thesis
    by (auto simp: onclose_def hb setStatus_def Let_def)
qed

lemma closing_inv:
  assumes "ws_inv s" and "i < length (sockets s)" and "sockets s ! i = OPEN"
  shows "ws_inv (s\<lparr>sockets := (sockets s)[i := CLOSING]\<rparr>)"
proof -
  have si: "sockets_inv s" using assms(1) by (simp add: ws_inv_def)
  have nc: "sockets s ! i \<noteq> CLOSED" using assms(3) by simp
  note live = live_newest [OF si assms(2) nc] assms(3)
  have "sockets s \<noteq> []" using assms(2) by auto
  then show ?thesis using assms(1) live by (auto simp: ws_inv_defs split: option.splits)
qed

lemma close_newest:
  assumes "sockets_inv s" and "ws s = Some i"
  shows "close_socket i (sockets s) = (if newest (sockets s) \<in> {CONNECTING, OPEN}
    then butlast (sockets s) @ [CLOSING] else sockets s)"
proof -
  have i: "sockets s \<noteq> []" "i = length (sockets s) - 1"
    using assms by (auto simp: sockets_inv_def split: if_splits)
  then have n: "newest (sockets s) = sockets s ! i" by (simp add: newest_def last_conv_nth)
  have "i < length (sockets s)" using i by (cases "sockets s") auto
  then show ?thesis using live_newest(3) [OF assms(1), of i CLOSING] n
    by (auto simp: close_socket_def)
qed

lemma disconnect_inv:
  assumes "ws_inv s"
  shows "ws_inv (disconnect s)"
proof -
  have si: "sockets_inv s" and hi: "heartbeat_inv s" and ai: "activity_inv s" and ci: "counters_inv s"
    using assms by (simp_all add: ws_inv_def)
  have hb: "stopHeartbeat (s\<lparr>intentionalClose := True\<rparr>)
      = s\<lparr>intentionalClose := True, intervals := [], heartbeatInterval := None\<rparr>"
    using hi by (cases "heartbeatInterval s") (auto simp: heartbeat_inv_def stopHeartbeat_def)
  define socks where "socks = (case ws s of None \<Rightarrow> sockets s | Some i \<Rightarrow> close_socket i (sockets s))"
  have t: "(case reconnectTimeout s of None \<Rightarrow> timeouts s
      | Some t \<Rightarrow> filter (\<lambda>p. fst p \<noteq> t) (timeouts s)) = []"
    using ai by (auto simp: activity_inv_def split: option.splits)
  have eq: "disconnect s = s\<lparr>intentionalClose := True, intervals := [],
      heartbeatInterval := None, timeouts := [], reconnectTimeout := None, sockets := socks, ws := None,
      status := disconnected, status_changes := status_changes s @ [disconnected]\<rparr>"
    by (rule ws_client.equality)
      (use t in \<open>auto simp: disconnect_def hb Let_def socks_def setStatus_def split: option.splits\<close>)
  have "socks = sockets s \<or> socks = butlast (sockets s) @ [CLOSING]"
    using close_newest [OF si] by (auto simp: socks_def split: option.splits)
  moreover have "newest socks \<in> {CLOSING, CLOSED}"
  proof (cases "newest (sockets s)")
    case CONNECTING
    then show ?thesis using close_newest [OF si] si
      by (auto simp: socks_def sockets_inv_def split: option.splits if_splits)
  next
    case OPEN
    then show ?thesis using close_newest [OF si] si
      by (auto simp: socks_def sockets_inv_def split: option.splits if_splits)
  next
    case CLOSING
    then show ?thesis using close_newest [OF si]
      by (auto simp: socks_def split: option.splits)
  next
    case CLOSED
    then show ?thesis using close_newest [OF si]
      by (auto simp: socks_def split: option.splits)
  qed
  moreover have "newest (sockets s) = CLOSED \<longrightarrow> newest socks = CLOSED"
    using close_newest [OF si] by (auto simp: socks_def split: option.splits)
  moreover have "sockets s = [] \<longrightarrow> socks = []"
    using close_newest [OF si] by (auto simp: socks_def split: option.splits)
  ultimately show ?thesis using si ai ci
    by (auto simp: eq ws_inv_defs in_set_butlastD split: if_splits)
qed

lemma ws_inv_history [simp]:
  "ws_inv (s\<lparr>frames := f\<rparr>) = ws_inv s" "ws_inv (s\<lparr>delivered := d\<rparr>) = ws_inv s"
  by (simp_all add: ws_inv_defs)

lemma send_inv: "ws_inv s \<Longrightarrow> ws_inv (send data s)"
  by (simp add: send_def)

lemma message_inv: "ws_inv s \<Longrightarrow> ws_inv (onmessage m s)"
  by (simp add: onmessage_def split: option.splits)

lemma timeout_inv:
  assumes "ws_inv s" and "t \<in> fst ` set (timeouts s)"
  shows "ws_inv (connect (s\<lparr>timeouts := filter (\<lambda>p. fst p \<noteq> t) (timeouts s)\<rparr>))"
proof -
  let ?s = "s\<lparr>timeouts := filter (\<lambda>p. fst p \<noteq> t) (timeouts s)\<rparr>"
  have "timeouts s \<noteq> []" using assms(2) by auto
  with assms obtain d where c: "timeouts s = [(t, d)]" "\<not> intentionalClose s" "\<not> connectInFlight s"
    "newest (sockets s) = CLOSED" "tries s \<le> reconnectAttempt s" "connect_called s"
    by (auto simp: ws_inv_defs)
  then have "ws_inv ?s" using assms(1) by (simp add: ws_inv_defs)
  from connect_inv [OF this] c have "ws_inv ((connect ?s)\<lparr>connect_called := True\<rparr>)" by simp
  moreover have "(connect ?s)\<lparr>connect_called := True\<rparr> = connect ?s"
    using c(6) by (simp add: connect_def setStatus_def)
  ultimately show ?thesis by simp
qed

lemma ws_inv_step:
  assumes "ws_inv s" and "hook_step base room s e t"
  shows "ws_inv t"
  using assms(2) [unfolded hook_step_def, THEN conjunct1]
proof (cases rule: ws_step.cases)
  case call_connect
  with assms have "\<not> connect_called s" "\<not> intentionalClose s" by (simp_all add: hook_step_def)
  with assms(1) connect_inv [OF assms(1)] call_connect show ?thesis by (auto simp: ws_inv_defs)
qed (use assms(1) resolved_inv rejected_inv opened_inv closed_inv closing_inv disconnect_inv send_inv
    message_inv timeout_inv in simp_all)


interpretation ws: invariant_machine ws_init "hook_step base room" ws_inv
proof unfold_locales
  show "ws_init s \<Longrightarrow> ws_inv s" for s
    by (simp add: ws_init_def new_client_def ws_inv_defs)
qed (rule ws_inv_step)


section \<open>Properties\<close>

lemma hook_run:
  assumes "ws_run base room new_client es = Some s" and "es = Connect # fs" and "Connect \<notin> set fs"
  shows "reachable ws_init (hook_step base room) s"
proof -
  have keep: "connect_called t" if "ws_step base room s e t" "connect_called s" for s e t
    using that
    by (cases rule: ws_step.cases)
      (auto simp: ws_defs Let_def split: option.splits if_splits)
  have "run (hook_step base room) s fs t" if "run (ws_step base room) s fs t" "Connect \<notin> set fs" for s fs t
    using that by (induction rule: run.induct) (auto simp: hook_step_def intro: run.intros)
  moreover have "run (ws_step base room) new_client (Connect # fs) s"
    using assms by (simp add: ws_run_run)
  ultimately have "run (hook_step base room) new_client (Connect # fs) s"
    using assms(3) by (auto simp: run_Cons_iff hook_step_def new_client_def)
  then show ?thesis by (rule reachableI [of ws_init, rotated]) (simp add: ws_init_def)
qed

text \<open>
  C11: A client owned by the hook does one thing at a time. On every run at most one of a ticket request,
  a socket that is not closed and a pending reconnection exists; at most one heartbeat runs, it runs
  exactly while the reported status is connected, and it can be stopped; and after \<open>disconnect\<close> nothing
  is pending.
\<close>

theorem ws_single_activity:
  assumes "reachable ws_init (hook_step base room) s"
  shows "length (filter (\<lambda>x. x \<noteq> CLOSED) (sockets s)) + (if connectInFlight s then 1 else 0)
      + length (timeouts s) \<le> 1
    \<and> intervals s = (case heartbeatInterval s of None \<Rightarrow> [] | Some h \<Rightarrow> [h])
    \<and> (intervals s \<noteq> [] \<longleftrightarrow> status s = connected)
    \<and> (intentionalClose s \<longrightarrow> timeouts s = [] \<and> intervals s = [] \<and> status s = disconnected)"
proof -
  have inv: "ws_inv s" by (rule ws.reachable_inv [OF assms])
  have "filter (\<lambda>x. x \<noteq> CLOSED) (sockets s) = (if newest (sockets s) = CLOSED then [] else [newest (sockets s)])"
  proof (cases "sockets s" rule: rev_cases)
    case (snoc ys y)
    then have "filter (\<lambda>x. x \<noteq> CLOSED) ys = []" using inv by (auto simp: ws_inv_defs filter_empty_conv)
    with snoc show ?thesis by simp
  qed simp
  then have "length (filter (\<lambda>x. x \<noteq> CLOSED) (sockets s)) + (if connectInFlight s then 1 else 0)
      + length (timeouts s) \<le> 1"
    using inv by (auto simp: ws_inv_def activity_inv_def)
  moreover have "intervals s = (case heartbeatInterval s of None \<Rightarrow> [] | Some h \<Rightarrow> [h])"
    and "intervals s \<noteq> [] \<longleftrightarrow> status s = connected"
    and "intentionalClose s \<longrightarrow> timeouts s = [] \<and> intervals s = [] \<and> status s = disconnected"
    using inv by (auto simp: ws_inv_defs split: option.splits)
  ultimately show ?thesis by blast
qed

theorem ws_single_activity_witness:
  "\<exists>s. ws_run ''ws://h'' ''r1'' new_client
        [Connect, TicketResolved (Some ''t1''), SocketOpen 0, SocketClose 0, TimeoutFires 1] = Some s
    \<and> connectInFlight s \<and> timeouts s = [] \<and> intervals s = []"
proof -
  let ?fs = "[TicketResolved (Some ''t1''), SocketOpen 0, SocketClose 0, TimeoutFires 1]"
  obtain s where s: "ws_run ''ws://h'' ''r1'' new_client (Connect # ?fs) = Some s"
    and c: "connectInFlight s" "status s = connecting"
    by (simp add: new_client_def ws_defs ready_def js_defs js_nth_def maxReconnectAttempts_def Let_def)
  have "reachable ws_init (hook_step ''ws://h'' ''r1'') s" by (rule hook_run [OF s refl]) simp
  from ws_single_activity [OF this] s c show ?thesis by auto
qed


text \<open>What a disconnected client can still do: drop a late ticket, and see its socket close.\<close>

definition same_traffic :: "ws_client \<Rightarrow> ws_client \<Rightarrow> bool" where
  "same_traffic s t \<longleftrightarrow>
     frames t = frames s \<and> delivered t = delivered s \<and> socket_urls t = socket_urls s
     \<and> length (sockets t) = length (sockets s)"

lemma no_open_socket:
  assumes "ws_inv s" and "intentionalClose s" and "i < length (sockets s)"
  shows "sockets s ! i \<noteq> OPEN" and "sockets s ! i \<noteq> CONNECTING"
  using assms live_newest(4) [of s i] by (auto simp: ws_inv_defs)

lemma disconnected_step:
  assumes "ws_inv s" and "intentionalClose s" and "hook_step base room s e t"
  shows "intentionalClose t \<and> same_traffic s t"
  using assms(3) [unfolded hook_step_def, THEN conjunct1]
proof (cases rule: ws_step.cases)
  case call_connect
  with assms show ?thesis by (simp add: hook_step_def)
next
  case call_disconnect
  have "intentionalClose (stopHeartbeat u) = intentionalClose u"
    and "frames (stopHeartbeat u) = frames u" "delivered (stopHeartbeat u) = delivered u"
    and "socket_urls (stopHeartbeat u) = socket_urls u" "sockets (stopHeartbeat u) = sockets u" for u
    by (simp_all add: stopHeartbeat_def split: option.splits)
  then show ?thesis using call_disconnect
    by (auto simp: disconnect_def Let_def setStatus_def same_traffic_def close_socket_def
        split: option.splits)
next
  case (call_send data)
  have "ready s \<noteq> Some OPEN" using ready_newest(1) [of s] assms(1,2) by (simp add: ws_inv_def)
  with call_send assms(2) show ?thesis by (simp add: send_def same_traffic_def)
next
  case (closed i)
  with assms(1,2) show ?thesis
    by (auto simp: onclose_def setStatus_def stopHeartbeat_def Let_def same_traffic_def ws_inv_defs)
next
  case (timeout u)
  with assms(1,2) show ?thesis by (auto simp: ws_inv_defs)
next
  case (interval h)
  with assms(1,2) show ?thesis by (cases "heartbeatInterval s") (auto simp: ws_inv_defs)
qed (use assms no_open_socket [OF assms(1,2)] in
  \<open>auto simp: ticket_resolved_def ticket_rejected_def same_traffic_def\<close>)

lemma disconnected_run:
  "run (hook_step base room) s es t \<Longrightarrow> ws_inv s \<Longrightarrow> intentionalClose s
   \<Longrightarrow> ws_inv t \<and> intentionalClose t \<and> same_traffic s t"
proof (induction rule: run.induct)
  case (run_Nil s)
  then show ?case by (simp add: same_traffic_def)
next
  case (run_Cons s e t es u)
  from disconnected_step [OF run_Cons(4,5,1)] ws_inv_step [OF run_Cons(4,1)] run_Cons(3)
  show ?case by (simp add: same_traffic_def)
qed

text \<open>
  C12: \<open>disconnect\<close> is final. Whatever the client is doing when the owner disconnects it (waiting for a
  ticket, opening, connected, waiting to reconnect), on every continuation it opens no socket, sends
  nothing, delivers nothing, starts no timeout or heartbeat, and reports disconnected.
\<close>

theorem disconnect_final:
  assumes "reachable ws_init (hook_step base room) s" and "hook_step base room s Disconnect t"
    and "run (hook_step base room) t es u"
  shows "same_traffic t u \<and> timeouts u = [] \<and> intervals u = [] \<and> status u = disconnected
    \<and> ready u = None \<and> (\<forall>i < length (sockets u). sockets u ! i \<in> {CLOSING, CLOSED})"
proof -
  have inv: "ws_inv t" by (rule ws.reachable_step_inv [OF assms(1,2)])
  have "t = disconnect s" using assms(2) by (auto simp: hook_step_def ws_step_next)
  then have "intentionalClose t"
    by (auto simp: disconnect_def Let_def setStatus_def stopHeartbeat_def split: option.splits)
  with disconnected_run [OF assms(3) inv]
  have u: "ws_inv u" "intentionalClose u" "same_traffic t u" by blast+
  have "sockets u ! i \<in> {CLOSING, CLOSED}" if "i < length (sockets u)" for i
    using no_open_socket [OF u(1,2) that] by (cases "sockets u ! i") auto
  moreover have "timeouts u = []" "intervals u = []" "status u = disconnected" "ready u = None"
    using u by (auto simp: ws_inv_defs ready_def split: option.splits)
  ultimately show ?thesis using u(3) by blast
qed

theorem disconnect_final_witness:
  "\<exists>s t u. ws_run ''ws://h'' ''r1'' new_client [Connect, TicketResolved (Some ''t1'')] = Some s
    \<and> t = disconnect s \<and> ws_run ''ws://h'' ''r1'' t [SocketClose 0] = Some u
    \<and> timeouts u = [] \<and> status u = disconnected"
proof -
  obtain s where s: "ws_run ''ws://h'' ''r1'' new_client [Connect, TicketResolved (Some ''t1'')] = Some s"
    and c: "sockets s = [CONNECTING]" "ws s = Some 0" "heartbeatInterval s = None" "reconnectTimeout s = None"
    by (simp add: new_client_def ws_defs ready_def js_defs js_nth_def Let_def)
  have r: "reachable ws_init (hook_step ''ws://h'' ''r1'') s" by (rule hook_run [OF s refl]) simp
  have d: "hook_step ''ws://h'' ''r1'' s Disconnect (disconnect s)"
    by (simp add: hook_step_def call_disconnect)
  have "sockets (disconnect s) = [CLOSING]"
    using c by (simp add: disconnect_def Let_def setStatus_def stopHeartbeat_def close_socket_def
        split: option.splits)
  then obtain u where u: "ws_next ''ws://h'' ''r1'' (disconnect s) (SocketClose 0) = Some u" by simp
  then have "run (hook_step ''ws://h'' ''r1'') (disconnect s) [SocketClose 0] u"
    by (simp add: run_Cons_iff hook_step_def ws_step_next)
  from disconnect_final [OF r d this] s u show ?thesis by (auto simp del: ws_next.simps)
qed

text \<open>
  C33: reconnection is bounded and backs off. On every run at most eleven tickets are requested without a
  socket opening in between; every pending reconnection waits between one and thirty seconds; a
  failed ticket or a lost socket schedules the next try, with the delay doubled up to the maximum,
  unless ten tries are used up; and an opened socket resets the count.
\<close>

theorem ws_backoff:
  assumes "reachable ws_init (hook_step base room) s"
  shows "tries s \<le> 11 \<and> reconnectAttempt s \<le> 10
    \<and> map reconnect_delay [0..<10] = [1000, 2000, 4000, 8000, 16000, 30000, 30000, 30000, 30000, 30000]
    \<and> (\<forall>e t. hook_step base room s e t \<and> \<not> intentionalClose s
          \<and> (e = TicketRejected \<or> (\<exists>i. e = SocketClose i)) \<longrightarrow>
         (if reconnectAttempt s < 10
          then \<exists>n. timeouts t = [(n, reconnect_delay (reconnectAttempt s))]
                 \<and> reconnectAttempt t = reconnectAttempt s + 1
          else timeouts t = []))
    \<and> (\<forall>i t. hook_step base room s (SocketOpen i) t \<longrightarrow> reconnectAttempt t = 0 \<and> status t = connected)"
proof (intro conjI allI impI)
  have inv: "ws_inv s" by (rule ws.reachable_inv [OF assms])
  show "tries s \<le> 11" "reconnectAttempt s \<le> 10"
    using inv by (auto simp: ws_inv_defs split: if_splits)
  show "map reconnect_delay [0..<10] = [1000, 2000, 4000, 8000, 16000, 30000, 30000, 30000, 30000, 30000]"
    by (simp add: reconnect_delay_def upt_rec)
  fix e t assume e: "hook_step base room s e t \<and> \<not> intentionalClose s
      \<and> (e = TicketRejected \<or> (\<exists>i. e = SocketClose i))"
  have none: "timeouts s = []"
  proof (cases "e = TicketRejected")
    case True
    with e have "connectInFlight s" by (auto simp: hook_step_def ws_step_next split: if_splits)
    with inv show ?thesis by (auto simp: ws_inv_def activity_inv_def)
  next
    case False
    with e obtain i where "i < length (sockets s)" "sockets s ! i \<noteq> CLOSED"
      by (auto simp: hook_step_def ws_step_next split: if_splits)
    with live_newest(4) [of s i] inv show ?thesis by (auto simp: ws_inv_def activity_inv_def)
  qed
  have stop: "timeouts (stopHeartbeat u) = timeouts u" "reconnectAttempt (stopHeartbeat u) = reconnectAttempt u"
    "intentionalClose (stopHeartbeat u) = intentionalClose u" for u
    by (simp_all add: stopHeartbeat_def split: option.splits)
  from e none show "if reconnectAttempt s < 10
      then \<exists>n. timeouts t = [(n, reconnect_delay (reconnectAttempt s))]
             \<and> reconnectAttempt t = reconnectAttempt s + 1
      else timeouts t = []"
    by (auto simp: hook_step_def ws_step_next ticket_rejected_def onclose_def Let_def setStatus_def
        scheduleReconnect_def maxReconnectAttempts_def stop split: if_splits)
next
  fix i t assume "hook_step base room s (SocketOpen i) t"
  then show "reconnectAttempt t = 0" "status t = connected"
    by (auto simp: hook_step_def ws_step_next onopen_def startHeartbeat_def stopHeartbeat_def
        setStatus_def Let_def split: if_splits option.splits)
qed

theorem ws_backoff_witness:
  "\<exists>s. ws_run ''ws://h'' ''r1'' new_client [Connect, TicketRejected, TimeoutFires 0] = Some s
    \<and> tries s = 2 \<and> tries s \<le> 11"
proof -
  obtain s where s: "ws_run ''ws://h'' ''r1'' new_client [Connect, TicketRejected, TimeoutFires 0] = Some s"
    and c: "tries s = 2"
    by (simp add: new_client_def ws_defs ready_def js_defs js_nth_def maxReconnectAttempts_def Let_def)
  have "reachable ws_init (hook_step ''ws://h'' ''r1'') s" by (rule hook_run [OF s refl]) simp
  from ws_backoff [OF this] s c show ?thesis by auto
qed

text \<open>
  The ticket travels intact in the URL of the socket: it is its only query parameter and reads
  back as it was issued, whatever its characters.
\<close>

theorem socket_url_ticket:
  assumes "CHR ''?'' \<notin> set base" and "CHR ''?'' \<notin> set room"
  shows "parse_query (query_part (socket_url base room ticket)) = Some [(''ticket'', ticket)]"
proof -
  have "CHR ''?'' \<notin> set (base @ ''/api/chat/rooms/'' @ room @ ''/ws'')" using assms by simp
  from query_part_append [OF this, of "''ticket='' @ encodeURIComponent ticket"]
  have q: "query_part (socket_url base room ticket) = ''ticket'' @ CHR ''='' # encodeURIComponent ticket"
    by (simp add: socket_url_def)
  have "list_all form_keep ''ticket''" by (simp add: form_keep_def alnum_def)
  with parse_query_component [of "''ticket''" ticket] show ?thesis unfolding q by simp
qed

theorem socket_url_ticket_witness:
  "parse_query (query_part (socket_url (WS_BASE None (Some \<lparr>loc_protocol = ''http:'',
      loc_hostname = ''localhost'', loc_port = ''3000''\<rparr>)) ''r1'' ''a+b/c=='')) = Some [(''ticket'', ''a+b/c=='')]"
  by (rule socket_url_ticket) (simp_all add: WS_BASE_def js_defs)

fun failures :: "nat \<Rightarrow> ws_event list" where
  "failures 0 = []"
| "failures (Suc n) = failures n @ [TimeoutFires n, TicketRejected]"

lemma failures_10:
  "failures 10 =
    [TimeoutFires 0, TicketRejected, TimeoutFires 1, TicketRejected, TimeoutFires 2,
     TicketRejected, TimeoutFires 3, TicketRejected, TimeoutFires 4, TicketRejected,
     TimeoutFires 5, TicketRejected, TimeoutFires 6, TicketRejected, TimeoutFires 7,
     TicketRejected, TimeoutFires 8, TicketRejected, TimeoutFires 9, TicketRejected]"
  by (simp add: numeral_eq_Suc)

text \<open>
  A client that never gets a ticket ends up reporting connecting for good: after the eleventh failure
  no request, timeout or socket is left, and \<open>scheduleReconnect\<close> returns without a status change.
\<close>

theorem ws_gives_up_connecting:
  "\<exists>s. ws_run ''ws://h'' ''r1'' new_client ([Connect, TicketRejected] @ failures 10) = Some s
    \<and> reachable ws_init (hook_step ''ws://h'' ''r1'') s
    \<and> status s = connecting \<and> timeouts s = [] \<and> \<not> connectInFlight s \<and> sockets s = []
    \<and> (\<forall>e t. hook_step ''ws://h'' ''r1'' s e t \<longrightarrow> e = Disconnect \<or> (\<exists>d. e = Send d \<and> t = s))"
proof -
  let ?es = "[Connect, TicketRejected] @ failures 10"
  have "map_option (\<lambda>s. (status s, timeouts s, connectInFlight s, sockets s, intervals s, connect_called s, ws s))
      (ws_run ''ws://h'' ''r1'' new_client ?es) = Some (connecting, [], False, [], [], True, None)"
    unfolding failures_10
    by (simp add: new_client_def ws_defs ready_def maxReconnectAttempts_def Let_def)
  then obtain s where s: "ws_run ''ws://h'' ''r1'' new_client ?es = Some s"
    and c: "status s = connecting" "timeouts s = []" "\<not> connectInFlight s" "sockets s = []"
      "intervals s = []" "connect_called s" "ws s = None"
    by auto
  have "reachable ws_init (hook_step ''ws://h'' ''r1'') s"
    by (rule hook_run [OF s]) (simp, simp add: eval_nat_numeral)
  moreover have "e = Disconnect \<or> (\<exists>d. e = Send d \<and> t = s)" if "hook_step ''ws://h'' ''r1'' s e t" for e t
    using that c by (cases e) (auto simp: hook_step_def ws_step_next send_def ready_def)
  ultimately show ?thesis using s c by blast
qed

theorem ws_gives_up_connecting_witness:
  "\<exists>s. ws_run ''ws://h'' ''r1'' new_client ([Connect, TicketRejected] @ failures 10) = Some s
    \<and> status s = connecting \<and> ws_next ''ws://h'' ''r1'' s (TimeoutFires 9) = None"
  using ws_gives_up_connecting by fastforce

text \<open>
  Outside the discipline of the hook, calling \<open>connect\<close> again after \<open>disconnect\<close> is not safe: while
  the first ticket request is pending the second \<open>connect\<close> is lost, and when the old socket closes late
  its handler stops the heartbeat of the new one, which stays open while the client reports
  disconnected.
\<close>

theorem reconnect_after_disconnect:
  "(\<exists>s. ws_run ''ws://h'' ''r1'' new_client [Connect, Disconnect, Connect, TicketResolved (Some ''t1'')] = Some s
      \<and> sockets s = [] \<and> \<not> connectInFlight s \<and> timeouts s = [] \<and> status s = disconnected)
   \<and> (\<exists>s. ws_run ''ws://h'' ''r1'' new_client
        [Connect, TicketResolved (Some ''t1''), SocketOpen 0, Disconnect,
         Connect, TicketResolved (Some ''t2''), SocketOpen 1, SocketClose 0] = Some s
      \<and> sockets s = [CLOSED, OPEN] \<and> intervals s = [] \<and> status s = disconnected)"
  by (simp add: new_client_def ws_defs ready_def js_defs js_nth_def maxReconnectAttempts_def Let_def
      close_socket_def)

end
