(* ===== verification/Message_Feed.thy ===== *)
theory Message_Feed
  imports Api_Client Ws_Client
begin

text \<open>
  The message list of a room, \<^verbatim>\<open>src/frontend/src/features/chat/hooks/use-messages.ts\<close>: the
  cached pages, the events of the socket, the gap fill after a reconnection and the optimistic
  insertion of a sent message. Pages and messages run from newest to oldest. The query cache of the
  room is a value of the state, and each callback of the hook is a function on it.
\<close>

named_theorems feed_defs \<open>definitions of the callbacks on the feed\<close>


section \<open>The cached pages\<close>

text \<open>
  \<open>pg_data\<close> is None when the body's data is no array. The parameters of the pages are kept beside
  them, as \<open>InfiniteData\<close> does.
\<close>

record page =
  pg_data :: "message list option"
  pg_next_cursor :: "string option"
  pg_has_more :: bool

record feed =
  pages :: "page list"
  pageParams :: "string option list"

record cursor =
  cur_created_at :: string
  cur_id :: string

definition seedPage :: "message list \<Rightarrow> page" where
  "seedPage data = \<lparr>pg_data = Some data, pg_next_cursor = None, pg_has_more = False\<rparr>"

definition seed_feed :: "message list \<Rightarrow> feed" where
  "seed_feed data = \<lparr>pages = [seedPage data], pageParams = [None]\<rparr>"

definition getNextPageParam :: "page \<Rightarrow> string option" where
  "getNextPageParam lastPage =
     (if pg_has_more lastPage \<and> truthy_ostr (pg_next_cursor lastPage)
      then pg_next_cursor lastPage else None)"

definition page_messages :: "page \<Rightarrow> message list" where
  "page_messages p = (case pg_data p of None \<Rightarrow> [] | Some d \<Rightarrow> d)"

text \<open>\<open>allMessages\<close>: the pages one after the other.\<close>

definition allMessages :: "feed option \<Rightarrow> message list" where
  "allMessages old = (case old of None \<Rightarrow> [] | Some f \<Rightarrow> concat (map page_messages (pages f)))"

text \<open>The first page, when the cache has one with an array.\<close>

definition first_data :: "feed option \<Rightarrow> (feed \<times> page \<times> page list \<times> message list) option" where
  "first_data old =
     (case old of None \<Rightarrow> None
      | Some f \<Rightarrow>
          (case pages f of [] \<Rightarrow> None
           | p # ps \<Rightarrow> (case pg_data p of None \<Rightarrow> None | Some d \<Rightarrow> Some (f, p, ps, d))))"

definition with_first :: "feed \<Rightarrow> page \<Rightarrow> page list \<Rightarrow> message list \<Rightarrow> feed" where
  "with_first f p ps d = f\<lparr>pages := p\<lparr>pg_data := Some d\<rparr> # ps\<rparr>"


section \<open>Events of the socket\<close>

definition cursor_of :: "message \<Rightarrow> cursor" where
  "cursor_of m = \<lparr>cur_created_at = msg_created_at m, cur_id = msg_id m\<rparr>"

text \<open>The message of a new-message event when there is one with an id.\<close>

fun new_of :: "server_event \<Rightarrow> message option" where
  "new_of (NewMessage (Some m)) = (if truthy_str (msg_id m) then Some m else None)"
| "new_of _ = None"

fun apply_first :: "server_event \<Rightarrow> message list \<Rightarrow> message list" where
  "apply_first (NewMessage (Some m)) d =
     (if truthy_str (msg_id m) then m # filter (\<lambda>x. msg_id x \<noteq> msg_id m) d else d)"
| "apply_first (UpdatedMessage (Some u)) d =
     (if truthy_str (msg_id u) then map (\<lambda>x. if msg_id x = msg_id u then u else x) d else d)"
| "apply_first (DeletedMessage (Some i)) d =
     (if truthy_str i then filter (\<lambda>x. msg_id x \<noteq> i) d else d)"
| "apply_first _ d = d"

text \<open>The new cache, and the cursor of the newest message when the event moves it.\<close>

definition handleWsMessage ::
    "server_event \<Rightarrow> feed option \<times> cursor option \<Rightarrow> feed option \<times> cursor option" where
  "handleWsMessage event = (\<lambda>(old, lastCursor).
     let moved = (case new_of event of Some m \<Rightarrow> Some (cursor_of m) | None \<Rightarrow> lastCursor)
     in case first_data old of
          None \<Rightarrow>
            (case new_of event of None \<Rightarrow> (old, lastCursor)
             | Some m \<Rightarrow> (Some (seed_feed [m]), moved))
        | Some (f, p, ps, d) \<Rightarrow> (Some (with_first f p ps (apply_first event d)), moved))"


section \<open>The gap fill\<close>

definition afterCursor :: "cursor \<Rightarrow> string" where
  "afterCursor c =
     btoa (stringify (JObj [(''created_at'', JStr (cur_created_at c)), (''id'', JStr (cur_id c))]))"

definition gap_cursor :: "cursor option \<Rightarrow> feed option \<Rightarrow> cursor option" where
  "gap_cursor lastCursor shown =
     (case first_data shown of None \<Rightarrow> None
      | Some (f, p, ps, d) \<Rightarrow> if d \<noteq> [] then lastCursor else None)"

definition mergeGap :: "message list \<Rightarrow> feed option \<Rightarrow> feed option" where
  "mergeGap resynced old =
     (if resynced = [] then old
      else case first_data old of None \<Rightarrow> old
      | Some (f, p, ps, d) \<Rightarrow>
          (let newMessages = filter (\<lambda>m. msg_id m \<notin> set (map msg_id d)) resynced
           in Some (with_first f p ps (newMessages @ d))))"

text \<open>The effect that follows every change of the list.\<close>

definition trackNewest :: "feed option \<Rightarrow> cursor option \<Rightarrow> cursor option" where
  "trackNewest shown lastCursor =
     (case allMessages shown of [] \<Rightarrow> lastCursor | m # ms \<Rightarrow> Some (cursor_of m))"


section \<open>Sending a message\<close>

definition optimistic_message :: "string \<Rightarrow> string \<Rightarrow> user \<Rightarrow> string \<Rightarrow> string \<Rightarrow> message" where
  "optimistic_message i roomId u now content =
     \<lparr>msg_id = i, msg_room_id = roomId, msg_author_id = user_id u, msg_author_name = user_name u,
      msg_type = TEXT, msg_content = content, msg_created_at = now, msg_updated_at = None\<rparr>"

definition onMutate :: "message \<Rightarrow> feed option \<Rightarrow> feed option" where
  "onMutate optimistic old =
     (case first_data old of
        None \<Rightarrow> Some (seed_feed [optimistic])
      | Some (f, p, ps, d) \<Rightarrow> Some (with_first f p ps (optimistic # d)))"

text \<open>\<open>onError\<close> puts back the snapshot, when there was one.\<close>

definition onError :: "feed option \<Rightarrow> feed option \<Rightarrow> feed option" where
  "onError previous current = (case previous of Some f \<Rightarrow> Some f | None \<Rightarrow> current)"


section \<open>The status of the socket\<close>

text \<open>
  What \<open>onStatusChange\<close> does at once: the connected flag, and a toast when the client is disconnected
  while the hook still holds it. On connected it dismisses the toast and asks for the gap.
\<close>

datatype chat_effect = ToastError string | DismissToast string | FetchAfter string

definition onStatusChange :: "ws_status \<Rightarrow> bool \<Rightarrow> cursor option \<Rightarrow> feed option \<Rightarrow> bool \<times> chat_effect list" where
  "onStatusChange st holds_client lastCursor shown =
     (st = connected,
      (if st = disconnected \<and> holds_client then [ToastError ''Connection lost. Reconnecting...''] else [])
      @ (if st = connected
         then DismissToast ''ws-reconnect'' #
              (case gap_cursor lastCursor shown of None \<Rightarrow> [] | Some c \<Rightarrow> [FetchAfter (afterCursor c)])
         else []))"

text \<open>The cleanup of the effect: the client is disconnected first, the reference dropped after.\<close>

definition unmount_effects :: "ws_client \<Rightarrow> cursor option \<Rightarrow> feed option \<Rightarrow> chat_effect list" where
  "unmount_effects client lastCursor shown =
     concat (map (\<lambda>st. snd (onStatusChange st True lastCursor shown))
       (drop (length (status_changes client)) (status_changes (disconnect client))))"


section \<open>Lemmas\<close>

lemma first_data_Some [simp]:
  "first_data (Some f) = Some (g, p, ps, d) \<longleftrightarrow> g = f \<and> pages f = p # ps \<and> pg_data p = Some d"
  by (auto simp: first_data_def split: list.splits option.splits)

lemma first_data_with [simp]:
  "first_data (Some (with_first f p ps d)) = Some (with_first f p ps d, p\<lparr>pg_data := Some d\<rparr>, ps, d)"
  by (simp add: with_first_def)

lemma allMessages_with:
  "allMessages (Some (with_first f p ps d)) = d @ concat (map page_messages ps)"
  by (simp add: allMessages_def with_first_def page_messages_def)

lemma allMessages_seed [simp]: "allMessages (Some (seed_feed d)) = d"
  by (simp add: allMessages_def seed_feed_def seedPage_def page_messages_def)

lemma first_data_cases:
  obtains (none) "first_data old = None" | (some) f p ps d where "first_data old = Some (f, p, ps, d)"
  by (metis not_Some_eq surj_pair)

lemma allMessages_first: "first_data old = Some (f, p, ps, d) \<Longrightarrow> allMessages old = d @ concat (map page_messages ps)"
  by (cases old) (auto simp: first_data_def allMessages_def page_messages_def split: list.splits option.splits)

text \<open>A cache whose first page holds an array; the first page keeps its other fields.\<close>

definition first_ids_distinct :: "feed option \<Rightarrow> bool" where
  "first_ids_distinct old \<longleftrightarrow>
     (case first_data old of None \<Rightarrow> True | Some (f, p, ps, d) \<Rightarrow> distinct (map msg_id d))"

lemma distinct_filter_ids: "distinct (map msg_id d) \<Longrightarrow> distinct (map msg_id (filter P d))"
  by (induction d) auto

lemma map_update_ids:
  "map msg_id (map (\<lambda>x. if msg_id x = msg_id u then u else x) d) = map msg_id d"
  by (induction d) auto

lemma apply_first_distinct: "distinct (map msg_id d) \<Longrightarrow> distinct (map msg_id (apply_first e d))"
proof (induction e d rule: apply_first.induct)
  case (2 u d)
  then show ?case by (simp del: map_map add: map_update_ids)
qed (auto simp: distinct_filter_ids)

lemma handle_distinct:
  assumes "first_ids_distinct old"
  shows "first_ids_distinct (fst (handleWsMessage e (old, c)))"
proof (cases rule: first_data_cases [of old])
  case none
  then show ?thesis using assms
    by (auto simp: handleWsMessage_def Let_def first_ids_distinct_def seed_feed_def seedPage_def
        first_data_def split: option.splits)
next
  case (some f p ps d)
  with assms show ?thesis
    by (simp add: handleWsMessage_def Let_def first_ids_distinct_def apply_first_distinct)
qed

lemma merge_distinct:
  assumes "first_ids_distinct old" and "distinct (map msg_id resynced)"
  shows "first_ids_distinct (mergeGap resynced old)"
proof (cases rule: first_data_cases [of old])
  case (some f p ps d)
  with assms have "distinct (map msg_id d)" by (simp add: first_ids_distinct_def)
  then have "distinct (map msg_id (filter (\<lambda>m. msg_id m \<notin> set (map msg_id d)) resynced @ d))"
    using assms(2) by (auto simp: distinct_filter_ids)
  with some assms(1) show ?thesis by (simp add: mergeGap_def Let_def first_ids_distinct_def)
qed (use assms(1) in \<open>simp add: mergeGap_def\<close>)


section \<open>The chat as a machine\<close>

text \<open>
  \<open>snapshots\<close> holds what each pending send would put back. A sent message has a fresh id
  (\<open>crypto.randomUUID\<close>); what the server lists holds no id twice.
\<close>

record chat =
  cache :: "feed option"
  lastCursor :: "cursor option"
  snapshots :: "(string \<times> feed option) list"

datatype chat_event =
    WsEvent server_event
  | GapAnswer "message list"
  | Track
  | Mutate message
  | SendFailed string
  | SendDone string
  | Refetched feed

inductive chat_step :: "chat \<Rightarrow> chat_event \<Rightarrow> chat \<Rightarrow> bool" where
  ws_event: "handleWsMessage e (cache s, lastCursor s) = (f, c) \<Longrightarrow>
    chat_step s (WsEvent e) (s\<lparr>cache := f, lastCursor := c\<rparr>)"
| gap_answer: "distinct (map msg_id ms) \<Longrightarrow>
    chat_step s (GapAnswer ms) (s\<lparr>cache := mergeGap ms (cache s)\<rparr>)"
| track: "chat_step s Track (s\<lparr>lastCursor := trackNewest (cache s) (lastCursor s)\<rparr>)"
| mutate: "msg_id m \<notin> set (map msg_id (allMessages (cache s))) \<Longrightarrow>
    chat_step s (Mutate m)
      (s\<lparr>cache := onMutate m (cache s), snapshots := (msg_id m, cache s) # snapshots s\<rparr>)"
| send_failed: "map_of (snapshots s) i = Some previous \<Longrightarrow>
    chat_step s (SendFailed i)
      (s\<lparr>cache := onError previous (cache s), snapshots := filter (\<lambda>p. fst p \<noteq> i) (snapshots s)\<rparr>)"
| send_done: "chat_step s (SendDone i) (s\<lparr>snapshots := filter (\<lambda>p. fst p \<noteq> i) (snapshots s)\<rparr>)"
| refetched: "first_ids_distinct (Some f) \<Longrightarrow> chat_step s (Refetched f) (s\<lparr>cache := Some f\<rparr>)"

definition chat_init :: "chat \<Rightarrow> bool" where
  "chat_init s \<longleftrightarrow> cache s = None \<and> lastCursor s = None \<and> snapshots s = []"

definition chat_inv :: "chat \<Rightarrow> bool" where
  "chat_inv s \<longleftrightarrow>
     first_ids_distinct (cache s) \<and> (\<forall>p \<in> set (snapshots s). first_ids_distinct (snd p))"

lemma mutate_distinct:
  assumes "first_ids_distinct old" and "msg_id m \<notin> set (map msg_id (allMessages old))"
  shows "first_ids_distinct (onMutate m old)"
proof (cases rule: first_data_cases [of old])
  case none
  then show ?thesis
    by (auto simp: onMutate_def first_ids_distinct_def first_data_def seed_feed_def seedPage_def)
next
  case (some f p ps d)
  with assms allMessages_first [OF some] show ?thesis
    by (auto simp: onMutate_def first_ids_distinct_def)
qed

lemma chat_inv_step:
  assumes "chat_inv s" and "chat_step s e t"
  shows "chat_inv t"
  using assms(2)
proof (cases rule: chat_step.cases)
  case (ws_event e f c)
  with assms(1) handle_distinct [of "cache s" e "lastCursor s"] show ?thesis by (simp add: chat_inv_def)
next
  case (send_failed i previous)
  then have "first_ids_distinct previous" using assms(1) by (auto simp: chat_inv_def dest!: map_of_SomeD)
  with send_failed assms(1) show ?thesis by (auto simp: chat_inv_def onError_def split: option.splits)
qed (use assms(1) merge_distinct mutate_distinct in \<open>auto simp: chat_inv_def\<close>)

interpretation chat: invariant_machine chat_init chat_step chat_inv
proof unfold_locales
  show "chat_init s \<Longrightarrow> chat_inv s" for s
    by (simp add: chat_init_def chat_inv_def first_ids_distinct_def first_data_def)
qed (rule chat_inv_step)


section \<open>The feed as a map from ids to messages\<close>

definition by_id :: "message list \<Rightarrow> string \<rightharpoonup> message" where
  "by_id ms = map_of (map (\<lambda>m. (msg_id m, m)) ms)"

text \<open>What an event promises, whatever the representation.\<close>

fun promised :: "server_event \<Rightarrow> (string \<rightharpoonup> message) \<Rightarrow> (string \<rightharpoonup> message)" where
  "promised (NewMessage (Some m)) M = (if msg_id m \<noteq> [] then M(msg_id m \<mapsto> m) else M)"
| "promised (UpdatedMessage (Some u)) M =
     (if msg_id u \<noteq> [] \<and> msg_id u \<in> dom M then M(msg_id u \<mapsto> u) else M)"
| "promised (DeletedMessage (Some i)) M = (if i \<noteq> [] then M(i := None) else M)"
| "promised _ M = M"

lemma by_id_simps [simp]:
  "by_id [] = Map.empty"
  "by_id (m # ms) = (by_id ms)(msg_id m \<mapsto> m)"
  by (simp_all add: by_id_def)

lemma dom_by_id: "dom (by_id ms) = msg_id ` set ms"
  by (simp add: by_id_def dom_map_of_conv_image_fst image_image)

lemma by_id_filter: "by_id (filter (\<lambda>x. msg_id x \<noteq> i) ms) = (by_id ms)(i := None)"
  by (induction ms) auto

lemma by_id_update:
  "distinct (map msg_id ms) \<Longrightarrow>
   by_id (map (\<lambda>x. if msg_id x = msg_id u then u else x) ms)
     = (if msg_id u \<in> dom (by_id ms) then (by_id ms)(msg_id u \<mapsto> u) else by_id ms)"
  by (induction ms) (auto simp: fun_upd_twist dom_by_id)

lemma by_id_apply: "distinct (map msg_id d) \<Longrightarrow> by_id (apply_first e d) = promised e (by_id d)"
proof (induction e d rule: apply_first.induct)
  case (2 u d)
  then show ?case using by_id_update [of d u]
    by (auto simp: js_defs fun_upd_def)
qed (auto simp: js_defs by_id_filter)

definition one_page :: "feed option \<Rightarrow> bool" where
  "one_page old \<longleftrightarrow> (case old of None \<Rightarrow> True | Some f \<Rightarrow> length (pages f) \<le> 1)"

lemma no_first_empty: "one_page old \<Longrightarrow> first_data old = None \<Longrightarrow> allMessages old = []"
  by (auto simp: one_page_def first_data_def allMessages_def page_messages_def
      split: option.splits list.splits)

lemma handle_one_page:
  assumes "one_page old" and "first_ids_distinct old"
  shows "one_page (fst (handleWsMessage e (old, c)))"
    and "by_id (allMessages (fst (handleWsMessage e (old, c)))) = promised e (by_id (allMessages old))"
proof -
  have "one_page (fst (handleWsMessage e (old, c))) \<and>
    by_id (allMessages (fst (handleWsMessage e (old, c)))) = promised e (by_id (allMessages old))"
  proof (cases rule: first_data_cases [of old])
    case none
    with no_first_empty [OF assms(1) none] assms(1) show ?thesis
      by (cases "(e, Map.empty :: string \<rightharpoonup> message)" rule: promised.cases)
        (auto simp: handleWsMessage_def one_page_def seed_feed_def allMessages_def seedPage_def
          page_messages_def js_defs split: option.splits)
  next
    case (some f p ps d)
    then have "ps = []" using assms(1)
      by (auto simp: one_page_def first_data_def split: option.splits list.splits)
    moreover have "distinct (map msg_id d)" using assms(2) some by (simp add: first_ids_distinct_def)
    ultimately show ?thesis using some allMessages_first [OF some]
      by (simp add: handleWsMessage_def allMessages_with by_id_apply)
        (simp add: one_page_def with_first_def)
  qed
  then show "one_page (fst (handleWsMessage e (old, c)))"
    and "by_id (allMessages (fst (handleWsMessage e (old, c)))) = promised e (by_id (allMessages old))"
    by blast+
qed


section \<open>Properties\<close>

definition msg_at :: "string \<Rightarrow> string \<Rightarrow> string \<Rightarrow> message" where
  "msg_at i t content =
     \<lparr>msg_id = i, msg_room_id = ''r1'', msg_author_id = ''u1'', msg_author_name = ''Ada'',
      msg_type = TEXT, msg_content = content, msg_created_at = t, msg_updated_at = None\<rparr>"

text \<open>
  C13: the feed never shows one message twice on its first page, whatever the interleaving of socket events,
  gap fills, sends, failed sends and refetches: an optimistic message and its echo, a gap that overlaps
  what is shown, or a rollback do not duplicate.
\<close>

theorem feed_no_duplicates:
  assumes "reachable chat_init chat_step s" and "first_data (cache s) = Some (f, p, ps, d)"
  shows "distinct (map msg_id d)"
  using chat.reachable_inv [OF assms(1)] assms(2) by (simp add: chat_inv_def first_ids_distinct_def)

theorem feed_no_duplicates_witness:
  "\<exists>s. reachable chat_init chat_step s
    \<and> allMessages (cache s) = [msg_at ''m1'' ''t1'' ''hi!''] \<and> distinct (map msg_id (allMessages (cache s)))"
proof -
  let ?o = "msg_at ''m1'' ''t0'' ''hi!''" and ?m = "msg_at ''m1'' ''t1'' ''hi!''"
  define s0 where "s0 = \<lparr>cache = None, lastCursor = None, snapshots = []\<rparr>"
  define s1 where "s1 = \<lparr>cache = Some (seed_feed [?o]), lastCursor = None, snapshots = [(''m1'', None)]\<rparr>"
  define s2 where "s2 = s1\<lparr>cache := Some (seed_feed [?m]), lastCursor := Some (cursor_of ?m)\<rparr>"
  have "chat_step s0 (Mutate ?o) s1"
    using mutate [of ?o s0]
    by (simp add: s0_def s1_def onMutate_def first_data_def allMessages_def) (simp add: msg_at_def)
  moreover have "chat_step s1 (WsEvent (NewMessage (Some ?m))) s2"
    unfolding s2_def
    by (rule ws_event) (simp add: s1_def handleWsMessage_def first_data_def seed_feed_def seedPage_def
      with_first_def js_defs msg_at_def)
  ultimately have "run chat_step s0 [Mutate ?o, WsEvent (NewMessage (Some ?m))] s2"
    by (auto simp: run_Cons_iff)
  then have r: "reachable chat_init chat_step s2"
    by (rule reachableI [of chat_init, rotated]) (simp add: chat_init_def s0_def)
  have f: "first_data (cache s2) = Some (seed_feed [?m], seedPage [?m], [], [?m])"
    by (simp add: s2_def s1_def first_data_def seed_feed_def seedPage_def)
  from feed_no_duplicates [OF r f] have "distinct (map msg_id (allMessages (cache s2)))"
    by (simp add: s2_def)
  with r show ?thesis by (intro exI [of _ s2]) (simp add: s2_def)
qed

text \<open>
  C7: on a feed of at most one page, the events of the socket do what they promise: the feed, read as a
  map from ids to messages, changes by exactly the insertion, replacement or removal the event stands
  for, for every sequence of events, starting with an empty cache too.
\<close>

theorem feed_refines_map:
  assumes "one_page old" and "first_ids_distinct old"
  shows "by_id (allMessages (fst (fold handleWsMessage es (old, c)))) = fold promised es (by_id (allMessages old))"
  using assms
proof (induction es arbitrary: old c)
  case (Cons e es)
  obtain old' c' where h: "handleWsMessage e (old, c) = (old', c')" by fastforce
  have "one_page old'" "first_ids_distinct old'" "by_id (allMessages old') = promised e (by_id (allMessages old))"
    using handle_one_page [OF Cons.prems, of e c] handle_distinct [OF Cons.prems(2), of e c] h by simp_all
  with Cons.IH h show ?case by simp
qed simp

theorem feed_refines_map_witness:
  "by_id (allMessages (fst (fold handleWsMessage
      [NewMessage (Some (msg_at ''m1'' ''t1'' ''a'')), NewMessage None, NewMessage (Some (msg_at ''m2'' ''t2'' ''b'')),
       UpdatedMessage (Some (msg_at ''m1'' ''t1'' ''c'')), DeletedMessage (Some ''m2'')] (None, None))))
   = [''m1'' \<mapsto> msg_at ''m1'' ''t1'' ''c'']"
proof -
  have a: "one_page None" and b: "first_ids_distinct None"
    by (simp_all add: one_page_def first_ids_distinct_def first_data_def)
  show ?thesis by (subst feed_refines_map [OF a b]) (simp add: allMessages_def msg_at_def)
qed



text \<open>
  Filling a gap loses and duplicates nothing: every message the server lists is in the feed
  afterwards, those already on the first page keep their place and content, the missing ones are put
  in front of it, and later pages are not touched.
\<close>

theorem gap_fill_complete:
  assumes "first_data old = Some (f, p, ps, d)"
  shows "allMessages (mergeGap resynced old)
      = filter (\<lambda>m. msg_id m \<notin> set (map msg_id d)) resynced @ allMessages old
    \<and> msg_id ` set resynced \<subseteq> msg_id ` set (allMessages (mergeGap resynced old))"
proof -
  have eq: "allMessages (mergeGap resynced old)
      = filter (\<lambda>m. msg_id m \<notin> set (map msg_id d)) resynced @ allMessages old"
    using assms allMessages_first [OF assms] by (simp add: mergeGap_def Let_def allMessages_with)
  moreover have "msg_id m \<in> msg_id ` set (allMessages (mergeGap resynced old))" if "m \<in> set resynced" for m
    using that allMessages_first [OF assms] unfolding eq by (cases "msg_id m \<in> set (map msg_id d)") auto
  ultimately show ?thesis by blast
qed

theorem gap_fill_complete_witness:
  "allMessages (mergeGap [msg_at ''m1'' ''t1'' ''a'', msg_at ''m2'' ''t2'' ''b'']
      (Some (seed_feed [msg_at ''m1'' ''t1'' ''a'']))) = [msg_at ''m2'' ''t2'' ''b'', msg_at ''m1'' ''t1'' ''a'']"
proof -
  have "first_data (Some (seed_feed [msg_at ''m1'' ''t1'' ''a'']))
      = Some (seed_feed [msg_at ''m1'' ''t1'' ''a''], seedPage [msg_at ''m1'' ''t1'' ''a''], [],
          [msg_at ''m1'' ''t1'' ''a''])"
    by (simp add: seed_feed_def seedPage_def)
  from gap_fill_complete [OF this] show ?thesis by (simp add: msg_at_def)
qed

text \<open>
  The gap fill puts several missed messages in the wrong order. The server lists what came after a
  cursor from oldest to newest; when two or more of those are missing, the head of the feed, which runs
  from newest to oldest, is the oldest of them, and it becomes the cursor of the next gap fill.
\<close>

theorem gap_fill_order:
  assumes "first_data old = Some (f, p, ps, d)" and "filter (\<lambda>m. msg_id m \<notin> set (map msg_id d)) resynced = a # b # ms"
  shows "take 2 (allMessages (mergeGap resynced old)) = [a, b]
    \<and> trackNewest (mergeGap resynced old) c = Some (cursor_of a)"
proof -
  have "resynced \<noteq> []" using assms(2) by auto
  with assms have "allMessages (mergeGap resynced old) = a # b # ms @ d @ concat (map page_messages ps)"
    by (simp add: mergeGap_def Let_def allMessages_with del: filter_eq_Cons_iff)
  then show ?thesis by (simp add: trackNewest_def)
qed

theorem gap_fill_order_witness:
  "map msg_created_at (allMessages (mergeGap [msg_at ''m2'' ''t2'' ''b'', msg_at ''m3'' ''t3'' ''c'']
      (Some (seed_feed [msg_at ''m1'' ''t1'' ''a''])))) = [''t2'', ''t3'', ''t1'']
   \<and> trackNewest (mergeGap [msg_at ''m2'' ''t2'' ''b'', msg_at ''m3'' ''t3'' ''c'']
      (Some (seed_feed [msg_at ''m1'' ''t1'' ''a'']))) None = Some \<lparr>cur_created_at = ''t2'', cur_id = ''m2''\<rparr>"
proof -
  have "first_data (Some (seed_feed [msg_at ''m1'' ''t1'' ''a'']))
      = Some (seed_feed [msg_at ''m1'' ''t1'' ''a''], seedPage [msg_at ''m1'' ''t1'' ''a''], [],
          [msg_at ''m1'' ''t1'' ''a''])"
    by (simp add: seed_feed_def seedPage_def)
  moreover have "filter (\<lambda>m. msg_id m \<notin> set (map msg_id [msg_at ''m1'' ''t1'' ''a'']))
      [msg_at ''m2'' ''t2'' ''b'', msg_at ''m3'' ''t3'' ''c''] = msg_at ''m2'' ''t2'' ''b'' # msg_at ''m3'' ''t3'' ''c'' # []"
    by (simp add: msg_at_def)
  ultimately have "trackNewest (mergeGap [msg_at ''m2'' ''t2'' ''b'', msg_at ''m3'' ''t3'' ''c'']
      (Some (seed_feed [msg_at ''m1'' ''t1'' ''a'']))) None = Some (cursor_of (msg_at ''m2'' ''t2'' ''b''))"
    using gap_fill_order by blast
  then show ?thesis
    by (simp add: mergeGap_def Let_def seed_feed_def seedPage_def first_data_def with_first_def
        allMessages_def page_messages_def cursor_of_def msg_at_def)
qed

text \<open>
  An edit or a deletion reaches only the first page: the messages of the pages loaded by scrolling
  stay as they were, so a message deleted by another member is still shown there.
\<close>

theorem older_pages_stale:
  assumes "first_data old = Some (f, p, ps, d)"
  shows "\<exists>front. allMessages (fst (handleWsMessage e (old, c))) = front @ concat (map page_messages ps)"
  using assms by (simp add: handleWsMessage_def Let_def allMessages_with)

theorem older_pages_stale_witness:
  "msg_at ''m1'' ''t1'' ''a'' \<in> set (allMessages (fst (handleWsMessage (DeletedMessage (Some ''m1''))
      (Some \<lparr>pages = [seedPage [msg_at ''m2'' ''t2'' ''b''], seedPage [msg_at ''m1'' ''t1'' ''a'']],
             pageParams = [None, Some ''c'']\<rparr>, None))))"
proof -
  let ?f = "\<lparr>pages = [seedPage [msg_at ''m2'' ''t2'' ''b''], seedPage [msg_at ''m1'' ''t1'' ''a'']],
             pageParams = [None, Some ''c'']\<rparr>"
  have "first_data (Some ?f) = Some (?f, seedPage [msg_at ''m2'' ''t2'' ''b''],
      [seedPage [msg_at ''m1'' ''t1'' ''a'']], [msg_at ''m2'' ''t2'' ''b''])"
    by (simp add: seedPage_def)
  from older_pages_stale [OF this, of "DeletedMessage (Some ''m1'')" None] show ?thesis
    by (auto simp: page_messages_def seedPage_def)
qed

text \<open>
  A failed send takes back what arrived since: the snapshot is restored as a whole, so a message
  received over the socket while the request was pending disappears from the feed; and when the send
  seeded the cache there is no snapshot and the failed message stays.
\<close>

theorem rollback_loses_events:
  assumes "old = Some f"
  shows "onError old (fst (handleWsMessage e (onMutate m old, c))) = old
    \<and> onError None (onMutate m None) = Some (seed_feed [m])"
  using assms by (simp add: onError_def onMutate_def first_data_def)

theorem rollback_loses_events_witness:
  "allMessages (onError (Some (seed_feed [])) (fst (handleWsMessage (NewMessage (Some (msg_at ''m2'' ''t2'' ''b'')))
      (onMutate (msg_at ''m1'' ''t1'' ''a'') (Some (seed_feed [])), None)))) = []"
  using rollback_loses_events [OF refl, of "seed_feed []"] by (simp only: allMessages_seed)

text \<open>
  The cursor of a gap fill is read back by the server as it was: through the query of the request,
  base64 and JSON, for any time stamp and id.
\<close>

theorem gap_cursor_roundtrip:
  assumes "well_formed_endpoint (ChatMessages roomId)"
  shows "\<exists>q v. parse_query (query_part (request_url (API_PATHS (ChatMessages roomId))
        (Some [(''cursor'', None), (''after'', Some (PStr (afterCursor c)))]))) = Some [(''after'', q)]
    \<and> Option.bind (atob q) json_parse = Some v
    \<and> jfield ''created_at'' v = Some (JStr (cur_created_at c)) \<and> jfield ''id'' v = Some (JStr (cur_id c))"
proof -
  let ?v = "JObj [(''created_at'', JStr (cur_created_at c)), (''id'', JStr (cur_id c))]"
  let ?ps = "[(''cursor'', None), (''after'', Some (PStr (afterCursor c)))]"
  have "afterCursor c \<noteq> []"
  proof
    assume "afterCursor c = []"
    then have "atob [] = Some (stringify ?v)" using atob_btoa [of "stringify ?v"]
      by (simp add: afterCursor_def del: stringify.simps)
    moreover have "atob [] = Some []" by code_simp
    ultimately show False by simp
  qed
  then have "parse_query (query_part (request_url (API_PATHS (ChatMessages roomId)) (Some ?ps)))
      = Some [(''after'', afterCursor c)]"
    using query_part_request_url [OF assms, of ?ps] by (simp add: parse_query_toString)
  moreover have "Option.bind (atob (afterCursor c)) json_parse = Some ?v"
    by (simp add: afterCursor_def atob_btoa json_parse_stringify del: stringify.simps)
  ultimately show ?thesis by (intro exI [of _ "afterCursor c"] exI [of _ ?v]) simp
qed

theorem gap_cursor_roundtrip_witness:
  "\<exists>q v. parse_query (query_part (request_url (API_PATHS (ChatMessages ''r1''))
        (Some [(''cursor'', None), (''after'', Some (PStr (afterCursor
           \<lparr>cur_created_at = ''2026-01-01T00:00:00Z'', cur_id = ''m1''\<rparr>)))]))) = Some [(''after'', q)]
    \<and> Option.bind (atob q) json_parse = Some v \<and> jfield ''id'' v = Some (JStr ''m1'')"
proof -
  have "well_formed_endpoint (ChatMessages ''r1'')" by code_simp
  from gap_cursor_roundtrip [OF this, of "\<lparr>cur_created_at = ''2026-01-01T00:00:00Z'', cur_id = ''m1''\<rparr>"]
  show ?thesis by auto
qed

text \<open>
  Leaving a room always shows the toast of a lost connection: the cleanup disconnects the client while
  the hook still holds it, so the status handler takes the intended disconnection for a lost one.
\<close>

theorem unmount_shows_toast:
  "unmount_effects client newest_cursor shown = [ToastError ''Connection lost. Reconnecting...'']"
proof -
  have "status_changes (disconnect client) = status_changes client @ [disconnected]"
    by (simp add: disconnect_def Let_def setStatus_def stopHeartbeat_def split: option.splits)
  then show ?thesis by (simp add: unmount_effects_def onStatusChange_def)
qed

end
