(* ===== verification/Live_Room.thy ===== *)
theory Live_Room
  imports Message_Feed "HOL-Library.Multiset"
begin

text \<open>
  A room while its connection comes and goes: the WebSocket client, the message list of
  \<^verbatim>\<open>use-messages.ts\<close> and the server they talk to, in one machine. The server is what the
  client relies on of \<^verbatim>\<open>src/backend/services/chat\<close>: it broadcasts a posted message to the open
  sockets of the room, and lists the messages after a cursor, oldest first
  (\<^verbatim>\<open>query/repo/projectionRepo.go\<close>). The main result is that the gap fill catches up: once the
  connection is back and nothing is pending, every message of the room is shown exactly once. The
  runs where it does not are theorems as well.
\<close>


section \<open>Messages and events as JSON\<close>

definition message_to_json :: "message \<Rightarrow> json" where
  "message_to_json m =
     jobject [(''id'', Some (JStr (msg_id m))), (''room_id'', Some (JStr (msg_room_id m))),
              (''author_id'', Some (JStr (msg_author_id m))), (''author_name'', Some (JStr (msg_author_name m))),
              (''message_type'', Some (JNum (message_type_code (msg_type m)))),
              (''content'', Some (JStr (msg_content m))), (''created_at'', Some (JStr (msg_created_at m))),
              (''updated_at'', ostr (msg_updated_at m))]"

definition message_type_of :: "int \<Rightarrow> message_type option" where
  "message_type_of n = find (\<lambda>t. message_type_code t = n) [TEXT, SYSTEM, IMAGE, FILE, NOTICE]"

text \<open>
  A payload at its declared type; a payload without one of the required fields has none, and is taken
  for a missing one.
\<close>

definition message_of_json :: "json \<Rightarrow> message option" where
  "message_of_json v =
     Option.bind (jstring (jfield ''id'' v)) (\<lambda>i.
     Option.bind (jstring (jfield ''room_id'' v)) (\<lambda>r.
     Option.bind (jstring (jfield ''author_id'' v)) (\<lambda>a.
     Option.bind (jstring (jfield ''author_name'' v)) (\<lambda>n.
     Option.bind (Option.bind (jnumber (jfield ''message_type'' v)) message_type_of) (\<lambda>t.
     Option.bind (jstring (jfield ''content'' v)) (\<lambda>c.
     map_option (\<lambda>at. \<lparr>msg_id = i, msg_room_id = r, msg_author_id = a, msg_author_name = n,
         msg_type = t, msg_content = c, msg_created_at = at,
         msg_updated_at = jstring (jfield ''updated_at'' v)\<rparr>)
       (jstring (jfield ''created_at'' v))))))))"

fun event_to_json :: "server_event \<Rightarrow> json" where
  "event_to_json (NewMessage m) =
     JObj [(''type'', JStr ''new_message''), (''data'', case m of None \<Rightarrow> JNull | Some m \<Rightarrow> message_to_json m)]"
| "event_to_json (UpdatedMessage m) =
     JObj [(''type'', JStr ''updated_message''), (''data'', case m of None \<Rightarrow> JNull | Some m \<Rightarrow> message_to_json m)]"
| "event_to_json (DeletedMessage i) =
     JObj [(''type'', JStr ''deleted_message''),
           (''data'', case i of None \<Rightarrow> JNull | Some i \<Rightarrow> JObj [(''id'', JStr i)])]"
| "event_to_json Pong = JObj [(''type'', JStr ''pong'')]"

text \<open>None when the object has no type, or one the handler has no case for: the list stays as it is.\<close>

definition event_of_json :: "json \<Rightarrow> server_event option" where
  "event_of_json v =
     (let data = jfield ''data'' v in
      case jstring (jfield ''type'' v) of None \<Rightarrow> None
      | Some t \<Rightarrow>
          if t = ''new_message'' then Some (NewMessage (Option.bind data message_of_json))
          else if t = ''updated_message'' then Some (UpdatedMessage (Option.bind data message_of_json))
          else if t = ''deleted_message'' then
            Some (DeletedMessage (Option.bind data (\<lambda>d. jstring (jfield ''id'' d))))
          else if t = ''pong'' then Some Pong
          else None)"

lemma message_type_of_code [simp]: "message_type_of (message_type_code t) = Some t"
  by (cases t) (simp_all add: message_type_of_def)

lemma message_of_to_json [simp]: "message_of_json (message_to_json m) = Some m"
  by (simp add: message_of_json_def message_to_json_def jfield_jobject_Cons jnumber_def)

lemma no_message [simp]: "message_of_json JNull = None"
  by (simp add: message_of_json_def jfield_def jstring_def)

lemma event_of_to_json: "event_of_json (event_to_json e) = Some e"
  by (cases e) (auto simp: event_of_json_def jfield_def jstring_def Let_def split: option.splits)

interpretation event_json: codec event_to_json event_of_json "\<lambda>_. True"
  by unfold_locales (rule event_of_to_json)

text \<open>An event as the text of a frame: the JSON codec after the object codec.\<close>

interpretation event_text: codec_compose event_to_json event_of_json "\<lambda>_. True"
    stringify json_parse "\<lambda>_. True"
  by unfold_locales simp

definition frame_text :: "server_event \<Rightarrow> string" where
  "frame_text e = stringify (event_to_json e)"

definition read_frame :: "string \<Rightarrow> server_event option" where
  "read_frame text = Option.bind (json_parse text) event_of_json"

lemma read_frame_text [simp]: "read_frame (frame_text e) = Some e"
  using event_text.dec_enc by (simp add: read_frame_def frame_text_def)


section \<open>The server\<close>

text \<open>
  Rows are ordered by time and then by id. \<open>clock\<close> reads a time stamp; ids are compared byte by byte.
\<close>

definition newer :: "(string \<Rightarrow> int) \<Rightarrow> message \<Rightarrow> cursor \<Rightarrow> bool" where
  "newer clock m c \<longleftrightarrow>
     clock (cur_created_at c) < clock (msg_created_at m)
     \<or> clock (cur_created_at c) = clock (msg_created_at m)
       \<and> ord_class.lexordp (map ord (cur_id c)) (map ord (msg_id m))"

text \<open>\<open>decodeCursor\<close>: base64 with the alphabet for URLs, then the two fields of the object.\<close>

definition url_decode :: "string \<Rightarrow> string option" where
  "url_decode s =
     (if CHR ''+'' \<in> set s \<or> CHR ''/'' \<in> set s \<or> length s mod 4 \<noteq> 0 then None
      else atob (map (\<lambda>c. if c = CHR ''-'' then CHR ''+'' else if c = CHR ''_'' then CHR ''/'' else c) s))"

definition decodeCursor :: "string \<Rightarrow> cursor option" where
  "decodeCursor s =
     Option.bind (Option.bind (url_decode s) json_parse) (\<lambda>v.
     Option.bind (jstring (jfield ''created_at'' v)) (\<lambda>t.
     map_option (\<lambda>i. \<lparr>cur_created_at = t, cur_id = i\<rparr>) (jstring (jfield ''id'' v))))"

definition page_limit :: nat where
  "page_limit = 50"

definition listAfter :: "(string \<Rightarrow> int) \<Rightarrow> message list \<Rightarrow> cursor \<Rightarrow> message list" where
  "listAfter clock rows c = take page_limit (filter (\<lambda>m. newer clock m c) rows)"

lemma newer_irrefl [simp]: "\<not> newer clock m (cursor_of m)"
  by (simp add: newer_def cursor_of_def lexordp_irreflexive')

lemma newer_trans: "newer clock x (cursor_of y) \<Longrightarrow> newer clock y c \<Longrightarrow> newer clock x c"
  by (auto simp: newer_def cursor_of_def intro: lexordp_trans)

lemma newer_asym: "newer clock x (cursor_of y) \<Longrightarrow> \<not> newer clock y (cursor_of x)"
  using newer_trans newer_irrefl by blast

text \<open>The cursor the client sends is read by the server, for time stamps and ids of plain characters.\<close>

definition plain_cursor :: "cursor \<Rightarrow> bool" where
  "plain_cursor c \<longleftrightarrow> plain_text (cur_created_at c) \<and> plain_text (cur_id c)"

lemma plain_hex:
  assumes "n < 16"
  shows "plain_char (hex_digit n)"
proof -
  have "(87 + n) mod 64 = 23 + n"
    using assms mod_add_self1 [of 64 "23 + n"] by (simp add: add.assoc [symmetric])
  then show ?thesis using assms by (auto simp: plain_char_def hex_digit_def)
qed

lemma plain_escape: "plain_char c \<Longrightarrow> plain_text (escape_char c)"
proof -
  assume p: "plain_char c"
  have "plain_char (hex_digit (ord c div 16))" "plain_char (hex_digit (ord c mod 16))"
    using ord_less [of c] by (auto intro!: plain_hex simp del: ord_less)
  moreover have "plain_char (CHR 0x5C)" "plain_char (CHR 0x22)" "plain_char (CHR ''b'')"
    "plain_char (CHR ''f'')" "plain_char (CHR ''n'')" "plain_char (CHR ''r'')" "plain_char (CHR ''t'')"
    "plain_char (CHR ''u'')" "plain_char (CHR ''0'')"
    by (simp_all add: plain_char_def)
  ultimately show ?thesis using p by (simp add: escape_char_def)
qed

lemma plain_show_string: "plain_text s \<Longrightarrow> plain_text (show_string s)"
proof -
  assume "plain_text s"
  then have "plain_text (concat (map escape_char s))" by (induction s) (simp_all add: plain_escape)
  then show ?thesis by (simp add: show_string_def plain_char_def)
qed

lemma plain_afterCursor:
  assumes "plain_cursor c"
  shows "plain_text (stringify (JObj [(''created_at'', JStr (cur_created_at c)), (''id'', JStr (cur_id c))]))"
proof -
  have "plain_text (show_string ''created_at'')" "plain_text (show_string ''id'')"
    by (rule plain_show_string, simp add: plain_char_def)+
  then show ?thesis using assms by (simp add: plain_cursor_def plain_show_string) (simp add: plain_char_def)
qed


lemma url_decode_btoa: "plain_text s \<Longrightarrow> url_decode (btoa s) = Some s"
proof -
  assume p: "plain_text s"
  have "CHR ''-'' \<notin> set (btoa s)" "CHR ''_'' \<notin> set (btoa s)"
    by (auto dest!: btoa_set simp: b64_char_def ord_eq_iff [symmetric] split: if_splits)
  then have "map (\<lambda>c. if c = CHR ''-'' then CHR ''+'' else if c = CHR ''_'' then CHR ''/'' else c) (btoa s) = btoa s"
    by (intro map_idI) auto
  with btoa_plain [OF p] show ?thesis by (simp add: url_decode_def length_btoa atob_btoa)
qed

lemma decodeCursor_afterCursor: "plain_cursor c \<Longrightarrow> decodeCursor (afterCursor c) = Some c"
  using url_decode_btoa [OF plain_afterCursor]
  by (simp add: decodeCursor_def afterCursor_def json_parse_stringify jstring_def del: stringify.simps)


section \<open>The room as a machine\<close>

text \<open>
  \<open>in_flight\<close> are the messages sent to the open socket and not yet read, \<open>gap_requests\<close> the \<open>after\<close>
  parameters of the requests the server has not answered, \<open>gap_answers\<close> the answers not yet merged.
  \<open>room_log\<close> are the messages of the room from the oldest one loaded, oldest first. \<open>lossy\<close> is
  history: whether a gap request failed, or had more messages to list than fit its page.
\<close>

record live =
  client :: ws_client
  feed_cache :: "feed option"
  newest_cursor :: "cursor option"
  room_log :: "message list"
  in_flight :: "message list"
  gap_requests :: "string list"
  gap_answers :: "message list list"
  lossy :: bool

definition link_up :: "live \<Rightarrow> bool" where
  "link_up s \<longleftrightarrow> newest (sockets (client s)) = OPEN"

fun fetches :: "chat_effect list \<Rightarrow> string list" where
  "fetches [] = []"
| "fetches (FetchAfter a # es) = a # fetches es"
| "fetches (e # es) = fetches es"

text \<open>The callbacks of the hook: \<open>onStatusChange\<close> and \<open>onMessage\<close> of the options of the client.\<close>

definition on_status :: "ws_status \<Rightarrow> live \<Rightarrow> live" where
  "on_status st s =
     s\<lparr>gap_requests := gap_requests s
        @ fetches (snd (onStatusChange st True (newest_cursor s) (feed_cache s)))\<rparr>"

definition on_data :: "json \<Rightarrow> live \<Rightarrow> live" where
  "on_data v s =
     (case event_of_json v of None \<Rightarrow> s
      | Some e \<Rightarrow>
          (case handleWsMessage e (feed_cache s, newest_cursor s) of
             (f, c) \<Rightarrow> s\<lparr>feed_cache := f, newest_cursor := c\<rparr>))"

text \<open>What a step of the client makes the hook do: the callbacks it has called since.\<close>

definition absorb :: "ws_client \<Rightarrow> live \<Rightarrow> live" where
  "absorb new s =
     fold on_data (drop (length (delivered (client s))) (delivered new))
       (fold on_status (drop (length (status_changes (client s))) (status_changes new))
          (s\<lparr>client := new\<rparr>))"

definition no_change :: "ws_event \<Rightarrow> bool" where
  "no_change e \<longleftrightarrow>
     (case e of SocketMessage i text \<Rightarrow> read_frame text \<in> {None, Some Pong} | _ \<Rightarrow> True)"

text \<open>
  \<open>Net\<close> is any step of the client apart from the delivery of a message, which is \<open>Deliver\<close>. A socket
  that is no longer open loses what was sent to it. A socket that opens is subscribed from then on.
\<close>

datatype live_event =
    Net ws_event
  | Deliver nat
  | Post message
  | Serve string
  | GapFailed string
  | Merge "message list"
  | Rendered

definition fresh_post :: "(string \<Rightarrow> int) \<Rightarrow> message list \<Rightarrow> message \<Rightarrow> bool" where
  "fresh_post clock rows m \<longleftrightarrow>
     msg_id m \<noteq> [] \<and> plain_cursor (cursor_of m) \<and> msg_id m \<notin> msg_id ` set rows
     \<and> (\<forall>x \<in> set rows. newer clock m (cursor_of x))"

inductive live_step ::
    "(string \<Rightarrow> int) \<Rightarrow> string \<Rightarrow> string \<Rightarrow> live \<Rightarrow> live_event \<Rightarrow> live \<Rightarrow> bool"
  for clock :: "string \<Rightarrow> int" and base room :: string where
  net: "hook_step base room (client s) e c \<Longrightarrow> no_change e \<Longrightarrow>
    live_step clock base room s (Net e)
      ((absorb c s)\<lparr>in_flight := if newest (sockets c) = OPEN then in_flight s else []\<rparr>)"
| deliver: "in_flight s = m # ms \<Longrightarrow>
    hook_step base room (client s) (SocketMessage i (frame_text (NewMessage (Some m)))) c \<Longrightarrow>
    live_step clock base room s (Deliver i) ((absorb c s)\<lparr>in_flight := ms\<rparr>)"
| post: "fresh_post clock (room_log s) m \<Longrightarrow>
    live_step clock base room s (Post m)
      (s\<lparr>room_log := room_log s @ [m], in_flight := if link_up s then in_flight s @ [m] else in_flight s\<rparr>)"
| serve: "tok \<in> set (gap_requests s) \<Longrightarrow> decodeCursor tok = Some c \<Longrightarrow>
    live_step clock base room s (Serve tok)
      (s\<lparr>gap_requests := remove1 tok (gap_requests s),
         gap_answers := gap_answers s @ [listAfter clock (room_log s) c],
         lossy := lossy s \<or> page_limit < length (filter (\<lambda>m. newer clock m c) (room_log s))\<rparr>)"
| gap_failed: "tok \<in> set (gap_requests s) \<Longrightarrow>
    live_step clock base room s (GapFailed tok)
      (s\<lparr>gap_requests := remove1 tok (gap_requests s), lossy := True\<rparr>)"
| merge: "a \<in> set (gap_answers s) \<Longrightarrow>
    live_step clock base room s (Merge a)
      (s\<lparr>gap_answers := remove1 a (gap_answers s), feed_cache := mergeGap a (feed_cache s)\<rparr>)"
| rendered: "live_step clock base room s Rendered
      (s\<lparr>newest_cursor := trackNewest (feed_cache s) (newest_cursor s)\<rparr>)"

inductive_cases live_stepE: "live_step clock base room s e t"


subsection \<open>What a step of the client does to the hook\<close>

lemma handle_pong: "handleWsMessage Pong (old, c) = (old, c)"
  by (cases rule: first_data_cases [of old])
    (auto simp: handleWsMessage_def with_first_def first_data_def split: option.splits list.splits)

lemma fetches_status:
  "fetches (snd (onStatusChange st h c f)) =
     (if st = connected then (case gap_cursor c f of None \<Rightarrow> [] | Some c \<Rightarrow> [afterCursor c]) else [])"
  by (auto simp: onStatusChange_def split: option.splits)

lemma fold_status_other:
  "connected \<notin> set sts \<Longrightarrow> fold on_status sts s = s"
  by (induction sts) (auto simp: on_status_def fetches_status)

text \<open>The effect of a step of a client on its owner, by the kind of the step.\<close>

definition new_statuses :: "ws_client \<Rightarrow> ws_client \<Rightarrow> ws_status list" where
  "new_statuses c c' = drop (length (status_changes c)) (status_changes c')"

definition new_data :: "ws_client \<Rightarrow> ws_client \<Rightarrow> json list" where
  "new_data c c' = drop (length (delivered c)) (delivered c')"

lemma stop_schedule_simps [simp]:
  "status_changes (stopHeartbeat c) = status_changes c" "delivered (stopHeartbeat c) = delivered c"
  "sockets (stopHeartbeat c) = sockets c" "status_changes (scheduleReconnect c) = status_changes c"
  "delivered (scheduleReconnect c) = delivered c" "sockets (scheduleReconnect c) = sockets c"
  "status_changes (send v c) = status_changes c" "delivered (send v c) = delivered c"
  "sockets (send v c) = sockets c"
  "sockets (connect c) = sockets c" "delivered (connect c) = delivered c"
  by (simp_all add: stopHeartbeat_def scheduleReconnect_def send_def connect_def setStatus_def split: option.splits)


lemma opened_effect:
  assumes "ws_step base room c (SocketOpen i) c'"
  shows "new_statuses c c' = [connected]" and "new_data c c' = []"
  using assms
  by (auto simp: ws_step_next new_statuses_def new_data_def onopen_def startHeartbeat_def setStatus_def
      Let_def split: if_splits)

lemma message_effect:
  assumes "ws_step base room c (SocketMessage i text) c'"
  shows "new_statuses c c' = []" and "sockets c' = sockets c"
    and "new_data c c' = (case json_parse text of None \<Rightarrow> [] | Some v \<Rightarrow> [v])"
  using assms
  by (auto simp: ws_step_next new_statuses_def new_data_def onmessage_def split: if_splits option.splits)

lemma other_effect:
  assumes "ws_step base room c e c'" and "\<And>i. e \<noteq> SocketOpen i" and "\<And>i text. e \<noteq> SocketMessage i text"
  shows "connected \<notin> set (new_statuses c c')" and "new_data c c' = []"
  using assms
  by (cases e; fastforce simp: ws_step_next new_statuses_def new_data_def ws_defs Let_def
      split: if_splits option.splits)+

lemma opens_only_by_event:
  assumes "ws_inv c" and "hook_step base room c e c'" and "\<And>i. e \<noteq> SocketOpen i"
    and "newest (sockets c') = OPEN"
  shows "newest (sockets c) = OPEN"
proof -
  have si: "sockets_inv c" using assms(1) by (simp add: ws_inv_def)
  have step: "ws_step base room c e c'" using assms(2) by (simp add: hook_step_def)
  show ?thesis
  proof (cases e)
    case Disconnect
    then have "intentionalClose c'" using step
      by (auto simp: ws_step_next disconnect_def Let_def setStatus_def stopHeartbeat_def split: option.splits)
    with ws_inv_step [OF assms(1,2)] assms(4) show ?thesis by (auto simp: ws_inv_def sockets_inv_def)
  next
    case (SocketMessage i u)
    with message_effect(2) step assms(4) show ?thesis by metis
  next
    case (SocketClosing i)
    with step have i: "i < length (sockets c)" "sockets c ! i = OPEN" by (auto simp: ws_step_next split: if_splits)
    then show ?thesis using live_newest(4) [OF si i(1)] by simp
  next
    case (SocketClose i)
    with step have i: "i < length (sockets c)" "sockets c ! i \<noteq> CLOSED"
      and "sockets c' = (sockets c)[i := CLOSED]"
      by (auto simp: ws_step_next onclose_def setStatus_def Let_def split: if_splits)
    with live_newest(3) [OF si i, of CLOSED] assms(4) show ?thesis by simp
  qed (use step assms(3,4) in \<open>auto simp: ws_step_next ticket_resolved_def ticket_rejected_def split: if_splits\<close>)
qed

lemma absorb_eq:
  "absorb c s = fold on_data (new_data (client s) c)
     (fold on_status (new_statuses (client s) c) (s\<lparr>client := c\<rparr>))"
  by (simp add: absorb_def new_data_def new_statuses_def)

lemma on_data_quiet: "event_of_json v \<in> {None, Some Pong} \<Longrightarrow> on_data v s = s"
  by (auto simp: on_data_def handle_pong)

lemma absorb_quiet:
  assumes "hook_step base room (client s) e c" and "no_change e" and "\<And>i. e \<noteq> SocketOpen i"
  shows "absorb c s = s\<lparr>client := c\<rparr>"
proof -
  have step: "ws_step base room (client s) e c" using assms(1) by (simp add: hook_step_def)
  show ?thesis
  proof (cases "\<exists>i text. e = SocketMessage i text")
    case True
    then obtain i u where e: "e = SocketMessage i u" by blast
    from message_effect [OF step [unfolded e]] assms(2) show ?thesis
      by (auto simp: absorb_eq e no_change_def read_frame_def on_data_quiet split: option.splits)
  next
    case False
    with other_effect [OF step assms(3)] show ?thesis by (simp add: absorb_eq fold_status_other)
  qed
qed

lemma absorb_open:
  assumes "hook_step base room (client s) (SocketOpen i) c"
  shows "absorb c s = s\<lparr>client := c, gap_requests := gap_requests s @
     (case gap_cursor (newest_cursor s) (feed_cache s) of None \<Rightarrow> [] | Some k \<Rightarrow> [afterCursor k])\<rparr>"
proof -
  have "ws_step base room (client s) (SocketOpen i) c" using assms by (simp add: hook_step_def)
  from opened_effect [OF this] show ?thesis by (simp add: absorb_eq on_status_def fetches_status)
qed

lemma absorb_message:
  assumes "hook_step base room (client s) (SocketMessage i (frame_text e)) c"
    and "handleWsMessage e (feed_cache s, newest_cursor s) = (f, k)"
  shows "absorb c s = s\<lparr>client := c, feed_cache := f, newest_cursor := k\<rparr>"
proof -
  have "ws_step base room (client s) (SocketMessage i (frame_text e)) c"
    using assms(1) by (simp add: hook_step_def)
  from message_effect [OF this] assms(2) show ?thesis
    by (simp add: absorb_eq frame_text_def on_data_def event_of_to_json json_parse_stringify)
qed


section \<open>The invariant\<close>

definition log_ok :: "(string \<Rightarrow> int) \<Rightarrow> message list \<Rightarrow> bool" where
  "log_ok clock rows \<longleftrightarrow>
     sorted_wrt (\<lambda>x y. newer clock y (cursor_of x)) rows \<and> distinct (map msg_id rows)
     \<and> (\<forall>m \<in> set rows. msg_id m \<noteq> [] \<and> plain_cursor (cursor_of m))"

definition first_msgs :: "feed option \<Rightarrow> message list" where
  "first_msgs old = (case first_data old of None \<Rightarrow> [] | Some (f, p, ps, d) \<Rightarrow> d)"

text \<open>The messages of the first page are among \<open>rec\<close>; the pages loaded by scrolling hold \<open>older\<close>.\<close>

definition feed_ok :: "message list \<Rightarrow> message set \<Rightarrow> feed option \<Rightarrow> bool" where
  "feed_ok older rec old \<longleftrightarrow>
     (\<exists>f p ps d. first_data old = Some (f, p, ps, d) \<and> concat (map page_messages ps) = older
        \<and> d \<noteq> [] \<and> distinct (map msg_id d) \<and> set d \<subseteq> rec)"

definition recent :: "message list \<Rightarrow> live \<Rightarrow> message list" where
  "recent older s = drop (length older) (room_log s)"

definition split_ok :: "message list \<Rightarrow> live \<Rightarrow> bool" where
  "split_ok older s \<longleftrightarrow> take (length older) (room_log s) = rev older"

definition flight_ok :: "(string \<Rightarrow> int) \<Rightarrow> message list \<Rightarrow> live \<Rightarrow> bool" where
  "flight_ok clock older s \<longleftrightarrow>
     sorted_wrt (\<lambda>x y. newer clock y (cursor_of x)) (in_flight s)
     \<and> set (in_flight s) \<subseteq> set (recent older s) \<and> (\<not> link_up s \<longrightarrow> in_flight s = [])"

text \<open>The cursors the client works with, and the messages that are shown or will be.\<close>

definition marks :: "live \<Rightarrow> cursor set" where
  "marks s =
     set_option (newest_cursor s) \<union> {c. \<exists>tok \<in> set (gap_requests s). decodeCursor tok = Some c}
     \<union> cursor_of ` (set (first_msgs (feed_cache s)) \<union> \<Union> (set ` set (gap_answers s)))"

definition covered :: "(string \<Rightarrow> int) \<Rightarrow> live \<Rightarrow> message \<Rightarrow> bool" where
  "covered clock s m \<longleftrightarrow>
     m \<in> set (allMessages (feed_cache s))
     \<or> (\<exists>tok \<in> set (gap_requests s). \<exists>c. decodeCursor tok = Some c \<and> newer clock m c)
     \<or> (\<exists>a \<in> set (gap_answers s). m \<in> set a)"

definition gap_ok :: "message list \<Rightarrow> live \<Rightarrow> bool" where
  "gap_ok older s \<longleftrightarrow>
     newest_cursor s \<noteq> None \<and> marks s \<subseteq> cursor_of ` set (recent older s)
     \<and> (\<forall>tok \<in> set (gap_requests s). decodeCursor tok \<noteq> None)
     \<and> (\<forall>a \<in> set (gap_answers s). distinct (map msg_id a) \<and> set a \<subseteq> set (recent older s))"

text \<open>A message that is not covered is newer than everything the client knows, and under way if there is a way.\<close>

definition complete :: "(string \<Rightarrow> int) \<Rightarrow> live \<Rightarrow> bool" where
  "complete clock s \<longleftrightarrow>
     lossy s \<or> (\<forall>m \<in> set (room_log s). covered clock s m
        \<or> (\<forall>c \<in> marks s. newer clock m c) \<and> (link_up s \<longrightarrow> m \<in> set (in_flight s)))"

definition live_inv :: "(string \<Rightarrow> int) \<Rightarrow> message list \<Rightarrow> live \<Rightarrow> bool" where
  "live_inv clock older s \<longleftrightarrow>
     ws_inv (client s) \<and> log_ok clock (room_log s) \<and> split_ok older s
     \<and> feed_ok older (set (recent older s)) (feed_cache s) \<and> flight_ok clock older s \<and> gap_ok older s
     \<and> complete clock s"

lemma log_id_eq:
  "log_ok clock rows \<Longrightarrow> x \<in> set rows \<Longrightarrow> y \<in> set rows \<Longrightarrow> msg_id x = msg_id y \<Longrightarrow> x = y"
  by (auto simp: log_ok_def distinct_map dest: inj_onD)

lemma split_log: "split_ok older s \<Longrightarrow> room_log s = rev older @ recent older s"
  by (metis append_take_drop_id recent_def split_ok_def)

lemma split_set: "split_ok older s \<Longrightarrow> set (room_log s) = set older \<union> set (recent older s)"
  by (metis set_append set_rev split_log)

lemma feed_ok_all: "feed_ok older rec old \<Longrightarrow> allMessages old = first_msgs old @ older"
  by (auto simp: feed_ok_def first_msgs_def dest: allMessages_first)

lemma feed_okE:
  assumes "feed_ok older rec old"
  obtains f p ps where "first_data old = Some (f, p, ps, first_msgs old)"
    and "concat (map page_messages ps) = older" and "first_msgs old \<noteq> []"
    and "distinct (map msg_id (first_msgs old))" and "set (first_msgs old) \<subseteq> rec"
  using assms by (fastforce simp: feed_ok_def first_msgs_def)

lemma first_msgs_with [simp]: "first_msgs (Some (with_first f p ps d)) = d"
  by (simp add: first_msgs_def)

lemma feed_ok_with:
  "feed_ok older rec (Some (with_first f p ps d)) \<longleftrightarrow>
     concat (map page_messages ps) = older \<and> d \<noteq> [] \<and> distinct (map msg_id d) \<and> set d \<subseteq> rec"
  by (auto simp: feed_ok_def)

lemma feed_ok_mono: "feed_ok older rec old \<Longrightarrow> rec \<subseteq> rec' \<Longrightarrow> feed_ok older rec' old"
  by (auto simp: feed_ok_def)

text \<open>A step that keeps the log and only adds to what is covered keeps completeness.\<close>

lemma complete_mono:
  assumes "complete clock s" and "room_log t = room_log s" and "lossy s \<Longrightarrow> lossy t"
    and "\<And>m. m \<in> set (room_log s) \<Longrightarrow> covered clock s m \<Longrightarrow> covered clock t m" and "marks t \<subseteq> marks s"
    and "link_up t \<Longrightarrow> link_up s"
    and "\<And>m. link_up t \<Longrightarrow> m \<in> set (in_flight s) \<Longrightarrow> m \<in> set (in_flight t) \<or> covered clock t m"
  shows "complete clock t"
  using assms unfolding complete_def by (metis subsetD)

lemma recent_simps [simp]:
  "recent older (s\<lparr>client := c\<rparr>) = recent older s"
  "recent older (s\<lparr>feed_cache := f\<rparr>) = recent older s"
  "recent older (s\<lparr>newest_cursor := k\<rparr>) = recent older s"
  "recent older (s\<lparr>in_flight := ms\<rparr>) = recent older s"
  "recent older (s\<lparr>gap_requests := r\<rparr>) = recent older s"
  "recent older (s\<lparr>gap_answers := a\<rparr>) = recent older s"
  "recent older (s\<lparr>lossy := l\<rparr>) = recent older s"
  by (simp_all add: recent_def)


subsection \<open>One lemma per step\<close>

lemma quiet_inv:
  assumes "live_inv clock older s" and "hook_step base room (client s) e c" and "no_change e"
    and "\<And>i. e \<noteq> SocketOpen i"
  shows "live_inv clock older ((absorb c s)\<lparr>in_flight := if newest (sockets c) = OPEN then in_flight s else []\<rparr>)"
    (is "live_inv clock older ?t")
proof -
  have inv: "ws_inv (client s)" using assms(1) by (simp add: live_inv_def)
  note eq = absorb_quiet [OF assms(2-4)]
  have up: "link_up ?t \<Longrightarrow> link_up s" "link_up ?t \<longleftrightarrow> newest (sockets c) = OPEN"
    using opens_only_by_event [OF inv assms(2,4)] by (simp_all add: eq link_up_def)
  have same: "marks ?t = marks s" "covered clock ?t = covered clock s" "gap_ok older ?t = gap_ok older s"
    by (simp_all add: eq marks_def covered_def gap_ok_def fun_eq_iff)
  have "complete clock ?t"
    by (rule complete_mono [of clock s]) (use assms(1) up same in \<open>auto simp: live_inv_def eq\<close>)
  moreover have "flight_ok clock older ?t"
    using assms(1) up by (auto simp: live_inv_def flight_ok_def eq)
  moreover have "ws_inv c" by (rule ws_inv_step [OF inv assms(2)])
  ultimately show ?thesis using assms(1) same by (simp add: live_inv_def eq split_ok_def)
qed

lemma open_inv:
  assumes "live_inv clock older s" and "hook_step base room (client s) (SocketOpen i) c"
  shows "live_inv clock older ((absorb c s)\<lparr>in_flight := if newest (sockets c) = OPEN then in_flight s else []\<rparr>)"
    (is "live_inv clock older ?t")
proof -
  have inv: "ws_inv (client s)" "feed_ok older (set (recent older s)) (feed_cache s)"
    "gap_ok older s" "log_ok clock (room_log s)" "split_ok older s"
    using assms(1) by (simp_all add: live_inv_def)
  obtain k m where k: "newest_cursor s = Some k" "m \<in> set (recent older s)" "k = cursor_of m"
    using inv(3) by (auto simp: gap_ok_def marks_def)
  then have plain: "decodeCursor (afterCursor k) = Some k"
    using inv(4) split_set [OF inv(5)] by (intro decodeCursor_afterCursor) (auto simp: log_ok_def)
  obtain f p ps where fd: "first_data (feed_cache s) = Some (f, p, ps, first_msgs (feed_cache s))"
    "first_msgs (feed_cache s) \<noteq> []" using feed_okE [OF inv(2)] by metis
  have eq: "absorb c s = s\<lparr>client := c, gap_requests := gap_requests s @ [afterCursor k]\<rparr>"
    using fd k by (simp add: absorb_open [OF assms(2)] gap_cursor_def)
  have km: "k \<in> marks s" using k by (simp add: marks_def)
  have marks: "marks ?t = marks s" using plain k by (auto simp: eq marks_def)
  have cov: "covered clock ?t m \<longleftrightarrow> covered clock s m \<or> newer clock m k" for m
    using plain by (auto simp: eq covered_def)
  have "covered clock ?t m" if "\<not> lossy s" "m \<in> set (room_log s)" for m
    using assms(1) km that unfolding cov live_inv_def complete_def by blast
  moreover have "lossy ?t = lossy s" "room_log ?t = room_log s" by (simp_all add: eq)
  ultimately have "complete clock ?t" unfolding complete_def by metis
  moreover have "link_up ?t \<longleftrightarrow> newest (sockets c) = OPEN" by (simp add: eq link_up_def)
  then have "flight_ok clock older ?t" using assms(1) by (auto simp: live_inv_def flight_ok_def eq)
  moreover have "gap_ok older ?t" using inv(3) marks plain by (simp add: gap_ok_def) (auto simp: eq)
  moreover have "ws_inv c" by (rule ws_inv_step [OF inv(1) assms(2)])
  ultimately show ?thesis using assms(1) by (simp add: live_inv_def eq split_ok_def)
qed


lemma deliver_inv:
  assumes "live_inv clock older s" and flight: "in_flight s = m # ms"
    and "hook_step base room (client s) (SocketMessage i (frame_text (NewMessage (Some m)))) c"
  shows "live_inv clock older ((absorb c s)\<lparr>in_flight := ms\<rparr>)" (is "live_inv clock older ?t")
proof -
  have inv: "ws_inv (client s)" "feed_ok older (set (recent older s)) (feed_cache s)" "gap_ok older s"
    "log_ok clock (room_log s)" "split_ok older s" "flight_ok clock older s" "complete clock s"
    using assms(1) by (simp_all add: live_inv_def)
  let ?d = "first_msgs (feed_cache s)"
  let ?new = "m # filter (\<lambda>x. msg_id x \<noteq> msg_id m) ?d"
  from feed_okE [OF inv(2)] obtain f p ps where fd: "first_data (feed_cache s) = Some (f, p, ps, ?d)"
    "concat (map page_messages ps) = older" "distinct (map msg_id ?d)" "set ?d \<subseteq> set (recent older s)"
    by metis
  have m: "m \<in> set (recent older s)" using inv(6) flight by (simp add: flight_ok_def)
  then have id: "msg_id m \<noteq> []" and in_log: "m \<in> set (room_log s)"
    using inv(4) split_set [OF inv(5)] by (auto simp: log_ok_def)
  have "handleWsMessage (NewMessage (Some m)) (feed_cache s, newest_cursor s)
      = (Some (with_first f p ps ?new), Some (cursor_of m))"
    using fd(1) id by (simp add: handleWsMessage_def js_defs)
  from absorb_message [OF assms(3) this]
  have eq: "absorb c s = s\<lparr>client := c, feed_cache := Some (with_first f p ps ?new), newest_cursor := Some (cursor_of m)\<rparr>" .
  have same: "x = m" if "x \<in> set ?d" "msg_id x = msg_id m" for x
    using that log_id_eq [OF inv(4) _ in_log] fd(4) split_set [OF inv(5)] by blast
  then have set_new: "set ?new = insert m (set ?d)" by auto
  have all: "allMessages (feed_cache s) = ?d @ older" by (rule feed_ok_all [OF inv(2)])
  have cov: "covered clock ?t x \<longleftrightarrow> x = m \<or> covered clock s x" for x
    using set_new fd(2) by (auto simp: eq covered_def all allMessages_with)
  have marks: "marks ?t \<subseteq> insert (cursor_of m) (marks s)"
    using set_new by (auto simp: eq marks_def)
  have later: "newer clock x (cursor_of m)" if "x \<in> set ms" for x
    using inv(6) flight that by (simp add: flight_ok_def)
  have socks: "sockets c = sockets (client s)"
    using message_effect(2) assms(3) by (simp add: hook_step_def)
  have up: "link_up s" "link_up ?t" using inv(6) flight socks by (auto simp: flight_ok_def link_up_def eq)
  have "lossy s \<or> covered clock ?t x \<or> (\<forall>k \<in> marks ?t. newer clock x k) \<and> x \<in> set ms"
    if "x \<in> set (room_log s)" for x
    using that inv(7) up flight later marks unfolding complete_def cov by (metis insertE set_ConsD subsetD)
  moreover have "lossy ?t = lossy s" "room_log ?t = room_log s" "in_flight ?t = ms" by (simp_all add: eq)
  ultimately have "complete clock ?t" unfolding complete_def by metis
  moreover have "flight_ok clock older ?t" using inv(6) flight up by (simp add: flight_ok_def) (simp add: eq)
  moreover have "marks ?t \<subseteq> cursor_of ` set (recent older s)" using marks inv(3) m by (auto simp: gap_ok_def)
  then have "gap_ok older ?t" using inv(3) by (simp add: gap_ok_def) (simp add: eq)
  moreover have "feed_ok older (set (recent older s)) (feed_cache ?t)"
    using fd m by (auto simp: eq feed_ok_with distinct_filter_ids)
  moreover have "ws_inv c" by (rule ws_inv_step [OF inv(1) assms(3)])
  ultimately show ?thesis using inv by (simp add: live_inv_def eq split_ok_def)
qed

lemma post_inv:
  assumes "live_inv clock older s" and "fresh_post clock (room_log s) m"
  shows "live_inv clock older
    (s\<lparr>room_log := room_log s @ [m], in_flight := if link_up s then in_flight s @ [m] else in_flight s\<rparr>)"
    (is "live_inv clock older ?t")
proof -
  have inv: "ws_inv (client s)" "feed_ok older (set (recent older s)) (feed_cache s)" "gap_ok older s"
    "log_ok clock (room_log s)" "split_ok older s" "flight_ok clock older s" "complete clock s"
    using assms(1) by (simp_all add: live_inv_def)
  have len: "length older \<le> length (room_log s)"
    using inv(5) by (metis length_rev length_take min.absorb_iff2 min.commute split_ok_def)
  then have rec: "recent older ?t = recent older s @ [m]" by (simp add: recent_def)
  have new: "newer clock m (cursor_of x)" if "x \<in> set (room_log s)" for x
    using assms(2) that by (simp add: fresh_post_def)
  have sub: "set (recent older s) \<subseteq> set (room_log s)" using split_set [OF inv(5)] by blast
  have same: "marks ?t = marks s" "covered clock ?t = covered clock s" "link_up ?t = link_up s"
    by (simp_all add: marks_def covered_def link_up_def fun_eq_iff)
  have "\<forall>c \<in> marks s. newer clock m c" using inv(3) new sub by (fastforce simp: gap_ok_def)
  then have "complete clock ?t" using inv(7) unfolding complete_def same by auto
  moreover have "gap_ok older ?t" using inv(3) unfolding gap_ok_def same rec by auto
  moreover have "flight_ok clock older ?t"
    using inv(6) new sub unfolding flight_ok_def same rec by (auto simp: sorted_wrt_append)
  moreover have "log_ok clock (room_log ?t)"
    using inv(4) assms(2) by (auto simp: log_ok_def fresh_post_def sorted_wrt_append)
  moreover have "feed_ok older (set (recent older ?t)) (feed_cache s)"
    unfolding rec by (rule feed_ok_mono [OF inv(2)]) auto
  moreover have "split_ok older ?t" using inv(5) len by (simp add: split_ok_def)
  ultimately show ?thesis using inv(1) by (simp add: live_inv_def)
qed


lemma in_remove1: "x \<in> set (remove1 y xs) \<Longrightarrow> x \<in> set xs"
  by (induction xs) (auto split: if_splits)

lemma serve_inv:
  assumes "live_inv clock older s" and tok: "tok \<in> set (gap_requests s)" "decodeCursor tok = Some k"
  shows "live_inv clock older
    (s\<lparr>gap_requests := remove1 tok (gap_requests s),
       gap_answers := gap_answers s @ [listAfter clock (room_log s) k],
       lossy := lossy s \<or> page_limit < length (filter (\<lambda>m. newer clock m k) (room_log s))\<rparr>)"
    (is "live_inv clock older ?t")
proof -
  have inv: "gap_ok older s" "log_ok clock (room_log s)" "split_ok older s" "flight_ok clock older s"
    "complete clock s"
    using assms(1) by (simp_all add: live_inv_def)
  let ?a = "listAfter clock (room_log s) k"
  have k: "k \<in> marks s" using tok by (auto simp: marks_def)
  then obtain y where y: "y \<in> set (recent older s)" "k = cursor_of y" using inv(1) by (auto simp: gap_ok_def)
  have "\<not> newer clock x k" if "x \<in> set older" for x
  proof -
    have "newer clock y (cursor_of x)"
      using inv(2) split_log [OF inv(3)] that y(1) by (auto simp: log_ok_def sorted_wrt_append)
    then show ?thesis using newer_asym y(2) by blast
  qed
  then have a: "set ?a \<subseteq> set (recent older s)"
    using split_set [OF inv(3)] by (auto simp: listAfter_def dest!: in_set_takeD)
  have ids: "distinct (map msg_id ?a)"
    using distinct_filter_ids [of "room_log s"] inv(2)
    by (simp add: listAfter_def log_ok_def take_map [symmetric] del: take_map)
  have marks: "marks ?t \<subseteq> marks s \<union> cursor_of ` set ?a"
    by (auto simp: marks_def dest: in_remove1)
  have "covered clock ?t m" if "m \<in> set (room_log s)" "\<not> lossy ?t" for m
  proof -
    have short: "?a = filter (\<lambda>m. newer clock m k) (room_log s)" using that(2) by (simp add: listAfter_def)
    have "m \<in> set ?a" if "newer clock m k" using that \<open>m \<in> set (room_log s)\<close> unfolding short by simp
    moreover have "covered clock s m \<or> newer clock m k"
      using inv(5) that k unfolding complete_def by auto
    moreover have "(\<exists>x \<in> set (remove1 tok (gap_requests s)). \<exists>c. decodeCursor x = Some c \<and> newer clock m c)
        \<or> newer clock m k"
      if "x \<in> set (gap_requests s)" "decodeCursor x = Some c" "newer clock m c" for x c
      using that tok(2) by (metis in_set_remove1 option.inject)
    ultimately show ?thesis unfolding covered_def by simp blast
  qed
  then have "complete clock ?t" by (auto simp: complete_def)
  moreover have "marks ?t \<subseteq> cursor_of ` set (recent older s)"
    using marks image_mono [OF a, of cursor_of] inv(1) unfolding gap_ok_def by blast
  then have "gap_ok older ?t" using inv(1) a ids by (simp add: gap_ok_def) (auto dest: in_remove1)
  moreover have "flight_ok clock older ?t" using inv(4) by (simp add: flight_ok_def link_up_def)
  ultimately show ?thesis using assms(1) by (simp add: live_inv_def split_ok_def)
qed

lemma failed_inv:
  assumes "live_inv clock older s" and "tok \<in> set (gap_requests s)"
  shows "live_inv clock older (s\<lparr>gap_requests := remove1 tok (gap_requests s), lossy := True\<rparr>)"
    (is "live_inv clock older ?t")
proof -
  have "marks ?t \<subseteq> marks s" by (auto simp: marks_def dest: in_remove1)
  then have "gap_ok older ?t" using assms(1) by (auto simp: live_inv_def gap_ok_def dest: in_remove1)
  then show ?thesis using assms(1)
    by (simp add: live_inv_def split_ok_def complete_def flight_ok_def link_up_def)
qed

lemma merge_inv:
  assumes "live_inv clock older s" and a: "a \<in> set (gap_answers s)"
  shows "live_inv clock older (s\<lparr>gap_answers := remove1 a (gap_answers s), feed_cache := mergeGap a (feed_cache s)\<rparr>)"
    (is "live_inv clock older ?t")
proof -
  have inv: "feed_ok older (set (recent older s)) (feed_cache s)" "gap_ok older s"
    "log_ok clock (room_log s)" "split_ok older s" "flight_ok clock older s" "complete clock s"
    using assms(1) by (simp_all add: live_inv_def)
  let ?d = "first_msgs (feed_cache s)" and ?d' = "first_msgs (mergeGap a (feed_cache s))"
  from feed_okE [OF inv(1)] obtain f p ps where fd: "first_data (feed_cache s) = Some (f, p, ps, ?d)"
    "concat (map page_messages ps) = older" "?d \<noteq> []" "distinct (map msg_id ?d)" "set ?d \<subseteq> set (recent older s)"
    by metis
  have as: "distinct (map msg_id a)" "set a \<subseteq> set (recent older s)" using inv(2) a by (auto simp: gap_ok_def)
  have sub: "set (recent older s) \<subseteq> set (room_log s)" using split_set [OF inv(4)] by blast
  have new: "?d' = filter (\<lambda>m. msg_id m \<notin> set (map msg_id ?d)) a @ ?d"
    using fd(1) by (simp add: mergeGap_def Let_def)
  have "x \<in> set ?d" if x: "x \<in> set a" "msg_id x \<in> set (map msg_id ?d)" for x
  proof -
    obtain y where y: "y \<in> set ?d" "msg_id x = msg_id y" using x(2) by auto
    with log_id_eq [OF inv(3), of x y] x(1) as(2) fd(5) sub show ?thesis by blast
  qed
  then have set_new: "set ?d' = set a \<union> set ?d" unfolding new by auto
  have feed: "feed_ok older (set (recent older s)) (mergeGap a (feed_cache s))"
  proof (cases "a = []")
    case True
    then show ?thesis using inv(1) by (simp add: mergeGap_def)
  next
    case False
    have "distinct (map msg_id ?d')" using fd(4) as(1) unfolding new by (auto simp: distinct_filter_ids)
    moreover have "?d' \<noteq> []" using fd(3) by (simp add: new)
    ultimately have "feed_ok older (set (recent older s)) (Some (with_first f p ps ?d'))"
      unfolding feed_ok_with set_new using fd(2,5) as(2) by simp
    moreover have "mergeGap a (feed_cache s) = Some (with_first f p ps ?d')"
      using fd(1) False by (simp add: mergeGap_def Let_def)
    ultimately show ?thesis by simp
  qed
  have cov: "covered clock ?t m" if "covered clock s m" for m
  proof -
    have "(\<exists>x \<in> set (remove1 a (gap_answers s)). m \<in> set x) \<or> m \<in> set a"
      if "x \<in> set (gap_answers s)" "m \<in> set x" for x
      using that by (metis in_set_remove1)
    with that set_new show ?thesis
      unfolding covered_def feed_ok_all [OF inv(1)] by (simp add: feed_ok_all [OF feed]) blast
  qed
  have "set ?d' \<union> \<Union> (set ` set (remove1 a (gap_answers s))) \<subseteq> set ?d \<union> \<Union> (set ` set (gap_answers s))"
    using set_new a by (auto dest: in_remove1)
  from image_mono [OF this, of cursor_of] have marks: "marks ?t \<subseteq> marks s" by (auto simp: marks_def)
  have "complete clock ?t"
    by (rule complete_mono [OF inv(6)]) (use cov marks in \<open>auto simp: link_up_def\<close>)
  moreover have "gap_ok older ?t" using inv(2) marks by (auto simp: gap_ok_def dest: in_remove1)
  moreover have "flight_ok clock older ?t" using inv(5) by (simp add: flight_ok_def link_up_def)
  ultimately show ?thesis using assms(1) feed by (simp add: live_inv_def split_ok_def)
qed

lemma rendered_inv:
  assumes "live_inv clock older s"
  shows "live_inv clock older (s\<lparr>newest_cursor := trackNewest (feed_cache s) (newest_cursor s)\<rparr>)"
    (is "live_inv clock older ?t")
proof -
  have inv: "feed_ok older (set (recent older s)) (feed_cache s)" "gap_ok older s" "flight_ok clock older s"
    "complete clock s"
    using assms by (simp_all add: live_inv_def)
  from feed_okE [OF inv(1)] obtain m ms where d: "first_msgs (feed_cache s) = m # ms" by (metis neq_Nil_conv)
  then have track: "trackNewest (feed_cache s) (newest_cursor s) = Some (cursor_of m)"
    by (simp add: trackNewest_def feed_ok_all [OF inv(1)])
  have marks: "marks ?t \<subseteq> marks s" using d by (auto simp: marks_def track)
  have "complete clock ?t"
    by (rule complete_mono [OF inv(4)]) (use marks in \<open>auto simp: link_up_def covered_def\<close>)
  moreover have "gap_ok older ?t" using inv(2) marks track by (auto simp: gap_ok_def)
  moreover have "flight_ok clock older ?t" using inv(3) by (simp add: flight_ok_def link_up_def)
  ultimately show ?thesis using assms by (simp add: live_inv_def split_ok_def)
qed

lemma live_inv_step:
  assumes "live_inv clock older s" and "live_step clock base room s e t"
  shows "live_inv clock older t"
  using assms(2)
proof (cases rule: live_step.cases)
  case (net e c)
  show ?thesis
  proof (cases "\<exists>i. e = SocketOpen i")
    case True
    with net open_inv [OF assms(1)] show ?thesis by metis
  next
    case False
    then have "\<And>i. e \<noteq> SocketOpen i" by blast
    with net quiet_inv [OF assms(1) net(3,4)] show ?thesis by metis
  qed
next
  case (deliver m ms i c)
  with deliver_inv [OF assms(1)] show ?thesis by metis
next
  case (post m)
  with post_inv [OF assms(1)] show ?thesis by metis
next
  case (serve tok c)
  with serve_inv [OF assms(1)] show ?thesis by metis
next
  case (gap_failed tok)
  with failed_inv [OF assms(1)] show ?thesis by metis
next
  case (merge a)
  with merge_inv [OF assms(1)] show ?thesis by metis
next
  case rendered
  with rendered_inv [OF assms(1)] show ?thesis by metis
qed


section \<open>Running the room\<close>

text \<open>The first successful load: everything the server has is shown, and nothing is pending.\<close>

definition live_start ::
    "string \<Rightarrow> string \<Rightarrow> (string \<Rightarrow> int) \<Rightarrow> message list \<Rightarrow> live \<Rightarrow> bool" where
  "live_start base room clock older s \<longleftrightarrow>
     reachable ws_init (hook_step base room) (client s) \<and> log_ok clock (room_log s)
     \<and> allMessages (feed_cache s) = rev (room_log s) \<and> first_msgs (feed_cache s) \<noteq> []
     \<and> allMessages (feed_cache s) = first_msgs (feed_cache s) @ older
     \<and> newest_cursor s = Some (cursor_of (last (room_log s)))
     \<and> in_flight s = [] \<and> gap_requests s = [] \<and> gap_answers s = [] \<and> \<not> lossy s"

lemma live_start_inv:
  assumes "live_start base room clock older s"
  shows "live_inv clock older s"
proof -
  let ?d = "first_msgs (feed_cache s)"
  have s: "log_ok clock (room_log s)" "room_log s = rev older @ rev ?d" "?d \<noteq> []"
    "newest_cursor s = Some (cursor_of (last (room_log s)))"
    using assms by (auto simp: live_start_def) (metis rev_append rev_rev_ident)
  obtain f p ps where fd: "first_data (feed_cache s) = Some (f, p, ps, ?d)"
    using s(3) by (auto simp: first_msgs_def split: option.splits)
  have rec: "recent older s = rev ?d" using s(2) by (simp add: recent_def)
  have "concat (map page_messages ps) = older"
    using allMessages_first [OF fd] assms by (auto simp: live_start_def)
  then have "feed_ok older (set (recent older s)) (feed_cache s)"
    using fd s by (auto simp: feed_ok_def rec log_ok_def rev_map [symmetric])
  moreover have "cursor_of (last (room_log s)) \<in> cursor_of ` set ?d"
    using s(2,3) by (cases ?d) simp_all
  then have "gap_ok older s" using assms s(4) by (auto simp: gap_ok_def marks_def live_start_def rec)
  moreover have "complete clock s"
    using assms by (auto simp: complete_def covered_def live_start_def)
  ultimately show ?thesis using assms ws.reachable_inv s(2)
    by (auto simp: live_inv_def live_start_def split_ok_def flight_ok_def)
qed

interpretation live: invariant_machine "live_start base room clock older" "live_step clock base room"
    "live_inv clock older"
  by unfold_locales (rule live_start_inv live_inv_step, assumption+)+

definition settled :: "live \<Rightarrow> bool" where
  "settled s \<longleftrightarrow> in_flight s = [] \<and> gap_requests s = [] \<and> gap_answers s = []"

lemma settled_complete:
  assumes "live_inv clock older s" and "\<not> lossy s" and "link_up s" and "settled s"
  shows "mset (allMessages (feed_cache s)) = mset (room_log s)"
proof -
  have inv: "feed_ok older (set (recent older s)) (feed_cache s)" "log_ok clock (room_log s)" "split_ok older s"
    "complete clock s"
    using assms(1) by (simp_all add: live_inv_def)
  let ?d = "first_msgs (feed_cache s)"
  from feed_okE [OF inv(1)] have d: "distinct (map msg_id ?d)" "set ?d \<subseteq> set (recent older s)" by metis+
  have rec: "distinct (map msg_id (rev older @ recent older s))"
    using inv(2) split_log [OF inv(3)] by (simp add: log_ok_def)
  have "set (room_log s) \<subseteq> set (allMessages (feed_cache s))"
    using inv(4) assms(2-4) by (auto simp: complete_def covered_def settled_def)
  then have "set (recent older s) \<subseteq> set ?d"
    using rec split_set [OF inv(3)] by (auto simp: feed_ok_all [OF inv(1)])
  then have "mset ?d = mset (recent older s)"
    using d rec by (intro set_eq_iff_mset_eq_distinct [THEN iffD1]) (auto simp: distinct_map)
  then show ?thesis by (simp add: feed_ok_all [OF inv(1)] split_log [OF inv(3)])
qed

lemma shown_once:
  assumes "live_inv clock older s"
  shows "distinct (map msg_id (allMessages (feed_cache s)))" and "set (allMessages (feed_cache s)) \<subseteq> set (room_log s)"
proof -
  have inv: "feed_ok older (set (recent older s)) (feed_cache s)" "log_ok clock (room_log s)" "split_ok older s"
    using assms by (simp_all add: live_inv_def)
  from feed_okE [OF inv(1)] have d: "distinct (map msg_id (first_msgs (feed_cache s)))"
    "set (first_msgs (feed_cache s)) \<subseteq> set (recent older s)" by metis+
  have rec: "distinct (map msg_id (rev older @ recent older s))"
    using inv(2) split_log [OF inv(3)] by (simp add: log_ok_def)
  then have "msg_id ` set (recent older s) \<inter> msg_id ` set older = {}" by auto
  with image_mono [OF d(2), of msg_id] have "msg_id ` set (first_msgs (feed_cache s)) \<inter> msg_id ` set older = {}"
    by blast
  then show "distinct (map msg_id (allMessages (feed_cache s)))"
    using d(1) rec by (simp add: feed_ok_all [OF inv(1)] rev_map [symmetric])
  show "set (allMessages (feed_cache s)) \<subseteq> set (room_log s)"
    using d(2) by (auto simp: feed_ok_all [OF inv(1)] split_set [OF inv(3)])
qed


subsection \<open>An open connection settles\<close>

text \<open>What a pending request asks for fits one page of the server.\<close>

definition gaps_fit :: "(string \<Rightarrow> int) \<Rightarrow> live \<Rightarrow> bool" where
  "gaps_fit clock s \<longleftrightarrow>
     (\<forall>tok \<in> set (gap_requests s). \<forall>c. decodeCursor tok = Some c
        \<longrightarrow> length (filter (\<lambda>m. newer clock m c) (room_log s)) \<le> page_limit)"

definition pending :: "live \<Rightarrow> nat" where
  "pending s = 2 * length (gap_requests s) + length (gap_answers s) + length (in_flight s)"

lemma pending_step:
  assumes "live_inv clock older s" and "link_up s" and "gaps_fit clock s" and "\<not> settled s"
  shows "\<exists>e t. live_step clock base room s e t \<and> pending t < pending s \<and> link_up t \<and> gaps_fit clock t
    \<and> lossy t = lossy s \<and> room_log t = room_log s"
proof (cases "gap_requests s")
  case (Cons tok r)
  then obtain c where c: "decodeCursor tok = Some c"
    using assms(1) by (auto simp: live_inv_def gap_ok_def)
  have tok: "tok \<in> set (gap_requests s)" using Cons by simp
  have "\<not> page_limit < length (filter (\<lambda>m. newer clock m c) (room_log s))"
    using assms(3) tok c by (simp add: gaps_fit_def linorder_not_less)
  with Cons assms(2,3) show ?thesis
    by - (intro exI conjI, rule serve [OF tok c], auto simp: pending_def link_up_def gaps_fit_def)
next
  case Nil
  show ?thesis
  proof (cases "gap_answers s")
    case (Cons a as)
    then have "a \<in> set (gap_answers s)" by simp
    with Cons Nil assms(2,3) show ?thesis
      by - (intro exI conjI, rule merge, auto simp: pending_def link_up_def gaps_fit_def)
  next
    case no_answer: Nil
    with Nil assms(4) obtain m ms where flight: "in_flight s = m # ms"
      by (auto simp: settled_def neq_Nil_conv)
    let ?i = "length (sockets (client s)) - 1" and ?text = "frame_text (NewMessage (Some m))"
    have "sockets (client s) \<noteq> []" "last (sockets (client s)) = OPEN"
      using assms(2) by (auto simp: link_up_def newest_def split: if_splits)
    then have "?i < length (sockets (client s))" "sockets (client s) ! ?i = OPEN"
      by (simp_all add: last_conv_nth)
    from message [OF this, of base room ?text]
    have h: "hook_step base room (client s) (SocketMessage ?i ?text) (onmessage ?text (client s))"
      by (simp add: hook_step_def)
    obtain f k where "handleWsMessage (NewMessage (Some m)) (feed_cache s, newest_cursor s) = (f, k)" by fastforce
    note eq = absorb_message [OF h this]
    have "sockets (onmessage ?text (client s)) = sockets (client s)"
      by (simp add: onmessage_def split: option.splits)
    with flight Nil no_answer assms(2) show ?thesis
      by - (intro exI conjI, rule deliver [OF flight h], auto simp: eq pending_def link_up_def gaps_fit_def)
  qed
qed

lemma settles:
  assumes "live_inv clock older s" and "link_up s" and "gaps_fit clock s" and "\<not> lossy s"
  shows "\<exists>es t. run (live_step clock base room) s es t \<and> settled t \<and> link_up t \<and> \<not> lossy t
    \<and> live_inv clock older t \<and> room_log t = room_log s"
  using assms
proof (induction "pending s" arbitrary: s rule: less_induct)
  case less
  show ?case
  proof (cases "settled s")
    case True
    with less.prems show ?thesis by (intro exI [of _ "[]"] exI [of _ s]) simp
  next
    case False
    from pending_step [OF less.prems(1-3) False] obtain e t where t: "live_step clock base room s e t"
      "pending t < pending s" "link_up t" "gaps_fit clock t" "lossy t = lossy s" "room_log t = room_log s"
      by blast
    from less.hyps [OF t(2) live_inv_step [OF less.prems(1) t(1)] t(3,4)] t(5) less.prems(4)
    obtain es u where u: "run (live_step clock base room) t es u" "settled u" "link_up u" "\<not> lossy u"
      "live_inv clock older u" "room_log u = room_log t" by auto
    from run_Cons [OF t(1) u(1)] u t(6) show ?thesis by (intro exI [of _ "e # es"] exI [of _ u]) simp
  qed
qed


subsection \<open>The machine as a function\<close>

definition hook_next :: "string \<Rightarrow> string \<Rightarrow> ws_client \<Rightarrow> ws_event \<Rightarrow> ws_client option" where
  "hook_next base room c e =
     (if e = Connect \<and> (connect_called c \<or> intentionalClose c) then None else ws_next base room c e)"

fun live_next ::
    "(string \<Rightarrow> int) \<Rightarrow> string \<Rightarrow> string \<Rightarrow> live \<Rightarrow> live_event \<Rightarrow> live option" where
  "live_next clock base room s (Net e) =
     (if no_change e
      then map_option (\<lambda>c. (absorb c s)\<lparr>in_flight := if newest (sockets c) = OPEN then in_flight s else []\<rparr>)
             (hook_next base room (client s) e)
      else None)"
| "live_next clock base room s (Deliver i) =
     (case in_flight s of [] \<Rightarrow> None
      | m # ms \<Rightarrow> map_option (\<lambda>c. (absorb c s)\<lparr>in_flight := ms\<rparr>)
          (hook_next base room (client s) (SocketMessage i (frame_text (NewMessage (Some m))))))"
| "live_next clock base room s (Post m) =
     (if fresh_post clock (room_log s) m
      then Some (s\<lparr>room_log := room_log s @ [m],
                   in_flight := if link_up s then in_flight s @ [m] else in_flight s\<rparr>)
      else None)"
| "live_next clock base room s (Serve tok) =
     (if tok \<in> set (gap_requests s)
      then map_option (\<lambda>c. s\<lparr>gap_requests := remove1 tok (gap_requests s),
             gap_answers := gap_answers s @ [listAfter clock (room_log s) c],
             lossy := lossy s \<or> page_limit < length (filter (\<lambda>m. newer clock m c) (room_log s))\<rparr>)
             (decodeCursor tok)
      else None)"
| "live_next clock base room s (GapFailed tok) =
     (if tok \<in> set (gap_requests s)
      then Some (s\<lparr>gap_requests := remove1 tok (gap_requests s), lossy := True\<rparr>) else None)"
| "live_next clock base room s (Merge a) =
     (if a \<in> set (gap_answers s)
      then Some (s\<lparr>gap_answers := remove1 a (gap_answers s), feed_cache := mergeGap a (feed_cache s)\<rparr>) else None)"
| "live_next clock base room s Rendered =
     Some (s\<lparr>newest_cursor := trackNewest (feed_cache s) (newest_cursor s)\<rparr>)"

lemma hook_next_step: "hook_next base room c e = Some c' \<longleftrightarrow> hook_step base room c e c'"
  by (auto simp: hook_next_def hook_step_def ws_step_next)

lemma live_next_step:
  assumes "live_next clock base room s e = Some t"
  shows "live_step clock base room s e t"
proof (cases e)
  case (Net e')
  with assms obtain c where "no_change e'" "hook_step base room (client s) e' c"
    and t: "t = (absorb c s)\<lparr>in_flight := if newest (sockets c) = OPEN then in_flight s else []\<rparr>"
    by (auto simp: hook_next_step simp del: if_split split: if_split_asm)
  then show ?thesis unfolding Net t by (intro net)
next
  case (Post m)
  with assms have "fresh_post clock (room_log s) m" and t: "t = s\<lparr>room_log := room_log s @ [m],
      in_flight := if link_up s then in_flight s @ [m] else in_flight s\<rparr>"
    by (simp_all split: if_split_asm)
  then show ?thesis unfolding Post t by (intro post)
qed (use assms in \<open>auto simp: hook_next_step split: if_splits list.splits intro: live_step.intros\<close>)

fun live_run ::
    "(string \<Rightarrow> int) \<Rightarrow> string \<Rightarrow> string \<Rightarrow> live \<Rightarrow> live_event list \<Rightarrow> live option" where
  "live_run clock base room s [] = Some s"
| "live_run clock base room s (e # es) =
     Option.bind (live_next clock base room s e) (\<lambda>t. live_run clock base room t es)"

lemma live_run_run: "live_run clock base room s es = Some t \<Longrightarrow> run (live_step clock base room) s es t"
  by (induction es arbitrary: s) (auto simp: run_Cons_iff bind_eq_Some_conv dest: live_next_step)


section \<open>Properties\<close>

definition stamp_clock :: "string \<Rightarrow> int" where
  "stamp_clock t = int (length t)"

definition sample_live :: live where
  "sample_live =
     \<lparr>client = the (ws_run ''ws://h'' ''r1'' new_client [Connect, TicketResolved (Some ''t''), SocketOpen 0]),
      feed_cache = Some (seed_feed [msg_at ''m1'' ''t'' ''a'']),
      newest_cursor = Some (cursor_of (msg_at ''m1'' ''t'' ''a'')),
      room_log = [msg_at ''m1'' ''t'' ''a''], in_flight = [], gap_requests = [], gap_answers = [], lossy = False\<rparr>"

text \<open>The connection breaks, a message is missed, the connection is back and another one is posted.\<close>

definition sample_outage :: "live_event list" where
  "sample_outage =
     [Net (SocketClose 0), Post (msg_at ''m2'' ''tt'' ''b''), Net (TimeoutFires 1),
      Net (TicketResolved (Some ''u'')), Net (SocketOpen 1), Post (msg_at ''m3'' ''ttt'' ''c'')]"

abbreviation "sample_gap \<equiv> afterCursor (cursor_of (msg_at ''m1'' ''t'' ''a''))"

lemmas live_run_defs = sample_live_def sample_outage_def hook_next_def new_client_def ws_defs ready_def
  js_defs js_nth_def maxReconnectAttempts_def Let_def absorb_def on_status_def fetches_status no_change_def
  link_up_def newest_def gap_cursor_def frame_text_def json_parse_stringify on_data_def event_of_to_json
  handleWsMessage_def first_data_def seed_feed_def seedPage_def with_first_def allMessages_def
  page_messages_def mergeGap_def decodeCursor_afterCursor plain_cursor_def plain_char_def listAfter_def
  page_limit_def newer_def stamp_clock_def fresh_post_def cursor_of_def msg_at_def settled_def gaps_fit_def

lemma sample_live_start: "live_start ''ws://h'' ''r1'' stamp_clock [] sample_live"
proof -
  obtain c where c: "ws_run ''ws://h'' ''r1'' new_client [Connect, TicketResolved (Some ''t''), SocketOpen 0] = Some c"
    by (simp add: new_client_def ws_defs ready_def js_defs js_nth_def Let_def)
  have "reachable ws_init (hook_step ''ws://h'' ''r1'') c" by (rule hook_run [OF c refl]) simp
  then show ?thesis
    unfolding live_start_def sample_live_def c
    by (simp add: log_ok_def first_msgs_def first_data_def seed_feed_def seedPage_def allMessages_def
        page_messages_def) (simp add: msg_at_def plain_cursor_def cursor_of_def plain_char_def)
qed

lemma sample_live_reachable:
  assumes "live_run stamp_clock ''ws://h'' ''r1'' sample_live es = Some s"
  shows "reachable (live_start ''ws://h'' ''r1'' stamp_clock []) (live_step stamp_clock ''ws://h'' ''r1'') s"
  unfolding reachable_def using sample_live_start live_run_run [OF assms] by blast

text \<open>
  C6: the message list of a room follows the room through lost and restored connections: on every run it
  shows no message twice and none that is not of the room; and once the connection is open with
  nothing under way and no gap request has failed or been cut off, it shows every message of the
  room, those posted while the connection was down included.
\<close>

theorem reconnect_catches_up:
  assumes "reachable (live_start base room clock older) (live_step clock base room) s"
  shows "distinct (map msg_id (allMessages (feed_cache s)))
    \<and> set (allMessages (feed_cache s)) \<subseteq> set (room_log s)
    \<and> (link_up s \<and> settled s \<and> \<not> lossy s \<longrightarrow> mset (allMessages (feed_cache s)) = mset (room_log s))"
  using live.reachable_inv [OF assms] shown_once settled_complete by blast

theorem reconnect_catches_up_witness:
  "\<exists>s. live_run stamp_clock ''ws://h'' ''r1'' sample_live (sample_outage @ [Serve sample_gap, Deliver 1,
        Merge [msg_at ''m2'' ''tt'' ''b'', msg_at ''m3'' ''ttt'' ''c'']]) = Some s
    \<and> mset (allMessages (feed_cache s)) = mset (room_log s) \<and> length (room_log s) = 3"
proof -
  obtain s where s: "live_run stamp_clock ''ws://h'' ''r1'' sample_live (sample_outage @ [Serve sample_gap, Deliver 1,
        Merge [msg_at ''m2'' ''tt'' ''b'', msg_at ''m3'' ''ttt'' ''c'']]) = Some s"
    and end_state: "link_up s" "settled s" "\<not> lossy s" "length (room_log s) = 3"
    by (simp add: live_run_defs del: stringify.simps event_to_json.simps)
  have "reachable (live_start ''ws://h'' ''r1'' stamp_clock []) (live_step stamp_clock ''ws://h'' ''r1'') s"
    by (rule sample_live_reachable [OF s])
  from reconnect_catches_up [OF this] s end_state show ?thesis by blast
qed



text \<open>
  A gap request that fails is not repeated, and the next message moves the cursor past the gap: the
  missed message is not shown, and no later gap request asks for it.
\<close>

theorem gap_failure_loses:
  "\<exists>s c. reachable (live_start ''ws://h'' ''r1'' stamp_clock []) (live_step stamp_clock ''ws://h'' ''r1'') s
    \<and> link_up s \<and> settled s \<and> msg_at ''m2'' ''tt'' ''b'' \<in> set (room_log s)
    \<and> msg_at ''m2'' ''tt'' ''b'' \<notin> set (allMessages (feed_cache s))
    \<and> newest_cursor s = Some c \<and> \<not> newer stamp_clock (msg_at ''m2'' ''tt'' ''b'') c"
proof -
  obtain s where s: "live_run stamp_clock ''ws://h'' ''r1'' sample_live
       (sample_outage @ [GapFailed sample_gap, Deliver 1]) = Some s"
    and here: "link_up s" "settled s" "msg_at ''m2'' ''tt'' ''b'' \<in> set (room_log s)"
      "msg_at ''m2'' ''tt'' ''b'' \<notin> set (allMessages (feed_cache s))"
      "newest_cursor s = Some (cursor_of (msg_at ''m3'' ''ttt'' ''c''))"
    by (simp add: live_run_defs del: stringify.simps event_to_json.simps)
  moreover have "\<not> newer stamp_clock (msg_at ''m2'' ''tt'' ''b'') (cursor_of (msg_at ''m3'' ''ttt'' ''c''))"
    by (simp add: newer_def stamp_clock_def msg_at_def cursor_of_def)
  ultimately show ?thesis using sample_live_reachable [OF s] by blast
qed

text \<open>
  A gap of more than a page is filled in part only: one request is sent, and of more than fifty missed
  messages at least one is not in its answer.
\<close>

theorem gap_page_cut:
  assumes "distinct rows" and "page_limit < length (filter (\<lambda>m. newer clock m c) rows)"
  shows "\<exists>m \<in> set rows. newer clock m c \<and> m \<notin> set (listAfter clock rows c)"
proof -
  let ?missed = "filter (\<lambda>m. newer clock m c) rows"
  have "?missed ! page_limit \<notin> set (take page_limit ?missed)"
    using assms by (auto simp: in_set_conv_nth nth_eq_iff_index_eq)
  then show ?thesis using nth_mem [OF assms(2)] by (auto simp: listAfter_def)
qed

text \<open>
  An optimistic message becomes the cursor with the time of the browser's clock: as long as it is at
  the head, a gap request skips every message the server has stamped earlier, whether shown or not.
\<close>

theorem optimistic_cursor_skips:
  assumes "clock (msg_created_at m) < clock (msg_created_at o')"
  shows "trackNewest (onMutate o' old) c = Some (cursor_of o')
    \<and> m \<notin> set (listAfter clock rows (cursor_of o'))"
proof
  show "trackNewest (onMutate o' old) c = Some (cursor_of o')"
    by (cases rule: first_data_cases [of old]) (simp_all add: onMutate_def trackNewest_def allMessages_with)
  show "m \<notin> set (listAfter clock rows (cursor_of o'))"
    using assms by (auto simp: listAfter_def newer_def cursor_of_def dest!: in_set_takeD)
qed

text \<open>
  In a room without messages nothing is fetched on reconnection, so the first messages, posted while the
  connection was down, are not shown until the list is loaded again.
\<close>

theorem empty_room_no_gap:
  assumes "first_msgs shown = []"
  shows "fetches (snd (onStatusChange connected h c shown)) = []"
  using assms by (auto simp: fetches_status gap_cursor_def first_msgs_def split: option.splits)

end
