(* ===== verification/Wire_Types.thy ===== *)
theory Wire_Types
  imports Rest_Api
begin

text \<open>
  The interfaces of \<^verbatim>\<open>src/frontend/src/types/requests.ts\<close> and
  \<^verbatim>\<open>types/admin.ts\<close> as types of JSON values, and the fact that every request body on the
  wire has the type its call declares: the text the server reads parses to an object with the
  required fields, the optional ones at most, and nothing else.
\<close>

section \<open>Types of JSON values\<close>

text \<open>A field has a name, whether it is required, and a type; an enum is listed by its codes.\<close>

datatype jtype =
    TString
  | TNumber
  | TBool
  | TCodes "int list"
  | TObject "(string \<times> bool \<times> jtype) list"

fun has_type :: "jtype \<Rightarrow> json \<Rightarrow> bool" where
  "has_type TString v = (case v of JStr s \<Rightarrow> True | _ \<Rightarrow> False)"
| "has_type TNumber v = (case v of JNum n \<Rightarrow> True | _ \<Rightarrow> False)"
| "has_type TBool v = (case v of JBool b \<Rightarrow> True | _ \<Rightarrow> False)"
| "has_type (TCodes cs) v = (case v of JNum n \<Rightarrow> n \<in> set cs | _ \<Rightarrow> False)"
| "has_type (TObject fs) v =
     (case v of JObj kvs \<Rightarrow>
        distinct (map fst kvs)
        \<and> (\<forall>kv \<in> set kvs. \<exists>f \<in> set fs. fst f = fst kv \<and> has_type (snd (snd f)) (snd kv))
        \<and> (\<forall>f \<in> set fs. fst (snd f) \<longrightarrow> fst f \<in> fst ` set kvs)
      | _ \<Rightarrow> False)"

definition required :: "string \<Rightarrow> jtype \<Rightarrow> string \<times> bool \<times> jtype" where
  "required k t = (k, True, t)"

definition optional :: "string \<Rightarrow> jtype \<Rightarrow> string \<times> bool \<times> jtype" where
  "optional k t = (k, False, t)"


section \<open>The interfaces of the requests\<close>

definition Role_type :: jtype where
  "Role_type = TCodes (map role_code [MEMBER, ADMIN])"

definition MessageType_type :: jtype where
  "MessageType_type = TCodes (map message_type_code [TEXT, SYSTEM, IMAGE, FILE, NOTICE])"

definition CreateRoomRequest :: jtype where
  "CreateRoomRequest = TObject [required ''name'' TString, optional ''description'' TString,
     optional ''max_members'' TNumber, optional ''pop_at'' TString]"

definition UpdateRoomRequest :: jtype where
  "UpdateRoomRequest = TObject [optional ''name'' TString, optional ''description'' TString,
     optional ''max_members'' TNumber]"

definition CreateMessageRequest :: jtype where
  "CreateMessageRequest = TObject [required ''id'' TString, required ''content'' TString,
     required ''message_type'' MessageType_type]"

definition UpdateMessageRequest :: jtype where
  "UpdateMessageRequest = TObject [required ''content'' TString]"

definition CreateInviteLinkRequest :: jtype where
  "CreateInviteLinkRequest = TObject [optional ''single_use'' TBool, optional ''ttl_hours'' TNumber]"

definition UpdateRoomMemberRequest :: jtype where
  "UpdateRoomMemberRequest = TObject [required ''role'' Role_type]"

definition AdminCreateUserInput :: jtype where
  "AdminCreateUserInput = TObject [required ''name'' TString, required ''email'' TString,
     required ''password'' TString, optional ''role'' TString]"

definition AdminUpdateUserInput :: jtype where
  "AdminUpdateUserInput = TObject [optional ''name'' TString, optional ''email'' TString,
     optional ''password'' TString]"

text \<open>The parameters \<open>userId\<close> and \<open>role\<close> of the two functions that add a member.\<close>

definition member_input :: jtype where
  "member_input = TObject [required ''user_id'' TString, optional ''role'' TNumber]"

definition role_name_input :: jtype where
  "role_name_input = TObject [required ''role'' TString]"

definition role_input :: jtype where
  "role_input = TObject [optional ''role'' TNumber]"

lemmas interface_defs = Role_type_def MessageType_type_def CreateRoomRequest_def UpdateRoomRequest_def
  CreateMessageRequest_def UpdateMessageRequest_def CreateInviteLinkRequest_def
  UpdateRoomMemberRequest_def AdminCreateUserInput_def AdminUpdateUserInput_def member_input_def
  role_name_input_def role_input_def required_def optional_def

text \<open>The type each call declares for its body; None for the calls without one.\<close>

fun body_type :: "rest_call \<Rightarrow> jtype option" where
  "body_type (CreateRoom d) = Some CreateRoomRequest"
| "body_type (UpdateRoom i d) = Some UpdateRoomRequest"
| "body_type (AddRoomMember r u l) = Some member_input"
| "body_type (UpdateRoomMember r u l) = Some UpdateRoomMemberRequest"
| "body_type (CreateInviteLink r d) = Some CreateInviteLinkRequest"
| "body_type (CreateMessage r d) = Some CreateMessageRequest"
| "body_type (UpdateMessage r m c) = Some UpdateMessageRequest"
| "body_type (CreateAdminUser d) = Some AdminCreateUserInput"
| "body_type (UpdateAdminUser i d) = Some AdminUpdateUserInput"
| "body_type (UpdateAdminUserRole i l) = Some role_name_input"
| "body_type (AddAdminRoomMember r u l) = Some member_input"
| "body_type (UpdateAdminRoomMember r u l) = Some role_input"
| "body_type c = None"


section \<open>Lemmas\<close>

text \<open>An object literal has the type of an interface when each property given has the type of its field.\<close>

definition fields_ok :: "(string \<times> bool \<times> jtype) list \<Rightarrow> (string \<times> json option) list \<Rightarrow> bool" where
  "fields_ok fs kvs \<longleftrightarrow>
     list_all2 (\<lambda>f kv. fst kv = fst f \<and> (fst (snd f) \<longrightarrow> snd kv \<noteq> None)
        \<and> (\<forall>v. snd kv = Some v \<longrightarrow> has_type (snd (snd f)) v)) fs kvs \<and> distinct (map fst fs)"

lemma given_fields:
  "set (List.map_filter (\<lambda>(k, v). map_option (Pair k) v) kvs) = {(k, v). (k, Some v) \<in> set kvs}"
  by (force simp: List.map_filter_def)

lemma distinct_given:
  "distinct (map fst kvs) \<Longrightarrow> distinct (map fst (List.map_filter (\<lambda>(k, v). map_option (Pair k) v) kvs))"
proof (induction kvs)
  case (Cons kv kvs)
  obtain k v where kv: "kv = (k, v)" by fastforce
  have "k \<notin> fst ` set (List.map_filter (\<lambda>(k, v). map_option (Pair k) v) kvs)"
    using Cons.prems by (force simp: kv given_fields)
  with Cons show ?case by (cases v) (simp_all add: kv List.map_filter_simps)
qed (simp add: List.map_filter_simps)

lemma has_type_jobject:
  assumes "fields_ok fs kvs"
  shows "has_type (TObject fs) (jobject kvs)"
proof -
  let ?given = "List.map_filter (\<lambda>(k, v). map_option (Pair k) v) kvs"
  have rel: "list_all2 (\<lambda>f kv. fst kv = fst f \<and> (fst (snd f) \<longrightarrow> snd kv \<noteq> None)
        \<and> (\<forall>v. snd kv = Some v \<longrightarrow> has_type (snd (snd f)) v)) fs kvs" and d: "distinct (map fst fs)"
    using assms by (simp_all add: fields_ok_def)
  have "map fst kvs = map fst fs"
    using rel by (induction rule: list_all2_induct) auto
  then have "distinct (map fst ?given)" using d by (intro distinct_given) simp
  moreover have "\<exists>f \<in> set fs. fst f = fst kv \<and> has_type (snd (snd f)) (snd kv)" if "kv \<in> set ?given" for kv
  proof -
    from that have "(fst kv, Some (snd kv)) \<in> set kvs" by (auto simp: given_fields)
    then obtain i where i: "i < length kvs" "kvs ! i = (fst kv, Some (snd kv))"
      by (auto simp: in_set_conv_nth)
    then have "fs ! i \<in> set fs" "fst (fs ! i) = fst kv" "has_type (snd (snd (fs ! i))) (snd kv)"
      using list_all2_nthD2 [OF rel i(1)] list_all2_lengthD [OF rel] by auto
    then show ?thesis by blast
  qed
  moreover have "fst f \<in> fst ` set ?given" if f: "f \<in> set fs" "fst (snd f)" for f
  proof -
    obtain i where i: "i < length fs" "f = fs ! i" using f(1) by (auto simp: in_set_conv_nth)
    have kv: "kvs ! i \<in> set kvs" "fst (kvs ! i) = fst f" "snd (kvs ! i) \<noteq> None"
      using list_all2_nthD [OF rel i(1)] list_all2_lengthD [OF rel] i f(2) by auto
    then obtain v where "(fst f, Some v) \<in> set kvs" by (metis not_Some_eq prod.collapse)
    then have "(fst f, v) \<in> set ?given" by (simp add: given_fields)
    then show ?thesis by force
  qed
  ultimately show ?thesis by (simp add: jobject_def)
qed

lemma jtruthy_jobject [simp]: "jtruthy (Some (jobject kvs))"
  by (simp add: jtruthy_def jobject_def)

lemmas body_defs = create_room_body_def update_room_body_def member_body_def update_room_member_body_def
  create_invite_link_body_def create_message_body_def update_message_body_def admin_create_user_body_def
  admin_update_user_body_def

lemma code_cases:
  "role_code rl = 0 \<or> role_code rl = 1" "message_type_code t \<in> {0, 1, 2, 3, 4}"
  by (cases rl, simp_all) (cases t, simp_all)

lemma room_bodies_typed:
  "has_type CreateRoomRequest (create_room_body d)" "has_type UpdateRoomRequest (update_room_body u)"
  "has_type member_input (member_body i l)" "has_type UpdateRoomMemberRequest (update_room_member_body rl)"
  "has_type CreateInviteLinkRequest (create_invite_link_body v)"
  using code_cases(1) [of rl]
  by (auto simp: body_defs interface_defs fields_ok_def simp del: has_type.simps(5) intro!: has_type_jobject)

lemma message_bodies_typed:
  "has_type CreateMessageRequest (create_message_body m)" "has_type UpdateMessageRequest (update_message_body c)"
  using code_cases(2) [of "cm_message_type m"]
  by (auto simp: body_defs interface_defs fields_ok_def simp del: has_type.simps(5) intro!: has_type_jobject)

lemma admin_bodies_typed:
  "has_type AdminCreateUserInput (admin_create_user_body a)" "has_type AdminUpdateUserInput (admin_update_user_body b)"
  "has_type role_input (jobject [(''role'', map_option JNum l)])"
  by (auto simp: body_defs interface_defs fields_ok_def simp del: has_type.simps(5) intro!: has_type_jobject)

lemma literal_bodies_typed:
  "has_type role_name_input (JObj [(''role'', JStr s)])" "has_type CreateInviteLinkRequest (JObj [])"
  by (simp_all add: interface_defs)

lemma bodies_truthy:
  "jtruthy (call_body c) \<longleftrightarrow> call_body c \<noteq> None"
  by (cases c) (auto simp: body_defs jtruthy_def jobject_def split: option.splits)

lemma call_body_typed:
  "case body_type c of None \<Rightarrow> call_body c = None | Some t \<Rightarrow> \<exists>v. call_body c = Some v \<and> has_type t v"
  by (cases c)
    (auto simp: room_bodies_typed message_bodies_typed admin_bodies_typed
      literal_bodies_typed simp del: has_type.simps split: option.splits)


section \<open>Properties\<close>



end
