(* ===== verification/Widgets.thy ===== *)
theory Widgets
  imports Prelude
begin

text \<open>
  The modal dialog of the client, \<^verbatim>\<open>src/frontend/src/components/ui/dialog.tsx\<close>: what a mounted
  dialog does to the document it is in (the listener for keys and the scrolling of the body) and when
  it asks its owner to close it. The document is shared by all dialogs of a page, which is where they
  interact. The rest of the file, and the other controls of \<^verbatim>\<open>components/ui\<close>, are HTML elements with
  a style.
\<close>

section \<open>Dialogs on a document\<close>

text \<open>
  \<open>keydown\<close> are the dialogs whose listener is registered, \<open>overflow\<close> is the style of the body, the empty
  text when it is not set.
\<close>

record document =
  keydown :: "nat list"
  overflow :: string

text \<open>
  \<open>asked\<close> are the calls of \<open>onOpenChange\<close>, with the dialog they are for. \<open>overlapped\<close> is history:
  whether a dialog has been opened while another one was open.
\<close>

record dialogs =
  mounted :: "nat list"
  doc :: document
  asked :: "(nat \<times> bool) list"
  overlapped :: bool

text \<open>The effect of a mounted dialog and its cleanup.\<close>

definition dialog_effect :: "nat \<Rightarrow> document \<Rightarrow> document" where
  "dialog_effect i d = d\<lparr>keydown := keydown d @ [i], overflow := ''hidden''\<rparr>"

definition dialog_cleanup :: "nat \<Rightarrow> document \<Rightarrow> document" where
  "dialog_cleanup i d = d\<lparr>keydown := removeAll i (keydown d), overflow := ''''\<rparr>"

text \<open>\<open>handleKeyDown\<close> of one dialog, and the click handler of its overlay.\<close>

definition handleKeyDown :: "string \<Rightarrow> nat \<Rightarrow> (nat \<times> bool) list" where
  "handleKeyDown key i = (if key = ''Escape'' then [(i, False)] else [])"

definition overlayClick :: "bool \<Rightarrow> nat \<Rightarrow> (nat \<times> bool) list" where
  "overlayClick on_overlay i = (if on_overlay then [(i, False)] else [])"

text \<open>
  \<open>Shown\<close> and \<open>Hidden\<close> are renders of \<open>Dialog\<close> with \<open>open\<close> set and cleared; \<open>Rerendered\<close> is a render
  with another \<open>onOpenChange\<close>, after which the effect runs again. A key goes to the listeners in
  the order they were added; the flag of a click says whether the overlay itself was hit.
\<close>

datatype dialog_event =
    Shown nat
  | Hidden nat
  | Rerendered nat
  | KeyPressed string
  | OverlayClicked nat bool

inductive dialog_step :: "dialogs \<Rightarrow> dialog_event \<Rightarrow> dialogs \<Rightarrow> bool" where
  dialog_shown: "i \<notin> set (mounted s) \<Longrightarrow>
    dialog_step s (Shown i)
      (s\<lparr>mounted := mounted s @ [i], doc := dialog_effect i (doc s),
         overlapped := overlapped s \<or> mounted s \<noteq> []\<rparr>)"
| dialog_hidden: "i \<in> set (mounted s) \<Longrightarrow>
    dialog_step s (Hidden i) (s\<lparr>mounted := removeAll i (mounted s), doc := dialog_cleanup i (doc s)\<rparr>)"
| dialog_rerendered: "i \<in> set (mounted s) \<Longrightarrow>
    dialog_step s (Rerendered i) (s\<lparr>doc := dialog_effect i (dialog_cleanup i (doc s))\<rparr>)"
| dialog_key: "dialog_step s (KeyPressed k)
    (s\<lparr>asked := asked s @ concat (map (handleKeyDown k) (keydown (doc s)))\<rparr>)"
| dialog_click: "i \<in> set (mounted s) \<Longrightarrow>
    dialog_step s (OverlayClicked i hit) (s\<lparr>asked := asked s @ overlayClick hit i\<rparr>)"

inductive_cases dialog_stepE: "dialog_step s e t"

definition dialogs_init :: "dialogs \<Rightarrow> bool" where
  "dialogs_init s \<longleftrightarrow> s = \<lparr>mounted = [], doc = \<lparr>keydown = [], overflow = ''''\<rparr>, asked = [], overlapped = False\<rparr>"

definition dialogs_inv :: "dialogs \<Rightarrow> bool" where
  "dialogs_inv s \<longleftrightarrow>
     distinct (mounted s) \<and> distinct (keydown (doc s)) \<and> set (keydown (doc s)) = set (mounted s)
     \<and> (mounted s = [] \<longrightarrow> overflow (doc s) = '''')
     \<and> (\<not> overlapped s \<longrightarrow> length (mounted s) \<le> 1 \<and> (mounted s \<noteq> [] \<longrightarrow> overflow (doc s) = ''hidden''))"

lemma dialogs_inv_step:
  assumes "dialogs_inv s" and "dialog_step s e t"
  shows "dialogs_inv t"
  using assms(2)
proof (cases rule: dialog_step.cases)
  case (dialog_hidden i)
  have "removeAll i (mounted s) = []" if "\<not> overlapped s"
    using that assms(1) dialog_hidden(3) by (cases "mounted s") (auto simp: dialogs_inv_def)
  with assms(1) dialog_hidden show ?thesis
    by (auto simp: dialogs_inv_def dialog_cleanup_def distinct_removeAll)
qed (use assms(1) in \<open>auto simp: dialogs_inv_def dialog_effect_def dialog_cleanup_def distinct_removeAll\<close>)

interpretation dialogs: invariant_machine dialogs_init dialog_step dialogs_inv
  by unfold_locales (simp add: dialogs_init_def dialogs_inv_def, rule dialogs_inv_step)

lemma escape_asks: "concat (map (handleKeyDown k) ds) = (if k = ''Escape'' then map (\<lambda>i. (i, False)) ds else [])"
  by (induction ds) (auto simp: handleKeyDown_def)


section \<open>Properties\<close>

text \<open>
  C32: dialogs clean up after themselves. On every run exactly the open dialogs listen for keys, each once,
  however often they are rendered again; when the last one is closed no listener is left and the page
  scrolls again; as long as dialogs are opened one at a time, the page scrolls exactly when none is
  open; escape asks every open dialog to close, each once, and other keys and clicks inside a
  dialog ask none.
\<close>

theorem dialog_lifecycle:
  assumes "reachable dialogs_init dialog_step s"
  shows "set (keydown (doc s)) = set (mounted s) \<and> distinct (keydown (doc s))
    \<and> (mounted s = [] \<longrightarrow> keydown (doc s) = [] \<and> overflow (doc s) = '''')
    \<and> (\<not> overlapped s \<longrightarrow> (overflow (doc s) = ''hidden'') = (mounted s \<noteq> []))
    \<and> (\<forall>k t. dialog_step s (KeyPressed k) t \<longrightarrow> mounted t = mounted s \<and>
         (\<exists>as. asked t = asked s @ as \<and> distinct as
            \<and> set as = (if k = ''Escape'' then (\<lambda>i. (i, False)) ` set (mounted s) else {})))
    \<and> (\<forall>i t. dialog_step s (OverlayClicked i False) t \<longrightarrow> t = s)"
proof (intro conjI allI impI)
  have inv: "dialogs_inv s" by (rule dialogs.reachable_inv [OF assms])
  then show "set (keydown (doc s)) = set (mounted s)" "distinct (keydown (doc s))"
    by (simp_all add: dialogs_inv_def)
  show "mounted s = [] \<Longrightarrow> keydown (doc s) = []" "mounted s = [] \<Longrightarrow> overflow (doc s) = ''''"
    using inv by (simp_all add: dialogs_inv_def)
  show "\<not> overlapped s \<Longrightarrow> (overflow (doc s) = ''hidden'') = (mounted s \<noteq> [])"
    using inv by (auto simp: dialogs_inv_def)
  fix k t assume t: "dialog_step s (KeyPressed k) t"
  then show "mounted t = mounted s" by (auto elim: dialog_stepE)
  have "asked t = asked s @ (if k = ''Escape'' then map (\<lambda>i. (i, False)) (keydown (doc s)) else [])"
    using t by (auto elim!: dialog_stepE simp: escape_asks)
  then show "\<exists>as. asked t = asked s @ as \<and> distinct as
      \<and> set as = (if k = ''Escape'' then (\<lambda>i. (i, False)) ` set (mounted s) else {})"
    using inv by - (intro exI conjI, assumption, auto simp: dialogs_inv_def distinct_map inj_on_def)
next
  fix i t assume "dialog_step s (OverlayClicked i False) t"
  then show "t = s" by (auto elim: dialog_stepE simp: overlayClick_def)
qed

definition no_dialogs :: dialogs where
  "no_dialogs = \<lparr>mounted = [], doc = \<lparr>keydown = [], overflow = ''''\<rparr>, asked = [], overlapped = False\<rparr>"

theorem dialog_lifecycle_witness:
  "\<exists>s. run dialog_step no_dialogs [Shown 1, Rerendered 1, KeyPressed ''Escape''] s
    \<and> set (keydown (doc s)) = {1} \<and> asked s = [(1, False)] \<and> overflow (doc s) = ''hidden''"
proof -
  let ?s = "\<lparr>mounted = [1], doc = \<lparr>keydown = [1], overflow = ''hidden''\<rparr>, asked = [(1, False)], overlapped = False\<rparr>"
  let ?a = "\<lparr>mounted = [1], doc = \<lparr>keydown = [1], overflow = ''hidden''\<rparr>, asked = [], overlapped = False\<rparr>"
  have "dialog_step no_dialogs (Shown 1) ?a"
    using dialog_shown [of 1 no_dialogs] by (simp add: no_dialogs_def dialog_effect_def)
  moreover have "dialog_step ?a (Rerendered 1) ?a"
    using dialog_rerendered [of 1 ?a] by (simp add: dialog_effect_def dialog_cleanup_def)
  moreover have "dialog_step ?a (KeyPressed ''Escape'') ?s"
    using dialog_key [of ?a "''Escape''"] by (simp add: handleKeyDown_def)
  ultimately have r: "run dialog_step no_dialogs [Shown 1, Rerendered 1, KeyPressed ''Escape''] ?s"
    by (auto simp: run_Cons_iff)
  have "reachable dialogs_init dialog_step ?s"
    by (rule reachableI [OF _ r]) (simp add: dialogs_init_def no_dialogs_def)
  from dialog_lifecycle [OF this] r show ?thesis by (intro exI [of _ ?s]) simp
qed

text \<open>
  Two open dialogs do not share the page: closing either of them lets it scroll while the other one is
  still open, and one press of escape closes both.
\<close>

theorem overlapping_dialogs:
  "\<exists>s. run dialog_step no_dialogs [Shown 1, Shown 2, KeyPressed ''Escape'', Hidden 2] s
    \<and> mounted s = [1] \<and> overflow (doc s) = '''' \<and> asked s = [(1, False), (2, False)]"
proof -
  let ?a = "\<lparr>mounted = [1], doc = \<lparr>keydown = [1], overflow = ''hidden''\<rparr>, asked = [], overlapped = False\<rparr>"
  let ?b = "\<lparr>mounted = [1, 2], doc = \<lparr>keydown = [1, 2], overflow = ''hidden''\<rparr>, asked = [], overlapped = True\<rparr>"
  let ?c = "?b\<lparr>asked := [(1, False), (2, False)]\<rparr>"
  let ?d = "?c\<lparr>mounted := [1], doc := \<lparr>keydown = [1], overflow = ''''\<rparr>\<rparr>"
  have "dialog_step no_dialogs (Shown 1) ?a"
    using dialog_shown [of 1 no_dialogs] by (simp add: no_dialogs_def dialog_effect_def)
  moreover have "dialog_step ?a (Shown 2) ?b" using dialog_shown [of 2 ?a] by (simp add: dialog_effect_def)
  moreover have "dialog_step ?b (KeyPressed ''Escape'') ?c"
    using dialog_key [of ?b "''Escape''"] by (simp add: handleKeyDown_def)
  moreover have "dialog_step ?c (Hidden 2) ?d" using dialog_hidden [of 2 ?c] by (simp add: dialog_cleanup_def)
  ultimately have "run dialog_step no_dialogs [Shown 1, Shown 2, KeyPressed ''Escape'', Hidden 2] ?d"
    by (auto simp: run_Cons_iff)
  then show ?thesis by (intro exI [of _ ?d]) simp
qed

end
