(* ===== verification/Ui_Base.thy ===== *)
theory Ui_Base
  imports Query_Hooks Auth_Session
begin

text \<open>
  What the pages and dialogs of the client share. A component is a record of its React state with a
  function per handler; what it renders is a list of nodes that keeps the texts and the controls and
  leaves the styling out. A control carries the event it raises, so that what a user can do with a
  page is a set read off from what it renders.
\<close>

named_theorems page_defs \<open>definitions of the page actions\<close>


section \<open>Rendered nodes\<close>

datatype 'e node =
    Txt string
  | Act string bool 'e
  | Fld string bool string "string \<Rightarrow> 'e"
  | Keys bool "string \<Rightarrow> bool \<Rightarrow> 'e"
  | Sel string bool string "string list" "string \<Rightarrow> 'e"
  | Lnk string string
  | Box "'e node list"

text \<open>
  \<open>Act\<close> is a button (label, enabled), \<open>Fld\<close> an input with its value, \<open>Keys\<close> the key handler of an
  input (the flag is the shift key), \<open>Sel\<close> a select with its options, \<open>Lnk\<close> a link to a route.
  The events a user can raise are those of the enabled controls.
\<close>

fun offers_node :: "'e node \<Rightarrow> 'e set" and offers :: "'e node list \<Rightarrow> 'e set" where
  "offers_node (Txt s) = {}"
| "offers_node (Act l en e) = (if en then {e} else {})"
| "offers_node (Fld l en v f) = (if en then range f else {})"
| "offers_node (Keys en f) = (if en then {f k sh | k sh. True} else {})"
| "offers_node (Sel l en v os f) = (if en then f ` set os else {})"
| "offers_node (Lnk l r) = {}"
| "offers_node (Box ns) = offers ns"
| "offers [] = {}"
| "offers (n # ns) = offers_node n \<union> offers ns"

fun shown_node :: "'e node \<Rightarrow> string list" and shown :: "'e node list \<Rightarrow> string list" where
  "shown_node (Txt s) = [s]"
| "shown_node (Act l en e) = [l]"
| "shown_node (Fld l en v f) = [l, v]"
| "shown_node (Keys en f) = []"
| "shown_node (Sel l en v os f) = [l, v]"
| "shown_node (Lnk l r) = [l]"
| "shown_node (Box ns) = shown ns"
| "shown [] = []"
| "shown (n # ns) = shown_node n @ shown ns"

fun links_node :: "'e node \<Rightarrow> string list" and links :: "'e node list \<Rightarrow> string list" where
  "links_node (Lnk l r) = [r]"
| "links_node (Box ns) = links ns"
| "links_node _ = []"
| "links [] = []"
| "links (n # ns) = links_node n @ links ns"

text \<open>\<open>cond && node\<close> in JSX.\<close>

definition cond_nodes :: "bool \<Rightarrow> 'e node list \<Rightarrow> 'e node list" where
  "cond_nodes c ns = (if c then ns else [])"

text \<open>\<open>value && node\<close> for a string: it shows when the string is truthy.\<close>

definition some_nodes :: "string option \<Rightarrow> (string \<Rightarrow> 'e node list) \<Rightarrow> 'e node list" where
  "some_nodes v f = (case v of None \<Rightarrow> [] | Some s \<Rightarrow> if truthy_str s then f s else [])"

definition str_of :: "string option \<Rightarrow> string" where
  "str_of v = (case v of None \<Rightarrow> [] | Some s \<Rightarrow> s)"

lemma offers_append [simp]: "offers (ms @ ns) = offers ms \<union> offers ns"
  by (induction ms) auto

lemma shown_append [simp]: "shown (ms @ ns) = shown ms @ shown ns"
  by (induction ms) auto

lemma links_append [simp]: "links (ms @ ns) = links ms @ links ns"
  by (induction ms) auto

lemma offers_cond_nodes [simp]: "offers (cond_nodes c ns) = (if c then offers ns else {})"
  by (simp add: cond_nodes_def)

lemma offers_some_nodes [simp]:
  "offers (some_nodes v f) = (case v of None \<Rightarrow> {} | Some s \<Rightarrow> if truthy_str s then offers (f s) else {})"
  by (simp add: some_nodes_def split: option.splits)

lemma shown_cond_nodes [simp]: "shown (cond_nodes c ns) = (if c then shown ns else [])"
  by (simp add: cond_nodes_def)

lemma shown_some_nodes [simp]:
  "shown (some_nodes v f) = (case v of None \<Rightarrow> [] | Some s \<Rightarrow> if truthy_str s then shown (f s) else [])"
  by (simp add: some_nodes_def split: option.splits)

lemma links_cond_nodes [simp]: "links (cond_nodes c ns) = (if c then links ns else [])"
  by (simp add: cond_nodes_def)

lemma offers_map: "offers (map g xs) = (\<Union>x \<in> set xs. offers_node (g x))"
  by (induction xs) auto

lemma offers_concat: "offers (concat nss) = (\<Union>ns \<in> set nss. offers ns)"
  by (induction nss) auto

lemma shown_map_Txt [simp]: "shown (map (\<lambda>x. Txt (f x)) xs) = map f xs"
  by (induction xs) auto

lemma shown_map: "shown (map g xs) = concat (map (\<lambda>x. shown_node (g x)) xs)"
  by (induction xs) auto

lemma offers_map_Txt [simp]: "offers (map Txt ts) = {}"
  by (induction ts) auto

text \<open>The nodes of a part in the page that holds it, with its events in the events of the page.\<close>

fun map_node :: "('a \<Rightarrow> 'b) \<Rightarrow> 'a node \<Rightarrow> 'b node" and map_nodes :: "('a \<Rightarrow> 'b) \<Rightarrow> 'a node list \<Rightarrow> 'b node list" where
  "map_node g (Txt s) = Txt s"
| "map_node g (Act l en e) = Act l en (g e)"
| "map_node g (Fld l en v f) = Fld l en v (g \<circ> f)"
| "map_node g (Keys en f) = Keys en (\<lambda>k sh. g (f k sh))"
| "map_node g (Sel l en v os f) = Sel l en v os (g \<circ> f)"
| "map_node g (Lnk l r) = Lnk l r"
| "map_node g (Box ns) = Box (map_nodes g ns)"
| "map_nodes g [] = []"
| "map_nodes g (n # ns) = map_node g n # map_nodes g ns"

lemma offers_map_nodes [simp]: "offers_node (map_node g n) = g ` offers_node n" "offers (map_nodes g ns) = g ` offers ns"
  by (induction g n and g ns rule: map_node_map_nodes.induct) (auto simp: image_image)


section \<open>Pages\<close>

text \<open>
  A page works on the session of the client; what it does to the router and to the query library and
  the toasts is logged in the order it happens.
\<close>

datatype nav = Push string | Replace string | Leave string

record 'w page_state =
  session :: "'w app"
  effects :: "ui_effect list"
  navs :: "nav list"

type_synonym ('w, 'z, 'a) page_act = "(('w, 'z) page_state_scheme, js_error, 'a) act"

definition on_session :: "('w, 'a) app_act \<Rightarrow> ('w, 'z, 'a) page_act" where
  "on_session m = (\<lambda>s. let (r, a) = m (session s) in (r, s\<lparr>session := a\<rparr>))"

definition emit :: "ui_effect list \<Rightarrow> ('w, 'z, unit) page_act" where
  [page_defs]: "emit es = modify (\<lambda>s. s\<lparr>effects := effects s @ es\<rparr>)"

definition navigate :: "nav \<Rightarrow> ('w, 'z, unit) page_act" where
  [page_defs]: "navigate n = modify (\<lambda>s. s\<lparr>navs := navs s @ [n]\<rparr>)"

text \<open>
  \<open>mutateAsync\<close> of a mutation: the call is made; on success the callback of the hook runs and the
  answer is returned, on failure its error callback runs and the error is thrown. \<open>mutate\<close> is the
  same without the error.
\<close>

definition mutateAsync :: "('v, 'w) mutation \<Rightarrow> 'v \<Rightarrow> ('w, 'z, json) page_act" where
  [page_defs]: "mutateAsync m v =
     catching
       (andThen (on_session (client_call (mutationFn m v))) (\<lambda>res.
          andThen (emit (onSuccess m)) (\<lambda>_. ret res)))
       (\<lambda>err. andThen (emit (onFailure m err)) (\<lambda>_. throw err))"

definition mutate :: "('v, 'w) mutation \<Rightarrow> 'v \<Rightarrow> ('w, 'z, unit) page_act" where
  [page_defs]: "mutate m v = catching (andThen (mutateAsync m v) (\<lambda>_. ret ())) (\<lambda>_. ret ())"

text \<open>A field of \<open>res.data?\<close> that is used as a string when it is truthy.\<close>

definition data_string :: "string \<Rightarrow> json \<Rightarrow> string option" where
  "data_string k res =
     (case jstring (Option.bind (jfield ''data'' res) (jfield k)) of
        Some t \<Rightarrow> if truthy_str t then Some t else None
      | None \<Rightarrow> None)"

lemma on_session_eq: "on_session m s = (fst (m (session s)), s\<lparr>session := snd (m (session s))\<rparr>)"
  by (simp add: on_session_def split: prod.splits)

text \<open>A mutation call in one equation; the request itself is that of the hook.\<close>

lemma mutateAsync_eq:
  assumes "mutationFn m v (net (session s)) = (r, c)"
  shows "mutateAsync m v s =
    (r, s\<lparr>session := (session s)\<lparr>net := c\<rparr>,
          effects := effects s @ (case r of Inr res \<Rightarrow> onSuccess m | Inl e \<Rightarrow> onFailure m e)\<rparr>)"
  using assms
  by (auto simp: mutateAsync_def act_simps emit_def on_session_eq client_call_eq split: sum.splits)

lemma mutate_eq:
  assumes "mutationFn m v (net (session s)) = (r, c)"
  shows "mutate m v s =
    (Inr (), s\<lparr>session := (session s)\<lparr>net := c\<rparr>,
          effects := effects s @ (case r of Inr res \<Rightarrow> onSuccess m | Inl e \<Rightarrow> onFailure m e)\<rparr>)"
  using mutateAsync_eq [OF assms]
  by (cases r) (auto simp: mutate_def act_simps)


text \<open>The same for a hook given by its three parts.\<close>

lemma mutateAsync_hook:
  assumes "m = \<lparr>mutationFn = f, onSuccess = es, onFailure = g\<rparr>" and "f v (net (session s)) = (r, c)"
  shows "mutateAsync m v s =
    (r, s\<lparr>session := (session s)\<lparr>net := c\<rparr>,
          effects := effects s @ (case r of Inr res \<Rightarrow> es | Inl e \<Rightarrow> g e)\<rparr>)"
proof -
  have "mutationFn m v (net (session s)) = (r, c)" using assms by simp
  from mutateAsync_eq [OF this] show ?thesis by (cases r) (simp_all add: assms(1))
qed


section \<open>Forms\<close>

text \<open>
  A schema returns the issues of a form: the path of the field, and the message the source gives;
  \<open>None\<close> is the message of the library. A form library runs the submit handler exactly when the
  schema finds no issue.
\<close>

type_synonym issue = "string \<times> string option"

definition z_min :: "string \<Rightarrow> nat \<Rightarrow> string \<Rightarrow> string \<Rightarrow> issue list" where
  "z_min field n note_text v = (if length v < n then [(field, Some note_text)] else [])"

definition z_max :: "string \<Rightarrow> nat \<Rightarrow> string \<Rightarrow> issue list" where
  "z_max field n v = (if n < length v then [(field, None)] else [])"

definition z_optional :: "(string \<Rightarrow> issue list) \<Rightarrow> string option \<Rightarrow> issue list" where
  "z_optional check v = (case v of None \<Rightarrow> [] | Some s \<Rightarrow> check s)"

definition z_email :: "(string \<Rightarrow> bool) \<Rightarrow> string \<Rightarrow> string \<Rightarrow> string \<Rightarrow> issue list" where
  "z_email is_email field note_text v = (if is_email v then [] else [(field, Some note_text)])"

definition handleSubmit :: "issue list \<Rightarrow> ('w, 'z, unit) page_act \<Rightarrow> ('w, 'z, unit) page_act" where
  [page_defs]: "handleSubmit issues onSubmit = (if issues = [] then onSubmit else ret ())"

lemmas z_defs = z_min_def z_max_def z_optional_def z_email_def


text \<open>A page on a session, for the examples.\<close>

definition page_on :: "'w app \<Rightarrow> 'w page_state" where
  "page_on a = \<lparr>session = a, effects = [], navs = []\<rparr>"

end
