(* ===== verification/Room_Dialogs.thy ===== *)
theory Room_Dialogs
  imports Ui_Base
begin

text \<open>
  The dialogs of the rooms, under \<^verbatim>\<open>src/frontend/src/features/room/components\<close>:
  \<open>create-room-dialog.tsx\<close>, \<open>invite-link-dialog.tsx\<close> and \<open>members-dialog.tsx\<close>. The dates of the
  platform are a parameter: parsing a local date, writing an ISO date, the same time of the next day.
\<close>

record dates =
  parse_date :: "string \<Rightarrow> int option"
  iso_date :: "int \<Rightarrow> string"
  next_day :: "int \<Rightarrow> int"


section \<open>create-room-dialog.tsx\<close>

record create_form =
  cf_name :: string
  cf_description :: "string option"
  cf_auto_pop :: bool
  cf_pop_at :: "string option"

definition pop_issues :: "dates \<Rightarrow> int \<Rightarrow> create_form \<Rightarrow> issue list" where
  "pop_issues dt now data =
     (if \<not> cf_auto_pop data then []
      else if \<not> truthy_ostr (cf_pop_at data) then [(''pop_at'', Some ''Auto-pop time is required'')]
      else case parse_date dt (the (cf_pop_at data)) of
             None \<Rightarrow> []
           | Some t \<Rightarrow> if t \<le> now then [(''pop_at'', Some ''Pop time must be in the future'')] else [])"

definition createRoomSchema :: "dates \<Rightarrow> int \<Rightarrow> create_form \<Rightarrow> issue list" where
  "createRoomSchema dt now data =
     z_min ''name'' 1 ''Room name is required'' (cf_name data) @ z_max ''name'' 100 (cf_name data)
     @ z_optional (z_max ''description'' 500) (cf_description data)
     @ pop_issues dt now data"

definition defaultPopAt :: "dates \<Rightarrow> int \<Rightarrow> string" where
  "defaultPopAt dt now = take 16 (iso_date dt (next_day dt now))"

definition handleToggleAutoPop :: "string \<Rightarrow> create_form \<Rightarrow> create_form" where
  "handleToggleAutoPop defaultAt f =
     (let nxt = \<not> cf_auto_pop f; f1 = f\<lparr>cf_auto_pop := nxt\<rparr>
      in if nxt \<and> \<not> truthy_ostr (cf_pop_at f1) then f1\<lparr>cf_pop_at := Some defaultAt\<rparr> else f1)"

text \<open>The value of the form after \<open>reset()\<close>.\<close>

definition blank_form :: create_form where
  "blank_form = \<lparr>cf_name = [], cf_description = None, cf_auto_pop = True, cf_pop_at = None\<rparr>"

record 'w create_dialog = "'w page_state" +
  cd_open :: bool
  cd_form :: create_form

text \<open>\<open>new Date(data.pop_at).toISOString()\<close>, which throws for an invalid date.\<close>

definition pop_at_value :: "dates \<Rightarrow> create_form \<Rightarrow> js_error + string option" where
  "pop_at_value dt data =
     (if cf_auto_pop data \<and> truthy_ostr (cf_pop_at data)
      then (case parse_date dt (the (cf_pop_at data)) of
              None \<Rightarrow> Inl (JsError ''Invalid time value'')
            | Some t \<Rightarrow> Inr (Some (iso_date dt t)))
      else Inr None)"

definition or_undefined :: "string option \<Rightarrow> string option" where
  "or_undefined v = (if truthy_ostr v then v else None)"

definition create_onSubmit :: "'w platform \<Rightarrow> dates \<Rightarrow> create_form \<Rightarrow> ('w create_dialog, js_error, unit) act" where
  [page_defs]: "create_onSubmit pl dt data =
     andThen (get_state (\<lambda>s. auth_user (session s))) (\<lambda>u.
     catching
       (case pop_at_value dt data of
          Inl err \<Rightarrow> throw err
        | Inr pop \<Rightarrow>
            andThen (mutateAsync (useCreateRoom pl u)
                \<lparr>cr_name = cf_name data, cr_description = or_undefined (cf_description data),
                 cr_max_members = None, cr_pop_at = pop\<rparr>) (\<lambda>res.
            andThen (case data_string ''id'' res of
                       Some i \<Rightarrow> navigate (Push (''/chat/'' @ i))
                     | None \<Rightarrow> ret ()) (\<lambda>_.
            andThen (modify (\<lambda>s. s\<lparr>cd_form := blank_form\<rparr>)) (\<lambda>_.
              modify (\<lambda>s. s\<lparr>cd_open := False\<rparr>)))))
       (\<lambda>err. emit [ToastFailure (''Failed to create room: '' @ getErrorMessage err)]))"

definition create_cancel :: "'w create_dialog \<Rightarrow> 'w create_dialog" where
  "create_cancel s = s\<lparr>cd_form := blank_form, cd_open := False\<rparr>"

datatype create_event =
    NameTyped string | DescriptionTyped string | AutoPopToggled | PopAtTyped string
  | CreateCancelled | CreateSubmitted

definition issue_nodes :: "string \<Rightarrow> issue list \<Rightarrow> 'e node list" where
  "issue_nodes field issues =
     (case filter (\<lambda>i. fst i = field) issues of [] \<Rightarrow> [] | i # is \<Rightarrow> [Txt (str_of (snd i))])"

definition create_view :: "issue list \<Rightarrow> bool \<Rightarrow> 'w create_dialog \<Rightarrow> create_event node list" where
  "create_view errors isSubmitting s =
     (if \<not> cd_open s then []
      else
        [Txt ''Create Room'', Txt ''Create a new chat room to start talking'', Act ''Close'' True CreateCancelled,
         Fld ''Room name'' True (cf_name (cd_form s)) NameTyped] @ issue_nodes ''name'' errors
        @ [Fld ''Description (optional)'' True (str_of (cf_description (cd_form s))) DescriptionTyped]
        @ issue_nodes ''description'' errors
        @ [Txt ''Auto Pop'', Act ''Toggle auto pop'' True AutoPopToggled]
        @ cond_nodes (cf_auto_pop (cd_form s))
            ([Fld ''Auto-pop time'' True (str_of (cf_pop_at (cd_form s))) PopAtTyped]
             @ issue_nodes ''pop_at'' errors @ [Txt ''Room becomes read-only after this time''])
        @ [Act ''Cancel'' True CreateCancelled, Act ''Create Room'' (\<not> isSubmitting) CreateSubmitted])"


section \<open>invite-link-dialog.tsx\<close>

definition TTL_OPTIONS :: "(string \<times> string) list" where
  "TTL_OPTIONS =
     [(''1'', ''1 hour''), (''6'', ''6 hours''), (''12'', ''12 hours''), (''24'', ''24 hours''),
      (''72'', ''3 days''), (''168'', ''7 days'')]"

text \<open>\<open>parseInt(s, 10)\<close> of a string without white space and sign in front.\<close>

definition parseInt :: "string \<Rightarrow> int option" where
  "parseInt s =
     (let ds = takeWhile is_digit s in if ds = [] then None else Some (int (read_nat ds)))"

text \<open>\<open>clipboard\<close> is what was last written to the clipboard.\<close>

record 'w invite_dialog = "'w page_state" +
  inviteUrl :: "string option"
  copied :: bool
  ttlHours :: string
  singleUse :: bool
  il_open :: bool
  clipboard :: "string option"

definition handleGenerate ::
    "'w platform \<Rightarrow> string \<Rightarrow> string \<Rightarrow> ('w invite_dialog, js_error, unit) act" where
  [page_defs]: "handleGenerate pl origin roomId =
     andThen (modify (\<lambda>s. s\<lparr>copied := False\<rparr>)) (\<lambda>_.
     andThen (get_state (\<lambda>s. \<lparr>ci_single_use = Some (singleUse s), ci_ttl_hours = parseInt (ttlHours s)\<rparr>)) (\<lambda>rq.
     catching
       (andThen (mutateAsync (useCreateInviteLink pl roomId) (Some rq)) (\<lambda>res.
          case data_string ''token'' res of
            Some t \<Rightarrow> modify (\<lambda>s. s\<lparr>inviteUrl := Some (origin @ ''/invite/'' @ t)\<rparr>)
          | None \<Rightarrow> ret ()))
       (\<lambda>_. ret ())))"

text \<open>Writing to the clipboard may be refused; then the promise of the handler rejects.\<close>

definition handleCopy :: "bool \<Rightarrow> ('w invite_dialog, js_error, unit) act" where
  [page_defs]: "handleCopy allowed =
     andThen (get_state inviteUrl) (\<lambda>url.
       if \<not> truthy_ostr url then ret ()
       else if \<not> allowed then throw (JsError ''NotAllowedError'')
       else andThen (modify (\<lambda>s. s\<lparr>clipboard := url\<rparr>)) (\<lambda>_. modify (\<lambda>s. s\<lparr>copied := True\<rparr>)))"

definition handleClose :: "'w invite_dialog \<Rightarrow> 'w invite_dialog" where
  "handleClose s = s\<lparr>inviteUrl := None, copied := False, il_open := False\<rparr>"

datatype invite_event =
    TtlChosen string | SingleUseToggled | GenerateClicked | CopyClicked | InviteClosed

definition invite_view :: "bool \<Rightarrow> 'w invite_dialog \<Rightarrow> invite_event node list" where
  "invite_view isPending s =
     (if \<not> il_open s then []
      else
        [Txt ''Invite Link'', Txt ''Generate a link to invite others to this room'', Act ''Close'' True InviteClosed]
        @ (if \<not> truthy_ostr (inviteUrl s)
           then [Sel ''Expiration'' True (ttlHours s) (map fst TTL_OPTIONS) TtlChosen,
                 Act ''Usage Limit'' True SingleUseToggled,
                 Txt (if singleUse s then ''Single use (one person)'' else ''Multiple uses''),
                 Act ''Generate Invite Link'' (\<not> isPending) GenerateClicked]
           else [Txt (str_of (inviteUrl s)), Act (if copied s then ''Check'' else ''Copy'') True CopyClicked,
                 Act ''Generate New Link'' (\<not> isPending) GenerateClicked]))"

text \<open>The events that set a field; the others are the handlers above.\<close>

definition choose_ttl :: "string \<Rightarrow> 'w invite_dialog \<Rightarrow> 'w invite_dialog" where
  "choose_ttl v s = s\<lparr>ttlHours := v\<rparr>"

definition toggle_single :: "'w invite_dialog \<Rightarrow> 'w invite_dialog" where
  "toggle_single s = s\<lparr>singleUse := \<not> singleUse s\<rparr>"


section \<open>members-dialog.tsx\<close>

definition member_label :: "room_member \<Rightarrow> string" where
  "member_label m = (if truthy_str (mem_user_name m) then mem_user_name m else ''Unknown'')"

datatype members_event = MembersClosed

definition members_view ::
    "bool \<Rightarrow> bool \<Rightarrow> js_error option \<Rightarrow> room_member list \<Rightarrow> members_event node list" where
  "members_view opened loading err members =
     (if \<not> opened then []
      else
        [Txt ''Members'', Act ''Close'' True MembersClosed]
        @ (if loading then [Txt ''skeleton'']
           else case err of
             Some e \<Rightarrow> [Txt ''Failed to load members'', Txt (getErrorMessage e)]
           | None \<Rightarrow>
               if members = [] then [Txt ''No members found'']
               else map (\<lambda>m. Box ([Txt (member_label m)] @ cond_nodes (mem_role m = ADMIN) [Txt ''Admin''])) members)
        @ cond_nodes (\<not> loading \<and> err = None \<and> 0 < length members)
            [Txt (show_nat (length members) @ (if length members = 1 then '' member'' else '' members''))])"


section \<open>Properties\<close>

lemma create_request:
  assumes "createRoom pl rq (net (session s)) = (r, c)"
  shows "mutateAsync (useCreateRoom pl u) rq s =
    (r, s\<lparr>session := (session s)\<lparr>net := c\<rparr>,
          effects := effects s @ (case r of Inr res \<Rightarrow> [Invalidate [KStr ''rooms'', uid u]] | Inl e \<Rightarrow> toast_error e)\<rparr>)"
  by (rule mutateAsync_hook [OF useCreateRoom_def assms])

text \<open>
  Submitting the form of a new room. The form is accepted exactly when the name has 1 to 100
  characters, the description at most 500 and an automatic pop has a time that is not past; then one
  request carries the name, the description unless it is empty, and the pop time in ISO form. On
  success the room list is refreshed, the new room is opened and the dialog closes with a blank form;
  on failure the dialog stays as it is, and the user sees the same error in two toasts.
\<close>

theorem create_room_submit:
  assumes "pop_at_value dt data = Inr pop"
    and "createRoom pl \<lparr>cr_name = cf_name data, cr_description = or_undefined (cf_description data),
           cr_max_members = None, cr_pop_at = pop\<rparr> (net (session s)) = (r, c)"
  shows "(createRoomSchema dt now data = [] \<longleftrightarrow>
            length (cf_name data) \<in> {1..100} \<and> length (str_of (cf_description data)) \<le> 500
            \<and> (cf_auto_pop data \<longrightarrow> (\<exists>p t. cf_pop_at data = Some p \<and> p \<noteq> [] \<and> parse_date dt p = Some t \<and> now < t)))
    \<and> (\<forall>t. pop = Some t \<longrightarrow> cf_auto_pop data)
    \<and> create_onSubmit pl dt data s = (Inr (),
        case r of
          Inr res \<Rightarrow>
            s\<lparr>session := (session s)\<lparr>net := c\<rparr>,
              effects := effects s @ [Invalidate [KStr ''rooms'', uid (auth_user (session s))]],
              navs := navs s @ (case data_string ''id'' res of Some i \<Rightarrow> [Push (''/chat/'' @ i)] | None \<Rightarrow> []),
              cd_form := blank_form, cd_open := False\<rparr>
        | Inl e \<Rightarrow>
            s\<lparr>session := (session s)\<lparr>net := c\<rparr>,
              effects := effects s @ [ToastFailure (getErrorMessage e),
                ToastFailure (''Failed to create room: '' @ getErrorMessage e)]\<rparr>)"
proof (intro conjI)
  show "createRoomSchema dt now data = [] \<longleftrightarrow>
            length (cf_name data) \<in> {1..100} \<and> length (str_of (cf_description data)) \<le> 500
            \<and> (cf_auto_pop data \<longrightarrow> (\<exists>p t. cf_pop_at data = Some p \<and> p \<noteq> [] \<and> parse_date dt p = Some t \<and> now < t))"
    using assms(1)
    by (auto simp: createRoomSchema_def z_defs pop_issues_def pop_at_value_def truthy_ostr_def truthy_str_def
        str_of_def Suc_le_eq not_less split: option.splits if_splits)
  show "\<forall>t. pop = Some t \<longrightarrow> cf_auto_pop data"
    using assms(1) by (auto simp: pop_at_value_def split: option.splits if_splits)
qed (use assms(1) in \<open>auto simp: create_onSubmit_def emit_def navigate_def act_simps create_request [OF assms(2)]
    toast_error_def split: sum.splits option.splits\<close>)

definition sample_dates :: dates where
  "sample_dates = \<lparr>parse_date = (\<lambda>p. if p = ''2026-01-02T00:00'' then Some 800 else None),
     iso_date = (\<lambda>t. ''2026-01-02T00:00:00.000Z''), next_day = (\<lambda>t. t + 1000)\<rparr>"

definition sample_form :: create_form where
  "sample_form = \<lparr>cf_name = ''books'', cf_description = Some [], cf_auto_pop = True,
     cf_pop_at = Some ''2026-01-02T00:00''\<rparr>"

definition sample_create_dialog :: "nat create_dialog" where
  "sample_create_dialog = \<lparr>session = fresh_app, effects = [], navs = [], cd_open = True, cd_form = sample_form\<rparr>"

theorem create_room_submit_witness:
  "createRoomSchema sample_dates 5 sample_form = []"
proof -
  have p: "pop_at_value sample_dates sample_form = Inr (Some ''2026-01-02T00:00:00.000Z'')"
    by (simp add: pop_at_value_def sample_form_def sample_dates_def truthy_ostr_def truthy_str_def)
  obtain r c where "createRoom sample_platform \<lparr>cr_name = cf_name sample_form,
      cr_description = or_undefined (cf_description sample_form), cr_max_members = None,
      cr_pop_at = Some ''2026-01-02T00:00:00.000Z''\<rparr> (net (session sample_create_dialog)) = (r, c)" by fastforce
  from create_room_submit [OF p this, of 5] show ?thesis
    by (simp add: sample_form_def sample_dates_def str_of_def)
qed

text \<open>
  The default time of the automatic pop is wrong by the time zone: it is the ISO text of the same
  time tomorrow, which is in universal time, and the form reads it as local time. Where the local time
  is ahead of universal time by \<open>ahead\<close>, the room would pop that much earlier than a day from now.
\<close>

theorem default_pop_shifted:
  assumes "next_day dt now = now + 86400000" and "defaultPopAt dt now \<noteq> []"
    and "parse_date dt (defaultPopAt dt now) = Some (next_day dt now div 60000 * 60000 - ahead)"
  shows "pop_at_value dt (handleToggleAutoPop (defaultPopAt dt now) (blank_form\<lparr>cf_auto_pop := False\<rparr>))
     = Inr (Some (iso_date dt ((now div 60000 * 60000) + (86400000 - ahead))))"
proof -
  have "(now + 1440 * 60000) div 60000 = 1440 + now div (60000 :: int)" by (rule div_mult_self1) simp
  then have "(now + 86400000) div 60000 * 60000 = now div 60000 * 60000 + (86400000 :: int)" by simp
  with assms show ?thesis
    by (simp add: handleToggleAutoPop_def blank_form_def pop_at_value_def truthy_ostr_def truthy_str_def
        Let_def algebra_simps)
qed

text \<open>Nine hours ahead of universal time: the default lies fifteen hours ahead, not a day.\<close>

definition seoul_dates :: dates where
  "seoul_dates = \<lparr>parse_date = (\<lambda>p. if p = ''1970-01-02T00:00'' then Some (86400000 - 32400000) else None),
     iso_date = (\<lambda>t. if t = 86400000 then ''1970-01-02T00:00:00.000Z'' else ''1970-01-01T15:00:00.000Z''),
     next_day = (\<lambda>t. t + 86400000)\<rparr>"

theorem default_pop_shifted_witness:
  "pop_at_value seoul_dates (handleToggleAutoPop (defaultPopAt seoul_dates 0) (blank_form\<lparr>cf_auto_pop := False\<rparr>))
   = Inr (Some ''1970-01-01T15:00:00.000Z'')"
  using default_pop_shifted [of seoul_dates 0 32400000] by (simp add: seoul_dates_def defaultPopAt_def)


text \<open>
  The dialog of invite links. From the choice it starts with, only lifetimes of its list can be
  chosen, so a request asks for 1, 6, 12, 24, 72 or 168 hours; a link that is generated replaces the
  one shown and is not marked as copied; a failure leaves the shown link and gives one toast; and what
  is copied is the link shown, marked as copied only when the clipboard took it.
\<close>

theorem invite_dialog_behaviour:
  assumes "ttlHours s \<in> fst ` set TTL_OPTIONS"
    and "createInviteLink pl roomId (Some \<lparr>ci_single_use = Some (singleUse s), ci_ttl_hours = parseInt (ttlHours s)\<rparr>)
           (net (session s)) = (r, c)"
  shows "(\<forall>v. TtlChosen v \<in> offers (invite_view pending s) \<longrightarrow> ttlHours (choose_ttl v s) \<in> fst ` set TTL_OPTIONS)
    \<and> parseInt (ttlHours s) \<in> Some ` {1, 6, 12, 24, 72, 168}
    \<and> handleGenerate pl origin roomId s = (Inr (),
        let s1 = s\<lparr>copied := False, session := (session s)\<lparr>net := c\<rparr>\<rparr>
        in case r of
             Inr res \<Rightarrow> (case data_string ''token'' res of
                           Some t \<Rightarrow> s1\<lparr>inviteUrl := Some (origin @ ''/invite/'' @ t)\<rparr> | None \<Rightarrow> s1)
           | Inl e \<Rightarrow> s1\<lparr>effects := effects s @ [ToastFailure (getErrorMessage e)]\<rparr>)
    \<and> (\<forall>t. handleCopy allowed s = (Inr (), t) \<and> copied t \<and> \<not> copied s \<longrightarrow> clipboard t = inviteUrl s \<and> inviteUrl t = inviteUrl s)
    \<and> inviteUrl (handleClose s) = None"
proof (intro conjI)
  show "\<forall>v. TtlChosen v \<in> offers (invite_view pending s) \<longrightarrow> ttlHours (choose_ttl v s) \<in> fst ` set TTL_OPTIONS"
    by (auto simp: invite_view_def choose_ttl_def TTL_OPTIONS_def split: if_splits)
  have "parseInt ''1'' = Some 1" "parseInt ''6'' = Some 6" "parseInt ''12'' = Some 12" "parseInt ''24'' = Some 24"
    "parseInt ''72'' = Some 72" "parseInt ''168'' = Some 168"
    by code_simp+
  with assms(1) show "parseInt (ttlHours s) \<in> Some ` {1, 6, 12, 24, 72, 168}"
    by (auto simp: TTL_OPTIONS_def)
  have m: "mutateAsync (useCreateInviteLink pl roomId)
      (Some \<lparr>ci_single_use = Some (singleUse s), ci_ttl_hours = parseInt (ttlHours s)\<rparr>) (s\<lparr>copied := False\<rparr>)
    = (r, (s\<lparr>copied := False\<rparr>)\<lparr>session := (session s)\<lparr>net := c\<rparr>,
          effects := effects s @ (case r of Inr res \<Rightarrow> [] | Inl e \<Rightarrow> toast_error e)\<rparr>)"
    using mutateAsync_hook [OF useCreateInviteLink_def, of pl roomId _ "s\<lparr>copied := False\<rparr>"] assms(2) by simp
  show "handleGenerate pl origin roomId s = (Inr (),
        let s1 = s\<lparr>copied := False, session := (session s)\<lparr>net := c\<rparr>\<rparr>
        in case r of
             Inr res \<Rightarrow> (case data_string ''token'' res of
                           Some t \<Rightarrow> s1\<lparr>inviteUrl := Some (origin @ ''/invite/'' @ t)\<rparr> | None \<Rightarrow> s1)
           | Inl e \<Rightarrow> s1\<lparr>effects := effects s @ [ToastFailure (getErrorMessage e)]\<rparr>)"
    by (auto simp: handleGenerate_def act_simps m toast_error_def Let_def split: sum.splits option.splits)
  show "\<forall>t. handleCopy allowed s = (Inr (), t) \<and> copied t \<and> \<not> copied s \<longrightarrow>
      clipboard t = inviteUrl s \<and> inviteUrl t = inviteUrl s"
    by (auto simp: handleCopy_def act_simps split: if_splits)
qed (simp add: handleClose_def)

definition sample_invite_dialog :: "nat invite_dialog" where
  "sample_invite_dialog = \<lparr>session = fresh_app, effects = [], navs = [], inviteUrl = None, copied = False,
     ttlHours = ''24'', singleUse = False, il_open = True, clipboard = None\<rparr>"

theorem invite_dialog_behaviour_witness:
  "parseInt (ttlHours sample_invite_dialog) \<in> Some ` {1, 6, 12, 24, 72, 168}"
proof -
  have t: "ttlHours sample_invite_dialog \<in> fst ` set TTL_OPTIONS"
    by (simp add: sample_invite_dialog_def TTL_OPTIONS_def)
  obtain r c where "createInviteLink sample_platform ''r1''
      (Some \<lparr>ci_single_use = Some (singleUse sample_invite_dialog), ci_ttl_hours = parseInt (ttlHours sample_invite_dialog)\<rparr>)
      (net (session sample_invite_dialog)) = (r, c)" by fastforce
  from invite_dialog_behaviour [OF t this, of False "''https://chat.test''" True] show ?thesis by blast
qed

text \<open>
  The list of members names every member, marks exactly the administrators, and counts them; while
  it loads or after a failure it shows no member.
\<close>

theorem members_dialog_lists:
  "shown (members_view True loading err members) =
     [''Members'', ''Close'']
     @ (if loading then [''skeleton'']
        else case err of
          Some e \<Rightarrow> [''Failed to load members'', getErrorMessage e]
        | None \<Rightarrow>
            if members = [] then [''No members found'']
            else concat (map (\<lambda>m. member_label m # (if mem_role m = ADMIN then [''Admin''] else [])) members)
              @ [show_nat (length members) @ (if length members = 1 then '' member'' else '' members'')])
   \<and> (\<forall>m. member_label m \<noteq> [])"
proof -
  have "shown (map (\<lambda>m. Box ([Txt (member_label m)] @ cond_nodes (mem_role m = ADMIN) [Txt ''Admin''])) members)
      = concat (map (\<lambda>m. member_label m # (if mem_role m = ADMIN then [''Admin''] else [])) members)"
    by (induction members) auto
  then show ?thesis by (auto simp: members_view_def member_label_def truthy_str_def split: option.splits)
qed

end
