(* ===== verification/Account_Pages.thy ===== *)
theory Account_Pages
  imports Room_Dialogs
begin

text \<open>
  The pages of an account, under \<^verbatim>\<open>src/frontend/src/app\<close>: \<open>login/page.tsx\<close>, \<open>register/page.tsx\<close>,
  \<open>oauth/callback/page.tsx\<close>, \<open>invite/[token]/page.tsx\<close>, \<open>(main)/profile/page.tsx\<close> and
  \<open>(main)/settings/page.tsx\<close>. They run the session operations and show their outcome. Whether a text
  is an e-mail address is the form library's test and a parameter.
\<close>

record 'w account_page = "'w page_state" +
  ac_error :: string
  ac_success :: string

type_synonym ('w, 'a) account_act = "('w account_page, js_error, 'a) act"

definition show_error :: "string \<Rightarrow> ('w, unit) account_act" where
  "show_error e = modify (\<lambda>s. s\<lparr>ac_error := e\<rparr>)"

definition show_success :: "string \<Rightarrow> ('w, unit) account_act" where
  "show_success e = modify (\<lambda>s. s\<lparr>ac_success := e\<rparr>)"

text \<open>The message of an \<open>ApiError\<close>, or the page's own for any other error.\<close>

fun api_message :: "string \<Rightarrow> js_error \<Rightarrow> string" where
  "api_message own (ApiError st code m data) = m"
| "api_message own err = own"

lemmas account_defs = show_error_def show_success_def


section \<open>Signing in and up\<close>

definition loginSchema :: "(string \<Rightarrow> bool) \<Rightarrow> login_request \<Rightarrow> issue list" where
  "loginSchema is_email data =
     z_email is_email ''email'' ''Invalid email address'' (login_email data)
     @ z_min ''password'' 1 ''Password is required'' (login_password data)"

definition login_onSubmit :: "'w platform \<Rightarrow> login_request \<Rightarrow> ('w, unit) account_act" where
  "login_onSubmit pl data =
     andThen (show_error []) (\<lambda>_.
     catching (on_session (login pl data))
       (\<lambda>err. show_error (api_message ''Invalid email or password'' err)))"

definition handleGoogleLogin :: "'w platform \<Rightarrow> ('w, unit) account_act" where
  "handleGoogleLogin pl =
     andThen (on_session (client_call (getGoogleAuthorizeURL pl ''/api/auth/google''))) (\<lambda>url.
       navigate (Leave url))"

definition registerSchema :: "(string \<Rightarrow> bool) \<Rightarrow> register_request \<Rightarrow> issue list" where
  "registerSchema is_email data =
     z_min ''name'' 2 ''Name must be at least 2 characters'' (reg_name data) @ z_max ''name'' 50 (reg_name data)
     @ z_email is_email ''email'' ''Invalid email address'' (reg_email data)
     @ z_min ''password'' 6 ''Password must be at least 6 characters'' (reg_password data)"

definition register_onSubmit :: "'w platform \<Rightarrow> register_request \<Rightarrow> ('w, unit) account_act" where
  "register_onSubmit pl data =
     andThen (show_error []) (\<lambda>_.
     catching (on_session (register pl data))
       (\<lambda>err. show_error (api_message ''Registration failed. Please try again.'' err)))"

definition handleGoogleSignUp :: "'w platform \<Rightarrow> ('w, unit) account_act" where
  "handleGoogleSignUp pl =
     andThen (on_session (client_call (getGoogleAuthorizeURL pl ''/api/auth/google''))) (\<lambda>url.
       navigate (Leave url))"

datatype account_event =
    FieldTyped string string
  | GoogleClicked
  | Submitted

definition login_view ::
    "issue list \<Rightarrow> bool \<Rightarrow> login_request \<Rightarrow> 'w account_page \<Rightarrow> account_event node list" where
  "login_view errors isSubmitting f s =
     [Txt ''Welcome back'', Txt ''Sign in to your account'', Act ''Sign in with Google'' True GoogleClicked,
      Txt ''Or continue with'', Fld ''Email'' True (login_email f) (FieldTyped ''email'')]
     @ issue_nodes ''email'' errors
     @ [Fld ''Password'' True (login_password f) (FieldTyped ''password'')] @ issue_nodes ''password'' errors
     @ cond_nodes (truthy_str (ac_error s)) [Txt (ac_error s)]
     @ [Act ''Sign In'' (\<not> isSubmitting) Submitted, Lnk ''Create one'' ''/register'']"

definition register_view ::
    "issue list \<Rightarrow> bool \<Rightarrow> register_request \<Rightarrow> 'w account_page \<Rightarrow> account_event node list" where
  "register_view errors isSubmitting f s =
     [Txt ''Create account'', Txt ''Join the conversation'', Act ''Sign up with Google'' True GoogleClicked,
      Txt ''Or continue with'', Fld ''Name'' True (reg_name f) (FieldTyped ''name'')] @ issue_nodes ''name'' errors
     @ [Fld ''Email'' True (reg_email f) (FieldTyped ''email'')] @ issue_nodes ''email'' errors
     @ [Fld ''Password'' True (reg_password f) (FieldTyped ''password'')] @ issue_nodes ''password'' errors
     @ cond_nodes (truthy_str (ac_error s)) [Txt (ac_error s)]
     @ [Act ''Create Account'' (\<not> isSubmitting) Submitted, Lnk ''Sign in'' ''/login'']"


section \<open>The return from the identity provider\<close>

text \<open>\<open>searchParams.get(k)\<close> is the first value of the key.\<close>

definition oauth_callback :: "'w platform \<Rightarrow> (string \<times> string) list \<Rightarrow> ('w, unit) account_act" where
  "oauth_callback pl searchParams =
     (let token = map_of searchParams ''token''; error = map_of searchParams ''error''
      in if truthy_ostr error then navigate (Replace (''/login?error='' @ the error))
         else if truthy_ostr token
         then andThen (on_session (client_call (setAccessToken token))) (\<lambda>_.
              andThen (on_session (checkSession pl)) (\<lambda>ok.
                if ok then navigate (Replace ''/home'')
                else navigate (Replace ''/login?error=oauth_session_failed'')))
         else navigate (Replace ''/login?error=no_token''))"


section \<open>Invitations\<close>

record 'w invite_page = "'w page_state" +
  ip_error :: "string option"

fun invite_message :: "js_error \<Rightarrow> string" where
  "invite_message (ApiError st code m data) =
     (if st = 404 then ''Invite link has expired or is invalid.''
      else if st = 409 then ''You are already a member of this room.''
      else if st = 410 then ''This room has been closed.''
      else m)"
| "invite_message err = ''Something went wrong. Please try again.''"

text \<open>One run of the effect of the page, up to the callbacks of the mutation.\<close>

definition invite_effect :: "'w platform \<Rightarrow> string \<Rightarrow> ('w invite_page, js_error, unit) act" where
  "invite_effect pl token =
     andThen (get_state session) (\<lambda>a.
     if isLoading a \<or> \<not> isAuthenticated a \<or> readOnly a then ret ()
     else
       catching
         (andThen (mutateAsync (useJoinRoomViaInvite pl (auth_user a)) token) (\<lambda>res.
            case data_string ''room_id'' res of
              Some roomId \<Rightarrow> navigate (Replace (''/chat/'' @ roomId))
            | None \<Rightarrow> navigate (Replace ''/home'')))
         (\<lambda>err. modify (\<lambda>s. s\<lparr>ip_error := Some (invite_message err)\<rparr>)))"

datatype invite_page_event = GoHomeClicked

text \<open>What the page renders, and where rendering itself sends the router.\<close>

definition invite_page_view :: "string \<Rightarrow> 'w invite_page \<Rightarrow> invite_page_event node list \<times> nav option" where
  "invite_page_view token s =
     (if isLoading (session s) then ([Txt ''spinner''], None)
      else if \<not> isAuthenticated (session s) then ([], Some (Replace (''/login?redirect=/invite/'' @ token)))
      else if readOnly (session s)
      then ([Txt ''Authentication service is temporarily unavailable. Please try again later.''], None)
      else if truthy_ostr (ip_error s) then ([Txt (str_of (ip_error s)), Act ''Go to Home'' True GoHomeClicked], None)
      else ([Txt ''Joining room...''], None))"

text \<open>
  When the effect runs: after a render in which one of its dependencies is not the same object as in the
  render before. The mutation object is one of them; \<open>identity n\<close> is the object of the \<open>n\<close>-th render.
  Starting a join changes the state of the mutation, which makes the page render again.
\<close>

record join_loop =
  lp_renders :: nat
  lp_joins :: nat
  lp_dirty :: bool

definition join_render :: "(nat \<Rightarrow> nat) \<Rightarrow> join_loop \<Rightarrow> join_loop" where
  "join_render identity s =
     (let n = lp_renders s; runs = (n = 0 \<or> identity n \<noteq> identity (n - 1))
      in \<lparr>lp_renders = n + 1, lp_joins = lp_joins s + (if runs then 1 else 0), lp_dirty = runs\<rparr>)"

inductive join_step :: "(nat \<Rightarrow> nat) \<Rightarrow> join_loop \<Rightarrow> unit \<Rightarrow> join_loop \<Rightarrow> bool" for identity where
  renders: "lp_dirty s \<Longrightarrow> join_step identity s () (join_render identity s)"

inductive_simps join_step_iff: "join_step identity s u t"

definition join_start :: join_loop where
  "join_start = \<lparr>lp_renders = 0, lp_joins = 0, lp_dirty = True\<rparr>"


section \<open>Profile and password\<close>

record profile_form =
  pf_name :: "string option"
  pf_email :: "string option"

definition profileSchema :: "(string \<Rightarrow> bool) \<Rightarrow> profile_form \<Rightarrow> issue list" where
  "profileSchema is_email data =
     z_optional (z_min ''name'' 2 ''Name must be at least 2 characters'') (pf_name data)
     @ z_optional (z_max ''name'' 50) (pf_name data)
     @ z_optional (z_email is_email ''email'' ''Invalid email address'') (pf_email data)"

definition save_user :: "'w platform \<Rightarrow> update_user_request \<Rightarrow> string \<Rightarrow> string \<Rightarrow> ('w, bool) account_act" where
  "save_user pl body done_text failed_text =
     andThen (get_state (\<lambda>s. auth_user (session s))) (\<lambda>u. case u of
       None \<Rightarrow> ret False
     | Some v \<Rightarrow>
         andThen (show_error []) (\<lambda>_. andThen (show_success []) (\<lambda>_.
         catching
           (andThen (on_session (client_call (apiPut pl (API_PATHS (AuthUser (user_id v))) (Some (update_user_body body)))))
             (\<lambda>_. andThen (show_success done_text) (\<lambda>_. ret True)))
           (\<lambda>err. andThen (show_error (api_message failed_text err)) (\<lambda>_. ret False)))))"

definition profile_onSubmit :: "'w platform \<Rightarrow> profile_form \<Rightarrow> ('w, unit) account_act" where
  "profile_onSubmit pl data =
     andThen (save_user pl \<lparr>uu_name = pf_name data, uu_email = pf_email data, uu_password = None\<rparr>
       ''Profile updated successfully'' ''Failed to update profile'') (\<lambda>_. ret ())"

record password_form =
  currentPassword :: string
  newPassword :: string

definition passwordSchema :: "password_form \<Rightarrow> issue list" where
  "passwordSchema data =
     z_min ''currentPassword'' 1 ''Current password is required'' (currentPassword data)
     @ z_min ''newPassword'' 6 ''New password must be at least 6 characters'' (newPassword data)"

text \<open>The handler returns whether it resets the form.\<close>

definition password_onSubmit :: "'w platform \<Rightarrow> password_form \<Rightarrow> ('w, bool) account_act" where
  "password_onSubmit pl data =
     save_user pl \<lparr>uu_name = None, uu_email = None, uu_password = Some (newPassword data)\<rparr>
       ''Password updated successfully'' ''Failed to update password''"

text \<open>
  The initials of an avatar: the first characters of the words of the name, in capitals, at most two.
\<close>

definition initials :: "user option \<Rightarrow> string" where
  "initials u =
     (case u of None \<Rightarrow> ''U''
      | Some v \<Rightarrow> take 2 (to_upper (concat (map (take 1) (split_on (CHR '' '') (user_name v))))))"

definition profile_view ::
    "issue list \<Rightarrow> bool \<Rightarrow> profile_form \<Rightarrow> 'w account_page \<Rightarrow> account_event node list" where
  "profile_view errors isSubmitting f s =
     [Txt (initials (auth_user (session s))), Txt ''Profile'', Txt ''Update your personal information'',
      Fld ''Display name'' True (str_of (pf_name f)) (FieldTyped ''name'')] @ issue_nodes ''name'' errors
     @ [Fld ''Email'' True (str_of (pf_email f)) (FieldTyped ''email'')] @ issue_nodes ''email'' errors
     @ cond_nodes (truthy_str (ac_error s)) [Txt (ac_error s)]
     @ cond_nodes (truthy_str (ac_success s)) [Txt (ac_success s)]
     @ [Act ''Save Changes'' (\<not> (isSubmitting \<or> readOnly (session s))) Submitted]"

definition password_view ::
    "issue list \<Rightarrow> bool \<Rightarrow> password_form \<Rightarrow> 'w account_page \<Rightarrow> account_event node list" where
  "password_view errors isSubmitting f s =
     [Txt ''Settings'', Txt ''Manage your account settings'', Txt ''Update Password'',
      Fld ''Current password'' True (currentPassword f) (FieldTyped ''currentPassword'')]
     @ issue_nodes ''currentPassword'' errors
     @ [Fld ''New password'' True (newPassword f) (FieldTyped ''newPassword'')] @ issue_nodes ''newPassword'' errors
     @ cond_nodes (truthy_str (ac_error s)) [Txt (ac_error s)]
     @ cond_nodes (truthy_str (ac_success s)) [Txt (ac_success s)]
     @ [Act ''Update Password'' (\<not> (isSubmitting \<or> readOnly (session s))) Submitted]"


section \<open>Properties\<close>

text \<open>
  The sign-in and sign-up pages tell how it went. A success leaves no error and a signed-in user on the
  way to the home page; a failure shows the server's message, or the page's own for any other error, and
  leaves user, cached user and route as they were; the handler itself never rejects.
\<close>

theorem sign_in_pages:
  assumes "login pl d (session s) = (x, a)" and "register pl e (session s) = (y, b)"
  shows "login_onSubmit pl d s = (Inr (), s\<lparr>session := a,
      ac_error := (case x of Inl err \<Rightarrow> api_message ''Invalid email or password'' err | Inr u \<Rightarrow> [])\<rparr>)
    \<and> register_onSubmit pl e s = (Inr (), s\<lparr>session := b,
      ac_error := (case y of Inl err \<Rightarrow> api_message ''Registration failed. Please try again.'' err | Inr u \<Rightarrow> [])\<rparr>)
    \<and> (if x = Inr () then auth_user a \<noteq> None \<and> routes a = routes (session s) @ [''/home'']
       else auth_user a = auth_user (session s) \<and> stored_user a = stored_user (session s) \<and> routes a = routes (session s))
    \<and> (if y = Inr () then auth_user b \<noteq> None \<and> routes b = routes (session s) @ [''/home'']
       else auth_user b = auth_user (session s) \<and> stored_user b = stored_user (session s) \<and> routes b = routes (session s))"
proof (intro conjI)
  show "login_onSubmit pl d s = (Inr (), s\<lparr>session := a,
      ac_error := (case x of Inl err \<Rightarrow> api_message ''Invalid email or password'' err | Inr u \<Rightarrow> [])\<rparr>)"
    using assms(1) by (cases x) (simp_all add: login_onSubmit_def account_defs act_simps on_session_eq)
  show "register_onSubmit pl e s = (Inr (), s\<lparr>session := b,
      ac_error := (case y of Inl err \<Rightarrow> api_message ''Registration failed. Please try again.'' err | Inr u \<Rightarrow> [])\<rparr>)"
    using assms(2) by (cases y) (simp_all add: register_onSubmit_def account_defs act_simps on_session_eq)
qed (use login_cases [OF assms(1)] register_cases [OF assms(2)] in auto)

definition sample_account_page :: "nat account_page" where
  "sample_account_page = \<lparr>session = fresh_app, effects = [], navs = [], ac_error = ''old'', ac_success = []\<rparr>"

theorem sign_in_pages_witness:
  "\<exists>x a. login sample_platform sample_login (session sample_account_page) = (x, a)
     \<and> ac_error (snd (login_onSubmit sample_platform sample_login sample_account_page))
       = (case x of Inl err \<Rightarrow> api_message ''Invalid email or password'' err | Inr u \<Rightarrow> [])"
proof -
  obtain x a y b where l: "login sample_platform sample_login (session sample_account_page) = (x, a)"
    "register sample_platform \<lparr>reg_name = ''Ada'', reg_email = ''a@b.c'', reg_password = ''secret''\<rparr>
       (session sample_account_page) = (y, b)" by fastforce
  from sign_in_pages [OF l] l(1) show ?thesis by simp
qed

text \<open>
  C40: the return from the identity provider ends in exactly one redirection. It goes to the home page only
  with a signed-in user; an error in the URL wins over a token, which is then not stored; and without either
  the visitor is sent to sign in.
\<close>

theorem oauth_callback_outcome:
  "\<exists>r t. oauth_callback pl searchParams s = (Inr (), t) \<and> navs t = navs s @ [Replace r]
    \<and> (r = ''/home'' \<longrightarrow> auth_user (session t) \<noteq> None \<and> truthy_ostr (map_of searchParams ''token''))
    \<and> (truthy_ostr (map_of searchParams ''error'') \<longrightarrow>
         session t = session s \<and> r = ''/login?error='' @ the (map_of searchParams ''error''))
    \<and> (\<not> truthy_ostr (map_of searchParams ''error'') \<and> \<not> truthy_ostr (map_of searchParams ''token'') \<longrightarrow>
         session t = session s \<and> r = ''/login?error=no_token'')"
proof -
  let ?a = "(session s)\<lparr>net := (net (session s))\<lparr>accessToken := map_of searchParams ''token''\<rparr>\<rparr>"
  obtain res c where w: "apiGet pl (API_PATHS AuthWhoami) None (net ?a) = (res, c)" by fastforce
  have "case checkSession pl ?a of (Inl e, b) \<Rightarrow> False | (Inr ok, b) \<Rightarrow> ok \<longrightarrow> auth_user b \<noteq> None"
    by (auto simp: checkSession_eq [OF w] Let_def split: sum.splits option.splits)
  then obtain ok b where c: "checkSession pl ?a = (Inr ok, b)" "ok \<longrightarrow> auth_user b \<noteq> None"
    by (auto split: prod.splits sum.splits)
  have token: "on_session (client_call (setAccessToken (map_of searchParams ''token''))) s = (Inr (), s\<lparr>session := ?a\<rparr>)"
    by (simp add: on_session_eq client_call_eq setAccessToken_def act_simps)
  have check: "on_session (checkSession pl) (s\<lparr>session := ?a\<rparr>) = (Inr ok, s\<lparr>session := b\<rparr>)"
    by (simp add: on_session_eq c)
  show ?thesis
    using c(2) by (cases ok) (auto simp: oauth_callback_def act_simps navigate_def token check Let_def)
qed

theorem oauth_callback_outcome_witness:
  "\<exists>t. oauth_callback sample_platform [(''error'', ''denied''), (''token'', ''t'')] sample_account_page = (Inr (), t)
     \<and> navs t = [Replace ''/login?error=denied''] \<and> session t = fresh_app"
proof -
  have "truthy_ostr (map_of [(''error'', ''denied''), (''token'', ''t'')] ''error'')"
    by (simp add: truthy_ostr_def truthy_str_def)
  with oauth_callback_outcome [of sample_platform "[(''error'', ''denied''), (''token'', ''t'')]" sample_account_page]
  show ?thesis by (auto simp: sample_account_page_def)
qed

text \<open>
  Following an invitation. Nothing is requested until the session is loaded, signed in and not
  read-only; then one join is sent, which opens the joined room (or the home page, if the answer names
  none), and a failure is shown with a message for the statuses the server uses.
\<close>

theorem invite_effect_outcome:
  assumes "joinRoomViaInvite pl token (net (session s)) = (r, c)"
  shows "invite_effect pl token s = (Inr (),
    if isLoading (session s) \<or> auth_user (session s) = None \<or> readOnly (session s) then s
    else case r of
      Inr res \<Rightarrow> s\<lparr>session := (session s)\<lparr>net := c\<rparr>,
          effects := effects s @ [Invalidate [KStr ''rooms'', uid (auth_user (session s))]],
          navs := navs s @ [Replace (case data_string ''room_id'' res of Some i \<Rightarrow> ''/chat/'' @ i | None \<Rightarrow> ''/home'')]\<rparr>
    | Inl e \<Rightarrow> s\<lparr>session := (session s)\<lparr>net := c\<rparr>, effects := effects s @ [ToastFailure (getErrorMessage e)],
          ip_error := Some (invite_message e)\<rparr>)"
proof -
  have "mutateAsync (useJoinRoomViaInvite pl (auth_user (session s))) token s = (r, s\<lparr>session := (session s)\<lparr>net := c\<rparr>,
      effects := effects s @ (case r of Inr res \<Rightarrow> [Invalidate [KStr ''rooms'', uid (auth_user (session s))]]
        | Inl e \<Rightarrow> toast_error e)\<rparr>)"
    by (rule mutateAsync_hook [OF useJoinRoomViaInvite_def assms])
  then show ?thesis
    by (cases r) (auto simp: invite_effect_def act_simps navigate_def toast_error_def isAuthenticated_def
        split: option.splits)
qed

definition sample_invite_page :: "nat invite_page" where
  "sample_invite_page = \<lparr>session = fresh_app, effects = [], navs = [], ip_error = None\<rparr>"

theorem invite_effect_outcome_witness:
  "invite_effect sample_platform ''t'' sample_invite_page = (Inr (), sample_invite_page)"
proof -
  obtain r c where "joinRoomViaInvite sample_platform ''t'' (net (session sample_invite_page)) = (r, c)" by fastforce
  from invite_effect_outcome [OF this] show ?thesis by (simp add: sample_invite_page_def fresh_app_def)
qed

lemma join_runs:
  assumes "\<And>n. identity (Suc n) \<noteq> identity n"
  shows "run (join_step identity) \<lparr>lp_renders = k, lp_joins = j, lp_dirty = True\<rparr> (replicate n ())
           \<lparr>lp_renders = k + n, lp_joins = j + n, lp_dirty = True\<rparr>"
proof (induction n arbitrary: k j)
  case (Suc n)
  have "join_render identity \<lparr>lp_renders = k, lp_joins = j, lp_dirty = True\<rparr>
      = \<lparr>lp_renders = Suc k, lp_joins = Suc j, lp_dirty = True\<rparr>"
    using assms [of "k - 1"] by (cases k) (auto simp: join_render_def Let_def)
  with Suc [of "Suc k" "Suc j"] show ?case by (simp add: run_Cons_iff join_step_iff)
qed simp

text \<open>
  How often an invitation is joined depends on the mutation object, a dependency of the effect. Were it
  the same object on every render, one join would be sent and the page would come to rest. The query library
  returns a new one on every render, and then every render sends another join and causes the next render:
  the requests never stop by themselves.
\<close>

theorem invite_join_loop:
  assumes "\<And>n. new_object (Suc n) \<noteq> new_object n"
  shows "(\<forall>n. \<exists>s. run (join_step new_object) join_start (replicate n ()) s \<and> lp_joins s = n \<and> lp_dirty s)
    \<and> (\<forall>es s. run (join_step (\<lambda>n. obj)) join_start es s \<longrightarrow> lp_joins s \<le> 1 \<and> length es \<le> 2)"
proof (intro conjI allI impI)
  fix n
  show "\<exists>s. run (join_step new_object) join_start (replicate n ()) s \<and> lp_joins s = n \<and> lp_dirty s"
    using join_runs [where identity = new_object and k = 0 and j = 0 and n = n, OF assms] by (intro exI [of _ "\<lparr>lp_renders = n, lp_joins = n, lp_dirty = True\<rparr>"])
      (simp add: join_start_def)
next
  fix es :: "unit list" and s
  assume "run (join_step (\<lambda>n. obj)) join_start es s"
  then show "lp_joins s \<le> 1" "length es \<le> 2"
    by (cases es; cases "tl es"; cases "tl (tl es)";
        auto simp: run_Cons_iff join_step_iff join_start_def join_render_def)+
qed

theorem invite_join_loop_witness:
  "\<exists>s. run (join_step (\<lambda>n. n)) join_start (replicate 3 ()) s \<and> lp_joins s = 3 \<and> lp_dirty s"
  using invite_join_loop [of "\<lambda>n. n", THEN conjunct1] by simp

text \<open>
  Saving profile and password. One request carries the form (of the password form only the new
  password: the current one, which the form demands, is never sent, so it is not checked by anybody); the
  page then says whether it worked; and the signed-in user and the cached user stay as they were, so a new
  name or address is not shown until the session is checked again.
\<close>

theorem account_saves:
  assumes "auth_user (session s) = Some u"
    and "apiPut pl (API_PATHS (AuthUser (user_id u))) (Some (update_user_body
           \<lparr>uu_name = pf_name f, uu_email = pf_email f, uu_password = None\<rparr>)) (net (session s)) = (r, c)"
  shows "profile_onSubmit pl f s = (Inr (), s\<lparr>session := (session s)\<lparr>net := c\<rparr>,
      ac_error := (case r of Inl e \<Rightarrow> api_message ''Failed to update profile'' e | Inr v \<Rightarrow> []),
      ac_success := (case r of Inl e \<Rightarrow> [] | Inr v \<Rightarrow> ''Profile updated successfully'')\<rparr>)
    \<and> auth_user (session (snd (profile_onSubmit pl f s))) = Some u
    \<and> stored_user (session (snd (profile_onSubmit pl f s))) = stored_user (session s)
    \<and> password_onSubmit pl d = password_onSubmit pl (d\<lparr>currentPassword := other\<rparr>)
    \<and> (passwordSchema (d\<lparr>currentPassword := []\<rparr>) \<noteq> [])"
proof -
  have p: "profile_onSubmit pl f s = (Inr (), s\<lparr>session := (session s)\<lparr>net := c\<rparr>,
      ac_error := (case r of Inl e \<Rightarrow> api_message ''Failed to update profile'' e | Inr v \<Rightarrow> []),
      ac_success := (case r of Inl e \<Rightarrow> [] | Inr v \<Rightarrow> ''Profile updated successfully'')\<rparr>)"
    using assms by (cases r) (simp_all add: profile_onSubmit_def save_user_def account_defs act_simps
        on_session_eq client_call_eq)
  then show ?thesis using assms(1) by (simp add: password_onSubmit_def passwordSchema_def z_min_def)
qed

theorem account_saves_witness:
  "password_onSubmit sample_platform \<lparr>currentPassword = ''guess'', newPassword = ''secret7''\<rparr>
   = password_onSubmit sample_platform \<lparr>currentPassword = ''other'', newPassword = ''secret7''\<rparr>"
proof -
  let ?s = "sample_account_page\<lparr>session := fresh_app\<lparr>auth_user := Some sample_user\<rparr>\<rparr>"
  let ?f = "\<lparr>pf_name = Some ''Ada'', pf_email = None\<rparr>"
  have u: "auth_user (session ?s) = Some sample_user" by simp
  obtain r c where "apiPut sample_platform (API_PATHS (AuthUser (user_id sample_user))) (Some (update_user_body
      \<lparr>uu_name = pf_name ?f, uu_email = pf_email ?f, uu_password = None\<rparr>)) (net (session ?s)) = (r, c)" by fastforce
  from account_saves [OF u this, of "\<lparr>currentPassword = ''guess'', newPassword = ''secret7''\<rparr>" "''other''"]
  show ?thesis by simp
qed

end
