(* ===== verification/Admin_Pages.thy ===== *)
theory Admin_Pages
  imports Room_Dialogs
begin

text \<open>
  The administrator pages, under \<^verbatim>\<open>src/frontend/src/app/admin\<close>: \<open>layout.tsx\<close>, \<open>page.tsx\<close>,
  \<open>users/page.tsx\<close>, \<open>sessions/page.tsx\<close>, \<open>rooms/page.tsx\<close>, \<open>messages/page.tsx\<close> and
  \<open>audit/page.tsx\<close>, with their shared parts in \<open>features/admin/components/ui.tsx\<close>. Each page turns its
  filters into the parameters of its query and renders one row per entry; a row offers the changes of
  its entry and hands them to that entry's mutation. How dates and numbers are written is a parameter.
\<close>


section \<open>Shared parts\<close>

definition PageHeader :: "string \<Rightarrow> string option \<Rightarrow> 'e node list \<Rightarrow> 'e node list" where
  "PageHeader title description children = [Txt title] @ some_nodes description (\<lambda>d. [Txt d]) @ children"

definition StatCard :: "(int \<Rightarrow> string) \<Rightarrow> string \<Rightarrow> int option \<Rightarrow> bool \<Rightarrow> 'e node list" where
  "StatCard show_number label value loading =
     [Txt label, Txt (if loading then ''loading'' else case value of None \<Rightarrow> ''-'' | Some n \<Rightarrow> show_number n)]"

definition EmptyState :: "string \<Rightarrow> 'e node list" where
  "EmptyState note_text = [Txt note_text]"

definition Table :: "string list \<Rightarrow> 'e node list \<Rightarrow> 'e node list" where
  "Table columns rows = map Txt columns @ rows"

text \<open>The three states every list of these pages has.\<close>

definition table_or :: "bool \<Rightarrow> string \<Rightarrow> string list \<Rightarrow> ('r \<Rightarrow> 'e node list) \<Rightarrow> 'r list \<Rightarrow> 'e node list" where
  "table_or busy none_text columns row entries =
     (if busy then [Txt ''loading'']
      else if entries = [] then EmptyState none_text
      else Table columns (map (\<lambda>x. Box (row x)) entries))"

lemmas admin_view_defs = PageHeader_def StatCard_def EmptyState_def Table_def

lemma offers_table_or [simp]:
  "offers (table_or busy none_text columns row entries) =
     (if busy then {} else \<Union>x \<in> set entries. offers (row x))"
  by (auto simp: table_or_def EmptyState_def Table_def offers_map)


section \<open>users/page.tsx\<close>

record admin_user =
  au_id :: string
  au_name :: string
  au_email :: string
  au_role :: string
  au_provider :: "string option"
  au_created_at :: string
  au_updated_at :: string
  au_deleted_at :: "string option"

definition account_roles :: "string list" where
  "account_roles = [''USER'', ''MANAGER'', ''ADMIN'']"

definition RoleBadge :: "string \<Rightarrow> string option \<Rightarrow> string" where
  "RoleBadge r deleted =
     (if truthy_ostr deleted then ''Disabled''
      else if r = ''ADMIN'' then ''ADMIN'' else if r = ''MANAGER'' then ''MANAGER'' else ''USER'')"

datatype user_event = RoleSelected string string | RestoreClicked string | DisableClicked string

record user_pending =
  role_pending :: bool
  restore_pending :: bool
  disable_pending :: bool

definition UserRow :: "(string \<Rightarrow> string) \<Rightarrow> (string \<Rightarrow> user_pending) \<Rightarrow> admin_user \<Rightarrow> user_event node list" where
  "UserRow show_date pending u =
     (let p = pending (au_id u); deleted = truthy_ostr (au_deleted_at u)
      in [Txt (au_name u), Txt (au_id u), Txt (au_email u), Txt (RoleBadge (au_role u) (au_deleted_at u)),
          Txt (if truthy_ostr (au_provider u) then str_of (au_provider u) else ''local''),
          Txt (show_date (au_created_at u)),
          Sel ''role'' (\<not> (deleted \<or> role_pending p)) (au_role u) account_roles (RoleSelected (au_id u)),
          if deleted then Act ''Restore'' (\<not> restore_pending p) (RestoreClicked (au_id u))
          else Act ''Disable'' (\<not> disable_pending p) (DisableClicked (au_id u))])"

definition user_row_handle :: "'w platform \<Rightarrow> user_event \<Rightarrow> ('w, 'z, unit) page_act" where
  "user_row_handle pl e =
     (case e of
        RoleSelected i r \<Rightarrow> mutate (useUpdateAdminUserRole pl i) r
      | RestoreClicked i \<Rightarrow> mutate (useRestoreAdminUser pl i) ()
      | DisableClicked i \<Rightarrow> mutate (useDisableAdminUser pl i) ())"

record users_filter =
  uf_q :: string
  uf_search :: string
  uf_role :: string
  uf_deleted :: string

definition users_params :: "users_filter \<Rightarrow> params" where
  "users_params f =
     [(''q'', Some (PStr (uf_search f))), (''role'', Some (PStr (uf_role f))),
      (''deleted'', Some (PStr (uf_deleted f))), (''limit'', Some (PNum 100))]"

datatype users_page_event =
    UserQueryTyped string | UserSearched | UserRoleFilter string | UserDeletedFilter string
  | UserCreateOpened | UserEvent user_event

definition users_filter_handle :: "users_page_event \<Rightarrow> users_filter \<Rightarrow> users_filter" where
  "users_filter_handle e f =
     (case e of
        UserQueryTyped v \<Rightarrow> f\<lparr>uf_q := v\<rparr>
      | UserSearched \<Rightarrow> f\<lparr>uf_search := uf_q f\<rparr>
      | UserRoleFilter v \<Rightarrow> f\<lparr>uf_role := v\<rparr>
      | UserDeletedFilter v \<Rightarrow> f\<lparr>uf_deleted := v\<rparr>
      | _ \<Rightarrow> f)"

definition AdminUsersPage ::
    "(string \<Rightarrow> string) \<Rightarrow> bool \<Rightarrow> (string \<Rightarrow> user_pending) \<Rightarrow> admin_user list \<Rightarrow> users_filter
      \<Rightarrow> users_page_event node list" where
  "AdminUsersPage show_date busy pending users f =
     PageHeader ''Users'' (Some ''List, create, and manage user accounts'')
       [Act ''Create user'' True UserCreateOpened]
     @ [Fld ''Search by name or email'' True (uf_q f) UserQueryTyped, Act ''Search'' True UserSearched,
        Sel ''All roles'' True (uf_role f) ['''', ''ADMIN'', ''MANAGER'', ''USER''] UserRoleFilter,
        Sel ''Active only'' True (uf_deleted f) ['''', ''include'', ''only''] UserDeletedFilter]
     @ table_or busy ''No users found.''
         [''Name'', ''UUID'', ''Email'', ''Role'', ''Status'', ''Created'', ''Actions'']
         (\<lambda>u. map_nodes UserEvent (UserRow show_date pending u)) users"


text \<open>The dialog for a new account.\<close>

record 'w create_user_dialog = "'w page_state" +
  cu_open :: bool
  cu_form :: admin_create_user_input

definition blank_user :: admin_create_user_input where
  "blank_user = \<lparr>acu_name = [], acu_email = [], acu_password = [], acu_role = Some ''USER''\<rparr>"

definition createSchema :: "(string \<Rightarrow> bool) \<Rightarrow> admin_create_user_input \<Rightarrow> issue list" where
  "createSchema is_email data =
     z_min ''name'' 1 ''Name is required'' (acu_name data)
     @ z_email is_email ''email'' ''Invalid email'' (acu_email data)
     @ z_min ''password'' 6 ''Password must be at least 6 characters'' (acu_password data)
     @ (if acu_role data \<in> Some ` set account_roles then [] else [(''role'', None)])"

definition create_user_onSubmit ::
    "'w platform \<Rightarrow> admin_create_user_input \<Rightarrow> ('w create_user_dialog, js_error, unit) act" where
  "create_user_onSubmit pl data =
     andThen (mutateAsync (useCreateAdminUser pl) data) (\<lambda>_.
     andThen (modify (\<lambda>s. s\<lparr>cu_open := False\<rparr>)) (\<lambda>_. modify (\<lambda>s. s\<lparr>cu_form := blank_user\<rparr>)))"

datatype create_user_event =
    UserFieldTyped string string | UserRoleChosen string | UserCreateCancelled | UserCreateSubmitted

definition CreateUserDialog ::
    "issue list \<Rightarrow> bool \<Rightarrow> 'w create_user_dialog \<Rightarrow> create_user_event node list" where
  "CreateUserDialog errors isPending s =
     cond_nodes (cu_open s)
       ([Txt ''Create user'', Act ''Close'' True UserCreateCancelled,
         Fld ''Name'' True (acu_name (cu_form s)) (UserFieldTyped ''name'')] @ issue_nodes ''name'' errors
        @ [Fld ''Email'' True (acu_email (cu_form s)) (UserFieldTyped ''email'')] @ issue_nodes ''email'' errors
        @ [Fld ''Password'' True (acu_password (cu_form s)) (UserFieldTyped ''password'')]
        @ issue_nodes ''password'' errors
        @ [Sel ''Role'' True (str_of (acu_role (cu_form s))) account_roles UserRoleChosen,
           Act ''Cancel'' True UserCreateCancelled, Act ''Create'' (\<not> isPending) UserCreateSubmitted])"


section \<open>sessions/page.tsx\<close>

record admin_session =
  as_lineage_id :: string
  as_user_id :: string
  as_created_at :: int
  as_used :: bool
  as_revoked :: bool
  as_jkt :: "string option"
  as_tokens :: int

definition sessions_params :: params where
  "sessions_params = [(''limit'', Some (PNum 100))]"

datatype session_event = RevokeClicked string

text \<open>\<open>date_text\<close> writes a number of milliseconds, which is how \<open>new Date(n)\<close> reads a number.\<close>

definition SessionRow :: "(int \<Rightarrow> string) \<Rightarrow> (string \<Rightarrow> bool) \<Rightarrow> admin_session \<Rightarrow> session_event node list" where
  "SessionRow date_text pending a =
     (let active = \<not> as_revoked a
      in [Txt (as_lineage_id a), Txt (as_user_id a), Txt (date_text (as_created_at a)), Txt (show_int (as_tokens a)),
          Txt (if active then ''Active'' else ''Revoked'')]
         @ cond_nodes active
             [Act ''Revoke'' (\<not> pending (as_lineage_id a)) (RevokeClicked (as_lineage_id a))])"

definition session_row_handle :: "'w platform \<Rightarrow> session_event \<Rightarrow> ('w, 'z, unit) page_act" where
  "session_row_handle pl e = (case e of RevokeClicked i \<Rightarrow> mutate (useRevokeAdminSession pl i) ())"

definition AdminSessionsPage ::
    "(int \<Rightarrow> string) \<Rightarrow> bool \<Rightarrow> (string \<Rightarrow> bool) \<Rightarrow> admin_session list \<Rightarrow> session_event node list" where
  "AdminSessionsPage date_text busy pending as =
     PageHeader ''Sessions''
       (Some ''Active refresh-token lineages. Revoking a lineage signs out every device in it.'') []
     @ table_or busy ''No sessions found.''
         [''Lineage'', ''User'', ''Created'', ''Tokens'', ''State'', ''Actions'']
         (SessionRow date_text pending) as"


section \<open>rooms/page.tsx\<close>

record rooms_filter =
  rf_q :: string
  rf_search :: string

definition rooms_params :: "rooms_filter \<Rightarrow> params" where
  "rooms_params f = [(''q'', Some (PStr (rf_search f))), (''limit'', Some (PNum 100))]"

datatype room_row_event =
    RoomDeleteClicked string | MembersOpened string | MembersLeft string | MemberRemoved string string

definition room_state_badge :: "room \<Rightarrow> string" where
  "room_state_badge rm =
     (if truthy_ostr (room_deleted_at rm) then ''Deleted''
      else if truthy_ostr (room_popped_at rm) then ''Popped'' else ''Active'')"

text \<open>What the queries of a row and its dialog hold, and whether the dialog is open.\<close>

record room_row =
  rr_open :: bool
  rr_loading :: bool
  rr_members :: "room_member list"
  rr_removing :: bool
  rr_deleting :: bool

definition admin_member_row :: "string \<Rightarrow> bool \<Rightarrow> room_member \<Rightarrow> room_row_event node" where
  "admin_member_row roomId isPending m =
     Box ([Txt (mem_user_name m), Txt (mem_user_id m), Txt (if mem_role m = ADMIN then ''ADMIN'' else ''MEMBER'')]
          @ cond_nodes (\<not> truthy_ostr (mem_left_at m))
              [Act ''Remove'' (\<not> isPending) (MemberRemoved roomId (mem_user_id m))])"

definition AdminMembersDialog :: "room \<Rightarrow> room_row \<Rightarrow> room_row_event node list" where
  "AdminMembersDialog rm r =
     Act ''Members'' True (MembersOpened (room_id rm)) #
     cond_nodes (rr_open r)
       ([Txt (''Members - '' @ room_name rm), Act ''Close'' True (MembersLeft (room_id rm))]
        @ (if rr_loading r then [Txt ''loading'']
           else if rr_members r = [] then [Txt ''No members.'']
           else map (admin_member_row (room_id rm) (rr_removing r)) (rr_members r)))"

definition RoomRow :: "(string \<Rightarrow> string) \<Rightarrow> (string \<Rightarrow> room_row) \<Rightarrow> room \<Rightarrow> room_row_event node list" where
  "RoomRow show_date rows rm =
     [Txt (room_name rm), Txt (room_owner_id rm), Txt (show_int (room_max_members rm)),
      Txt (show_date (room_created_at rm)), Txt (room_state_badge rm)]
     @ AdminMembersDialog rm (rows (room_id rm))
     @ [Act ''Delete'' (\<not> (rr_deleting (rows (room_id rm)) \<or> truthy_ostr (room_deleted_at rm)))
          (RoomDeleteClicked (room_id rm))]"

definition room_row_handle :: "'w platform \<Rightarrow> room_row_event \<Rightarrow> ('w, 'z, unit) page_act" where
  "room_row_handle pl e =
     (case e of
        RoomDeleteClicked i \<Rightarrow> mutate (useDeleteAdminRoom pl i) ()
      | MemberRemoved r i \<Rightarrow> mutate (useRemoveAdminRoomMember pl r) i
      | MembersOpened i \<Rightarrow> ret ()
      | MembersLeft i \<Rightarrow> ret ())"

definition room_row_open :: "room_row_event \<Rightarrow> (string \<Rightarrow> room_row) \<Rightarrow> string \<Rightarrow> room_row" where
  "room_row_open e rows =
     (case e of
        MembersOpened i \<Rightarrow> rows(i := (rows i)\<lparr>rr_open := True\<rparr>)
      | MembersLeft i \<Rightarrow> rows(i := (rows i)\<lparr>rr_open := False\<rparr>)
      | _ \<Rightarrow> rows)"

datatype rooms_page_event = RoomQueryTyped string | RoomSearched | RoomEvent room_row_event

definition rooms_filter_handle :: "rooms_page_event \<Rightarrow> rooms_filter \<Rightarrow> rooms_filter" where
  "rooms_filter_handle e f =
     (case e of
        RoomQueryTyped v \<Rightarrow> f\<lparr>rf_q := v\<rparr>
      | RoomSearched \<Rightarrow> f\<lparr>rf_search := rf_q f\<rparr>
      | RoomEvent r \<Rightarrow> f)"

definition AdminRoomsPage ::
    "(string \<Rightarrow> string) \<Rightarrow> bool \<Rightarrow> (string \<Rightarrow> room_row) \<Rightarrow> room list \<Rightarrow> rooms_filter \<Rightarrow> rooms_page_event node list" where
  "AdminRoomsPage show_date busy rows rooms f =
     PageHeader ''Rooms'' (Some ''List, inspect, and manage rooms across the platform'') []
     @ [Fld ''Search rooms'' True (rf_q f) RoomQueryTyped, Act ''Search'' True RoomSearched]
     @ table_or busy ''No rooms found.''
         [''Name'', ''Owner'', ''Max'', ''Created'', ''State'', ''Actions'']
         (\<lambda>rm. map_nodes RoomEvent (RoomRow show_date rows rm)) rooms"


section \<open>messages/page.tsx\<close>

record messages_filter =
  mf_q :: string
  mf_search :: string
  mf_room :: string
  mf_author :: string

text \<open>\<open>v || undefined\<close> as a parameter.\<close>

definition or_absent :: "string \<Rightarrow> param option" where
  "or_absent v = (if truthy_str v then Some (PStr v) else None)"

definition messages_params :: "messages_filter \<Rightarrow> params" where
  "messages_params f =
     [(''q'', or_absent (mf_search f)), (''room_id'', or_absent (mf_room f)),
      (''author_id'', or_absent (mf_author f)), (''limit'', Some (PNum 100))]"

datatype messages_page_event =
    MessageQueryTyped string | MessageSearched | MessageRoomTyped string | MessageAuthorTyped string
  | MessagesApplied | MessageDeleteClicked string

definition messages_filter_handle :: "messages_page_event \<Rightarrow> messages_filter \<Rightarrow> messages_filter" where
  "messages_filter_handle e f =
     (case e of
        MessageQueryTyped v \<Rightarrow> f\<lparr>mf_q := v\<rparr>
      | MessageSearched \<Rightarrow> f\<lparr>mf_search := mf_q f\<rparr>
      | MessageRoomTyped v \<Rightarrow> f\<lparr>mf_room := v\<rparr>
      | MessageAuthorTyped v \<Rightarrow> f\<lparr>mf_author := v\<rparr>
      | _ \<Rightarrow> f)"

definition MessageRow ::
    "(string \<Rightarrow> string) \<Rightarrow> (string \<Rightarrow> bool) \<Rightarrow> message \<Rightarrow> messages_page_event node list" where
  "MessageRow show_date pending m =
     [Txt (msg_author_name m), Txt (msg_content m), Txt (msg_room_id m),
      Txt (show_int (message_type_code (msg_type m))), Txt (show_date (msg_created_at m)),
      Act ''Delete'' (\<not> pending (msg_id m)) (MessageDeleteClicked (msg_id m))]"

definition message_row_handle :: "'w platform \<Rightarrow> string \<Rightarrow> ('w, 'z, unit) page_act" where
  "message_row_handle pl i = mutate (useDeleteAdminMessage pl i) ()"

definition AdminMessagesPage ::
    "(string \<Rightarrow> string) \<Rightarrow> bool \<Rightarrow> bool \<Rightarrow> (string \<Rightarrow> bool) \<Rightarrow> message list \<Rightarrow> messages_filter
      \<Rightarrow> messages_page_event node list" where
  "AdminMessagesPage show_date busy isFetching pending msgs f =
     PageHeader ''Messages'' (Some ''Search messages across all rooms and delete them (CQRS-propagated)'') []
     @ [Fld ''Search content'' True (mf_q f) MessageQueryTyped, Act ''Search'' True MessageSearched,
        Fld ''Room id (optional)'' True (mf_room f) MessageRoomTyped,
        Fld ''Author id (optional)'' True (mf_author f) MessageAuthorTyped,
        Act ''Apply'' (\<not> isFetching) MessagesApplied]
     @ table_or busy ''No messages found.''
         [''Author'', ''Content'', ''Room'', ''Type'', ''Sent'', ''Actions'']
         (MessageRow show_date pending) msgs"


section \<open>audit/page.tsx\<close>

record audit_event =
  ae_id :: string
  ae_admin_id :: string
  ae_action :: string
  ae_target_type :: string
  ae_target_id :: string
  ae_metadata :: "(string \<times> json) list option"
  ae_created_at :: string

record audit_filter =
  af_admin :: string
  af_action :: string
  af_target :: string

definition audit_params :: "audit_filter \<Rightarrow> params" where
  "audit_params f =
     [(''limit'', Some (PNum 100)), (''admin_id'', or_absent (af_admin f)), (''action'', or_absent (af_action f)),
      (''target_type'', or_absent (af_target f))]"

datatype audit_page_event = AuditAdminTyped string | AuditActionTyped string | AuditTargetTyped string | AuditApplied

definition audit_filter_handle :: "audit_page_event \<Rightarrow> audit_filter \<Rightarrow> audit_filter" where
  "audit_filter_handle e f =
     (case e of
        AuditAdminTyped v \<Rightarrow> f\<lparr>af_admin := v\<rparr>
      | AuditActionTyped v \<Rightarrow> f\<lparr>af_action := v\<rparr>
      | AuditTargetTyped v \<Rightarrow> f\<lparr>af_target := v\<rparr>
      | AuditApplied \<Rightarrow> f)"

definition audit_row :: "(string \<Rightarrow> string) \<Rightarrow> audit_event \<Rightarrow> audit_page_event node list" where
  "audit_row show_date e =
     [Txt (show_date (ae_created_at e)), Txt (ae_admin_id e), Txt (ae_action e), Txt (ae_target_type e),
      Txt (ae_target_id e), Txt (case ae_metadata e of None \<Rightarrow> ''-'' | Some kvs \<Rightarrow> stringify (JObj kvs))]"

definition AdminAuditPage ::
    "(string \<Rightarrow> string) \<Rightarrow> bool \<Rightarrow> bool \<Rightarrow> audit_event list \<Rightarrow> audit_filter \<Rightarrow> audit_page_event node list" where
  "AdminAuditPage show_date busy isFetching events f =
     PageHeader ''Audit log'' (Some ''Admin actions recorded over the internal mTLS channel'') []
     @ [Fld ''Admin id'' True (af_admin f) AuditAdminTyped,
        Fld ''Action (e.g. user.create)'' True (af_action f) AuditActionTyped,
        Fld ''Target type'' True (af_target f) AuditTargetTyped,
        Act ''Apply'' (\<not> isFetching) AuditApplied]
     @ table_or busy ''No audit events found.''
         [''When'', ''Admin'', ''Action'', ''Target'', ''Target id'', ''Metadata'']
         (audit_row show_date) events"


section \<open>page.tsx and layout.tsx\<close>

text \<open>One \<open>useQuery\<close> result of \<open>useAdminStats\<close>: the answer, and whether it is loading.\<close>

definition stat_count :: "string \<Rightarrow> json option \<Rightarrow> int option" where
  "stat_count k answer =
     (case Option.bind (Option.bind answer (jfield ''data'')) (jfield k) of Some (JNum n) \<Rightarrow> Some n | _ \<Rightarrow> None)"

type_synonym stat_query = "json option \<times> bool"

definition AdminOverviewPage ::
    "(int \<Rightarrow> string) \<Rightarrow> stat_query \<Rightarrow> stat_query \<Rightarrow> stat_query \<Rightarrow> stat_query \<Rightarrow> unit node list" where
  "AdminOverviewPage show_number users sessions rooms messages =
     PageHeader ''Overview'' (Some ''Platform-wide admin statistics'') []
     @ concat (map (\<lambda>(label, value, loading). StatCard show_number label value loading)
         [(''Users'', stat_count ''count'' (fst users), snd users),
          (''Sessions'', stat_count ''count'' (fst sessions), snd sessions),
          (''Rooms'', stat_count ''total_rooms'' (fst rooms), snd rooms),
          (''Messages'', stat_count ''total_messages'' (fst messages), snd messages)])
     @ map Txt
         [''Admin capabilities'',
          ''Users - list/search, create, change roles, disable & restore accounts'',
          ''Sessions - list refresh-token lineages and revoke sessions'',
          ''Rooms - list/search, inspect members, manage memberships, delete rooms'',
          ''Messages - search messages across rooms and delete (CQRS-propagated)'',
          ''Audit - review admin actions recorded over the internal mTLS channel'']"

definition GRAFANA_URL :: "string option \<Rightarrow> string" where
  "GRAFANA_URL env = (if truthy_ostr env then the env else ''https://chinwag.duckdns.org/grafana'')"

definition NAV_ITEMS :: "(string \<times> string) list" where
  "NAV_ITEMS =
     [(''/admin'', ''Overview''), (''/admin/users'', ''Users''), (''/admin/sessions'', ''Sessions''),
      (''/admin/rooms'', ''Rooms''), (''/admin/messages'', ''Messages''), (''/admin/audit'', ''Audit'')]"

definition AdminNav :: "'e node list" where
  "AdminNav = map (\<lambda>(href, label). Lnk label href) NAV_ITEMS @ [Lnk ''Back to app'' ''/home'']"

definition AdminLayout :: "string option \<Rightarrow> 'w app \<Rightarrow> 'e node list \<Rightarrow> 'e node list" where
  "AdminLayout env a children =
     (case fst (admin_guard a) of
        Spinner \<Rightarrow> [Txt ''loading'']
      | Blank \<Rightarrow> []
      | Children \<Rightarrow> [Txt ''Chinwag Admin'', Lnk ''Grafana'' (GRAFANA_URL env)] @ AdminNav @ children)"


section \<open>Properties\<close>

lemma admin_mutate:
  assumes "fn v (net (session s)) = (r, c)"
  shows "mutate (admin_mutation fn note_text k) v s =
    (Inr (), s\<lparr>session := (session s)\<lparr>net := c\<rparr>,
          effects := effects s @ (case r of Inr res \<Rightarrow> [ToastSuccess note_text, Invalidate k]
            | Inl e \<Rightarrow> [ToastFailure (getErrorMessage e)])\<rparr>)"
proof -
  have "mutationFn (admin_mutation fn note_text k) v (net (session s)) = (r, c)"
    using assms by (simp add: admin_mutation_def)
  from mutate_eq [OF this] show ?thesis by (cases r) (simp_all add: admin_mutation_def toast_error_def)
qed

lemma own_list_stale:
  "prefix_matching matches \<Longrightarrow> admin_key entity @ k \<in> made_stale matches [ToastSuccess t, Invalidate (admin_key entity)]"
  by (rule made_staleI) auto

text \<open>The REST call an event of a row stands for, and the toast of its success.\<close>

fun user_event_call :: "user_event \<Rightarrow> rest_call" where
  "user_event_call (RoleSelected i r) = UpdateAdminUserRole i r"
| "user_event_call (RestoreClicked i) = RestoreAdminUser i"
| "user_event_call (DisableClicked i) = DisableAdminUser i"

fun user_event_note :: "user_event \<Rightarrow> string" where
  "user_event_note (RoleSelected i r) = ''Role updated''"
| "user_event_note (RestoreClicked i) = ''User restored''"
| "user_event_note (DisableClicked i) = ''User disabled''"

lemma user_row_call:
  assumes "perform_call pl (user_event_call e) (net (session s)) = (r, c)"
  shows "user_row_handle pl e s =
    (Inr (), s\<lparr>session := (session s)\<lparr>net := c\<rparr>,
          effects := effects s @ (case r of Inr res \<Rightarrow> [ToastSuccess (user_event_note e), Invalidate (admin_key ''users'')]
            | Inl err \<Rightarrow> [ToastFailure (getErrorMessage err)])\<rparr>)"
  using assms
  by (cases e; cases r) (simp_all add: user_row_handle_def useUpdateAdminUserRole_def useRestoreAdminUser_def
      useDisableAdminUser_def admin_mutate)


definition sample_admin_user :: "string option \<Rightarrow> admin_user" where
  "sample_admin_user deleted = \<lparr>au_id = ''u2'', au_name = ''Bob'', au_email = ''b@chat.test'', au_role = ''USER'',
     au_provider = None, au_created_at = ''t1'', au_updated_at = ''t1'', au_deleted_at = deleted\<rparr>"

definition sample_users_filter :: users_filter where
  "sample_users_filter = \<lparr>uf_q = [], uf_search = ''a&b'', uf_role = ''ADMIN'', uf_deleted = []\<rparr>"

definition nothing_pending :: user_pending where
  "nothing_pending = \<lparr>role_pending = False, restore_pending = False, disable_pending = False\<rparr>"


text \<open>
  The filters of the administrator pages reach the server: the query of the URL, read back there, is
  exactly the filters that are set, and the limit. A search text counts once it is submitted; the other
  filters count at once, so that typing a room, an author or an audit filter asks the server again with
  every character, and the button Apply changes nothing.
\<close>

theorem admin_filters_sent:
  "parse_query (query_part (request_url (API_PATHS AdminUsers) (Some (users_params u)))) =
     Some (filter (\<lambda>p. snd p \<noteq> []) [(''q'', uf_search u), (''role'', uf_role u), (''deleted'', uf_deleted u)]
           @ [(''limit'', ''100'')])
   \<and> parse_query (query_part (request_url (API_PATHS AdminRooms) (Some (rooms_params f)))) =
     Some (filter (\<lambda>p. snd p \<noteq> []) [(''q'', rf_search f)] @ [(''limit'', ''100'')])
   \<and> parse_query (query_part (request_url (API_PATHS AdminMessages) (Some (messages_params m)))) =
     Some (filter (\<lambda>p. snd p \<noteq> []) [(''q'', mf_search m), (''room_id'', mf_room m), (''author_id'', mf_author m)]
           @ [(''limit'', ''100'')])
   \<and> parse_query (query_part (request_url (API_PATHS AdminAudit) (Some (audit_params a)))) =
     Some ((''limit'', ''100'') # filter (\<lambda>p. snd p \<noteq> [])
             [(''admin_id'', af_admin a), (''action'', af_action a), (''target_type'', af_target a)])
   \<and> users_params (users_filter_handle (UserQueryTyped v) u) = users_params u
   \<and> uf_search (users_filter_handle UserSearched (users_filter_handle (UserQueryTyped v) u)) = v
   \<and> (messages_params (messages_filter_handle (MessageRoomTyped v) m) = messages_params m \<longleftrightarrow> v = mf_room m)
   \<and> messages_params (messages_filter_handle MessagesApplied m) = messages_params m
   \<and> (audit_params (audit_filter_handle (AuditAdminTyped v) a) = audit_params a \<longleftrightarrow> v = af_admin a)"
proof (intro conjI)
  have limit: "show_int 100 = ''100''" by code_simp
  have sent: "sent_params ((k, or_absent x) # ps) = (if x = [] then sent_params ps else (k, x) # sent_params ps)" for k x ps
    by (simp add: or_absent_def truthy_str_def)
  show "parse_query (query_part (request_url (API_PATHS AdminUsers) (Some (users_params u)))) =
     Some (filter (\<lambda>p. snd p \<noteq> []) [(''q'', uf_search u), (''role'', uf_role u), (''deleted'', uf_deleted u)]
           @ [(''limit'', ''100'')])"
    by (subst query_part_request_url) (simp_all add: users_params_def parse_query_toString limit well_formed_endpoint_def)
  show "parse_query (query_part (request_url (API_PATHS AdminRooms) (Some (rooms_params f)))) =
     Some (filter (\<lambda>p. snd p \<noteq> []) [(''q'', rf_search f)] @ [(''limit'', ''100'')])"
    by (subst query_part_request_url) (simp_all add: rooms_params_def parse_query_toString limit well_formed_endpoint_def)
  show "parse_query (query_part (request_url (API_PATHS AdminMessages) (Some (messages_params m)))) =
     Some (filter (\<lambda>p. snd p \<noteq> []) [(''q'', mf_search m), (''room_id'', mf_room m), (''author_id'', mf_author m)]
           @ [(''limit'', ''100'')])"
    by (subst query_part_request_url)
      (simp_all add: messages_params_def sent parse_query_toString limit well_formed_endpoint_def)
  show "parse_query (query_part (request_url (API_PATHS AdminAudit) (Some (audit_params a)))) =
     Some ((''limit'', ''100'') # filter (\<lambda>p. snd p \<noteq> [])
             [(''admin_id'', af_admin a), (''action'', af_action a), (''target_type'', af_target a)])"
    by (subst query_part_request_url)
      (simp_all add: audit_params_def sent parse_query_toString limit well_formed_endpoint_def)
qed (auto simp: users_params_def users_filter_handle_def messages_params_def messages_filter_handle_def
    audit_params_def audit_filter_handle_def or_absent_def truthy_str_def)

text \<open>
  The rooms page deletes a room only while it is not deleted, and removes from a room only a member that
  is listed in its open dialog and has not left; each of these calls concerns exactly that room and member,
  and ends in one toast.
\<close>

theorem admin_rooms_act:
  assumes "RoomEvent e \<in> offers (AdminRoomsPage show_date busy rows rooms f)"
    and "deleteAdminRoom pl i (net (session s)) = (r1, c1)" and "removeAdminRoomMember pl i j (net (session s)) = (r2, c2)"
  shows "(e = RoomDeleteClicked i \<longrightarrow>
        (\<exists>rm \<in> set rooms. room_id rm = i \<and> \<not> truthy_ostr (room_deleted_at rm))
        \<and> room_row_handle pl e s = (Inr (), s\<lparr>session := (session s)\<lparr>net := c1\<rparr>,
            effects := effects s @ (case r1 of Inl err \<Rightarrow> [ToastFailure (getErrorMessage err)]
              | Inr res \<Rightarrow> [ToastSuccess ''Room deleted'', Invalidate (admin_key ''rooms'')])\<rparr>))
    \<and> (e = MemberRemoved i j \<longrightarrow>
        (\<exists>rm \<in> set rooms. room_id rm = i) \<and> rr_open (rows i)
        \<and> (\<exists>m \<in> set (rr_members (rows i)). mem_user_id m = j \<and> \<not> truthy_ostr (mem_left_at m))
        \<and> room_row_handle pl e s = (Inr (), s\<lparr>session := (session s)\<lparr>net := c2\<rparr>,
            effects := effects s @ (case r2 of Inl err \<Rightarrow> [ToastFailure (getErrorMessage err)]
              | Inr res \<Rightarrow> [ToastSuccess ''Member removed'', Invalidate (admin_key ''room-members'' @ [KStr i])])\<rparr>))
    \<and> rr_open (room_row_open (MembersOpened i) rows i) \<and> \<not> rr_open (room_row_open (MembersLeft i) rows i)"
proof -
  from assms(1) obtain rm where rm: "rm \<in> set rooms" "e \<in> offers (RoomRow show_date rows rm)"
    by (auto simp: AdminRoomsPage_def PageHeader_def image_iff split: if_splits)
  have del: "\<not> truthy_ostr (room_deleted_at rm) \<and> room_id rm = i" if "e = RoomDeleteClicked i"
    using rm(2) that by (auto simp: RoomRow_def AdminMembersDialog_def offers_map admin_member_row_def split: if_splits)
  have mem: "room_id rm = i \<and> rr_open (rows i) \<and> (\<exists>m \<in> set (rr_members (rows i)). mem_user_id m = j \<and> \<not> truthy_ostr (mem_left_at m))"
    if "e = MemberRemoved i j"
    using rm(2) that by (auto simp: RoomRow_def AdminMembersDialog_def offers_map admin_member_row_def split: if_splits)
  show ?thesis
    using del mem rm(1) assms(2,3)
    by (auto simp: room_row_handle_def useDeleteAdminRoom_def useRemoveAdminRoomMember_def admin_mutate
        room_row_open_def)
qed

definition sample_rows :: "string \<Rightarrow> room_row" where
  "sample_rows = (\<lambda>_. \<lparr>rr_open = True, rr_loading = False,
     rr_members = [\<lparr>mem_room_id = ''r1'', mem_user_id = ''u2'', mem_user_name = ''Bob'', mem_role = MEMBER,
       mem_joined_at = ''t1'', mem_left_at = None\<rparr>], rr_removing = False, rr_deleting = False\<rparr>)"

definition sample_admin_room :: room where
  "sample_admin_room = \<lparr>room_id = ''r1'', room_name = ''books'', room_description = [], room_max_members = 20,
     room_owner_id = ''u1'', room_role = None, room_created_at = ''t1'', room_updated_at = ''t1'',
     room_deleted_at = None, room_pop_at = None, room_popped_at = None\<rparr>"

theorem admin_rooms_act_witness:
  "\<exists>t. room_row_handle sample_platform (MemberRemoved ''r1'' ''u2'') (page_on fresh_app) = (Inr (), t)"
proof -
  have o: "RoomEvent (MemberRemoved ''r1'' ''u2'')
      \<in> offers (AdminRoomsPage id False sample_rows [sample_admin_room] \<lparr>rf_q = [], rf_search = []\<rparr>)"
    by (simp add: AdminRoomsPage_def PageHeader_def RoomRow_def AdminMembersDialog_def admin_member_row_def
        sample_rows_def sample_admin_room_def js_defs image_iff)
  obtain r1 c1 r2 c2 where "deleteAdminRoom sample_platform ''r1'' (net (session (page_on fresh_app))) = (r1, c1)"
    "removeAdminRoomMember sample_platform ''r1'' ''u2'' (net (session (page_on fresh_app))) = (r2, c2)" by fastforce
  from admin_rooms_act [OF o this] show ?thesis by blast
qed

text \<open>
  A session can be revoked exactly while it is listed as active, and a message deleted while it is
  listed; both calls go to the server for exactly that entry. The time of a session is written as if the
  server's number were milliseconds.
\<close>

theorem admin_entries_act:
  assumes "revokeAdminSession pl i (net (session s)) = (r1, c1)" and "deleteAdminMessage pl i (net (session s)) = (r2, c2)"
  shows "(RevokeClicked i \<in> offers (AdminSessionsPage date_text busy pending xs) \<longleftrightarrow>
            \<not> busy \<and> \<not> pending i \<and> (\<exists>a \<in> set xs. as_lineage_id a = i \<and> \<not> as_revoked a))
    \<and> session_row_handle pl (RevokeClicked i) s = (Inr (), s\<lparr>session := (session s)\<lparr>net := c1\<rparr>,
        effects := effects s @ (case r1 of Inl err \<Rightarrow> [ToastFailure (getErrorMessage err)]
          | Inr res \<Rightarrow> [ToastSuccess ''Session revoked'', Invalidate (admin_key ''sessions'')])\<rparr>)
    \<and> (a \<in> set xs \<and> \<not> busy \<longrightarrow> date_text (as_created_at a) \<in> set (shown (AdminSessionsPage date_text busy pending xs)))
    \<and> (MessageDeleteClicked i \<in> offers (AdminMessagesPage show_date busy isFetching pending ms f) \<longleftrightarrow>
            \<not> busy \<and> \<not> pending i \<and> i \<in> msg_id ` set ms)
    \<and> message_row_handle pl i s = (Inr (), s\<lparr>session := (session s)\<lparr>net := c2\<rparr>,
        effects := effects s @ (case r2 of Inl err \<Rightarrow> [ToastFailure (getErrorMessage err)]
          | Inr res \<Rightarrow> [ToastSuccess ''Message deleted'', Invalidate (admin_key ''messages'')])\<rparr>)"
proof (intro conjI)
  show "RevokeClicked i \<in> offers (AdminSessionsPage date_text busy pending xs) \<longleftrightarrow>
            \<not> busy \<and> \<not> pending i \<and> (\<exists>a \<in> set xs. as_lineage_id a = i \<and> \<not> as_revoked a)"
    by (auto simp: AdminSessionsPage_def PageHeader_def SessionRow_def Let_def split: if_splits)
  show "MessageDeleteClicked i \<in> offers (AdminMessagesPage show_date busy isFetching pending ms f) \<longleftrightarrow>
            \<not> busy \<and> \<not> pending i \<and> i \<in> msg_id ` set ms"
    by (auto simp: AdminMessagesPage_def PageHeader_def MessageRow_def split: if_splits)
  show "a \<in> set xs \<and> \<not> busy \<longrightarrow> date_text (as_created_at a) \<in> set (shown (AdminSessionsPage date_text busy pending xs))"
    by (auto simp: AdminSessionsPage_def SessionRow_def table_or_def Table_def shown_map Let_def intro!: bexI [of _ a])
qed (use assms in \<open>simp_all add: session_row_handle_def message_row_handle_def useRevokeAdminSession_def
    useDeleteAdminMessage_def admin_mutate\<close>)

theorem admin_entries_act_witness:
  "\<exists>t. session_row_handle sample_platform (RevokeClicked ''l1'') (page_on fresh_app) = (Inr (), t)"
proof -
  obtain r1 c1 r2 c2 where "revokeAdminSession sample_platform ''l1'' (net (session (page_on fresh_app))) = (r1, c1)"
    "deleteAdminMessage sample_platform ''l1'' (net (session (page_on fresh_app))) = (r2, c2)" by fastforce
  from admin_entries_act [OF this] show ?thesis by blast
qed

text \<open>
  Creating an account. The form is accepted exactly with a name, an e-mail address, a password of six
  characters and one of the three roles; then it is sent as it is. On success the dialog closes on a blank
  form and the list is refetched; on failure the dialog and what was typed stay, with one toast.
\<close>

theorem admin_create_user:
  assumes "createAdminUser pl data (net (session s)) = (r, c)"
  shows "(createSchema is_email data = [] \<longleftrightarrow>
            acu_name data \<noteq> [] \<and> is_email (acu_email data) \<and> 6 \<le> length (acu_password data)
            \<and> acu_role data \<in> {Some ''USER'', Some ''MANAGER'', Some ''ADMIN''})
    \<and> create_user_onSubmit pl data s =
        (case r of
           Inr res \<Rightarrow> (Inr (), s\<lparr>session := (session s)\<lparr>net := c\<rparr>, cu_open := False, cu_form := blank_user,
             effects := effects s @ [ToastSuccess ''User created'', Invalidate (admin_key ''users'')]\<rparr>)
         | Inl e \<Rightarrow> (Inl e, s\<lparr>session := (session s)\<lparr>net := c\<rparr>,
             effects := effects s @ [ToastFailure (getErrorMessage e)]\<rparr>))"
proof
  show "createSchema is_email data = [] \<longleftrightarrow>
            acu_name data \<noteq> [] \<and> is_email (acu_email data) \<and> 6 \<le> length (acu_password data)
            \<and> acu_role data \<in> {Some ''USER'', Some ''MANAGER'', Some ''ADMIN''}"
    by (auto simp: createSchema_def z_defs account_roles_def Suc_le_eq not_less)
  have "mutationFn (useCreateAdminUser pl) data (net (session s)) = (r, c)"
    using assms by (simp add: useCreateAdminUser_def admin_mutation_def)
  from mutateAsync_eq [OF this]
  show "create_user_onSubmit pl data s =
        (case r of
           Inr res \<Rightarrow> (Inr (), s\<lparr>session := (session s)\<lparr>net := c\<rparr>, cu_open := False, cu_form := blank_user,
             effects := effects s @ [ToastSuccess ''User created'', Invalidate (admin_key ''users'')]\<rparr>)
         | Inl e \<Rightarrow> (Inl e, s\<lparr>session := (session s)\<lparr>net := c\<rparr>,
             effects := effects s @ [ToastFailure (getErrorMessage e)]\<rparr>))"
    by (cases r) (simp_all add: create_user_onSubmit_def act_simps useCreateAdminUser_def admin_mutation_def
        toast_error_def)
qed

definition sample_create_user :: "nat create_user_dialog" where
  "sample_create_user = \<lparr>session = fresh_app, effects = [], navs = [], cu_open = True, cu_form = blank_user\<rparr>"

theorem admin_create_user_witness:
  "createSchema (\<lambda>_. True) blank_user \<noteq> []"
proof -
  obtain r c where "createAdminUser sample_platform blank_user (net (session sample_create_user)) = (r, c)" by fastforce
  from admin_create_user [OF this] show ?thesis by (simp add: blank_user_def)
qed

text \<open>
  Nothing of the administrator pages is rendered, and no change offered, unless the session is that of
  an administrator; then the navigation leads to exactly the six pages, and back.
\<close>

theorem admin_layout_guarded:
  "if is_admin a \<and> \<not> isLoading a
   then offers (AdminLayout env a children) = offers children
     \<and> links (AdminLayout env a children) = GRAFANA_URL env #
         [''/admin'', ''/admin/users'', ''/admin/sessions'', ''/admin/rooms'', ''/admin/messages'', ''/admin/audit'', ''/home'']
         @ links children
   else offers (AdminLayout env a children) = {} \<and> links (AdminLayout env a children) = []"
  by (auto simp: AdminLayout_def admin_guard_def AdminNav_def NAV_ITEMS_def)

end
