(* ===== verification/App_Shell.thy ===== *)
theory App_Shell
  imports Account_Pages Admin_Pages
begin

text \<open>
  The frame of the client, under \<^verbatim>\<open>src/frontend/src\<close>: the sidebar (\<open>components/sidebar.tsx\<close>), the
  layout of the signed-in part (\<open>app/(main)/layout.tsx\<close>), the landing page (\<open>app/page.tsx\<close>), the
  redirects the guards and the landing page make, and the drop-down menu
  (\<open>components/ui/dropdown-menu.tsx\<close>) of the member list.
\<close>


section \<open>sidebar.tsx\<close>

record 'w sidebar = "'w page_state" +
  sidebarOpen :: bool
  createOpen :: bool

text \<open>\<open>pathname.split("/")[2]\<close> of a path that starts with \<^verbatim>\<open>/chat/\<close>.\<close>

definition currentRoomId :: "string \<Rightarrow> string option" where
  "currentRoomId pathname =
     (if starts_with pathname ''/chat/'' then js_nth (split_on (CHR ''/'') pathname) 2 else None)"

definition isActive :: "string \<Rightarrow> room \<Rightarrow> bool" where
  "isActive pathname rm \<longleftrightarrow> currentRoomId pathname = Some (room_id rm)"

datatype sidebar_event =
    SidebarToggled | SidebarClosed | CreateOpened | RoomsRetried | AdminClicked | ProfileClicked
  | SettingsClicked | LogoutClicked | CreateDialogEvent create_event

text \<open>The query of the rooms: loading, the error, and the rooms.\<close>

type_synonym rooms_query = "bool \<times> js_error option \<times> room list"

definition room_entries :: "string \<Rightarrow> bool \<Rightarrow> rooms_query \<Rightarrow> sidebar_event node list" where
  "room_entries pathname ro query =
     (let (loading, err, rooms) = query
      in if ro then [Txt ''Rooms unavailable'', Txt ''Auth service is temporarily down'']
         else if loading then [Txt ''loading'']
         else if err \<noteq> None then [Txt ''Failed to load rooms'', Act ''Retry'' True RoomsRetried]
         else if rooms = [] then [Txt ''No rooms yet'', Txt ''Create one to get started'']
         else map (\<lambda>rm. Box (Lnk (room_name rm) (''/chat/'' @ room_id rm)
                             # cond_nodes (isActive pathname rm) [Txt ''current''])) rooms)"

definition account_entries :: "user option \<Rightarrow> sidebar_event node list" where
  "account_entries u =
     [Txt (initials u), Txt (str_of (map_option user_name u))]
     @ some_nodes (Option.bind u user_role) (\<lambda>r. [Txt r])
     @ cond_nodes (Option.bind u user_role = Some ''ADMIN'') [Act ''Admin'' True AdminClicked]
     @ [Act ''Profile'' True ProfileClicked, Act ''Settings'' True SettingsClicked, Act ''Logout'' True LogoutClicked]"

definition Sidebar ::
    "string \<Rightarrow> rooms_query \<Rightarrow> issue list \<Rightarrow> bool \<Rightarrow> 'w create_dialog \<Rightarrow> 'w sidebar \<Rightarrow> sidebar_event node list" where
  "Sidebar pathname query errors submitting cd s =
     (let u = auth_user (session s); ro = readOnly (session s)
      in [Act (if sidebarOpen s then ''Close sidebar'' else ''Open sidebar'') True SidebarToggled]
         @ cond_nodes (sidebarOpen s) [Act ''overlay'' True SidebarClosed]
         @ [Lnk ''Chinwag'' ''/home'', Txt ''Rooms'']
         @ cond_nodes ro [Txt ''Read-only'']
         @ cond_nodes (\<not> ro) [Act ''Create room'' True CreateOpened]
         @ room_entries pathname ro query
         @ account_entries u
         @ map_nodes CreateDialogEvent (create_view errors submitting (cd\<lparr>cd_open := createOpen s\<rparr>)))"

definition sidebar_handle :: "'w platform \<Rightarrow> sidebar_event \<Rightarrow> ('w sidebar, js_error, unit) act" where
  "sidebar_handle pl e =
     (case e of
        SidebarToggled \<Rightarrow> modify (\<lambda>s. s\<lparr>sidebarOpen := \<not> sidebarOpen s\<rparr>)
      | SidebarClosed \<Rightarrow> modify (\<lambda>s. s\<lparr>sidebarOpen := False\<rparr>)
      | CreateOpened \<Rightarrow> modify (\<lambda>s. s\<lparr>createOpen := True\<rparr>)
      | RoomsRetried \<Rightarrow> ret ()
      | AdminClicked \<Rightarrow> navigate (Push ''/admin'')
      | ProfileClicked \<Rightarrow> navigate (Push ''/profile'')
      | SettingsClicked \<Rightarrow> navigate (Push ''/settings'')
      | LogoutClicked \<Rightarrow> on_session (logout pl)
      | CreateDialogEvent d \<Rightarrow>
          (case d of CreateCancelled \<Rightarrow> modify (\<lambda>s. s\<lparr>createOpen := False\<rparr>) | _ \<Rightarrow> ret ()))"

text \<open>Following the link of a room also closes the drawer.\<close>

definition room_followed :: "'w sidebar \<Rightarrow> 'w sidebar" where
  "room_followed s = s\<lparr>sidebarOpen := False\<rparr>"


section \<open>Layout and landing page\<close>

definition MainLayout :: "'w app \<Rightarrow> 'e node list \<Rightarrow> 'e node list \<Rightarrow> 'e node list" where
  "MainLayout a sidebar children =
     (case fst (protected_route a) of
        Spinner \<Rightarrow> [Txt ''loading'']
      | Blank \<Rightarrow> []
      | Children \<Rightarrow> sidebar @ children)"

text \<open>The landing page: what it renders and where its effect sends the router.\<close>

definition RootPage :: "'w app \<Rightarrow> view \<times> string option" where
  "RootPage a =
     ((if isLoading a then Spinner else Children),
      (if \<not> isLoading a \<and> isAuthenticated a then Some ''/home'' else None))"

text \<open>
  The guard of a route: the landing page for the root, the administrator guard under \<open>/admin\<close>, the
  protected route around the rest of the application, none on the pages for visitors.
\<close>

datatype area = Landing | Visitors | Members | Administration

definition area_of :: "string \<Rightarrow> area" where
  "area_of r =
     (if r = ''/'' then Landing
      else if r = ''/admin'' \<or> starts_with r ''/admin/'' then Administration
      else if r \<in> {''/home'', ''/profile'', ''/settings''} \<or> starts_with r ''/chat/'' then Members
      else Visitors)"

definition guarded :: "'w app \<Rightarrow> string \<Rightarrow> view \<times> string option" where
  "guarded a r =
     (case area_of r of
        Landing \<Rightarrow> RootPage a
      | Administration \<Rightarrow> admin_guard a
      | Members \<Rightarrow> protected_route a
      | Visitors \<Rightarrow> (Children, None))"


section \<open>dropdown-menu.tsx\<close>

text \<open>
  \<open>clicks\<close> counts the handlers that ran. The effect listens for a press outside the menu and for escape
  only while it is open. An item spreads its properties after its own \<open>onClick\<close>, so a handler of the item
  takes the place of the one that closes the menu.
\<close>

record menu =
  menu_open :: bool
  clicks :: nat

datatype menu_event = TriggerClicked | ItemClicked bool | PressedOutside | KeyDown string

fun menu_apply :: "menu_event \<Rightarrow> menu \<Rightarrow> menu" where
  "menu_apply TriggerClicked s = s\<lparr>menu_open := \<not> menu_open s\<rparr>"
| "menu_apply (ItemClicked has_handler) s =
     (if \<not> menu_open s then s else if has_handler then s\<lparr>clicks := clicks s + 1\<rparr> else s\<lparr>menu_open := False\<rparr>)"
| "menu_apply PressedOutside s = (if menu_open s then s\<lparr>menu_open := False\<rparr> else s)"
| "menu_apply (KeyDown k) s = (if menu_open s \<and> k = ''Escape'' then s\<lparr>menu_open := False\<rparr> else s)"

text \<open>A mouse click on the trigger: it is outside the menu, so the press is seen there first.\<close>

definition press_trigger :: "menu \<Rightarrow> menu" where
  "press_trigger s = menu_apply TriggerClicked (menu_apply PressedOutside s)"


section \<open>Properties\<close>

lemma offers_room_entries:
  "offers (room_entries pathname ro query) \<subseteq> {RoomsRetried}"
  by (auto simp: room_entries_def offers_map split: prod.splits if_splits)

lemma links_rooms: "links (map (\<lambda>rm. Box (Lnk (f rm) (g rm) # cond_nodes (c rm) [Txt t])) rooms) = map g rooms"
  by (induction rooms) auto

lemma links_create [simp]: "links (map_nodes h (create_view errors submitting cd)) = []"
  by (auto simp: create_view_def issue_nodes_def cond_nodes_def split: list.splits)

lemma split_on_first: "\<exists>ys. split_on c t = takeWhile (\<lambda>x. x \<noteq> c) t # ys"
  by (induction t) auto

lemma takeWhile_prefix:
  "takeWhile P (xs @ ys) = xs \<longleftrightarrow> list_all P xs \<and> (ys = [] \<or> \<not> P (hd ys))"
  by (induction xs) (cases ys; auto)+

lemma currentRoomId_chat: "currentRoomId (''/chat/'' @ t) = Some (takeWhile (\<lambda>x. x \<noteq> CHR ''/'') t)"
  using split_on_first [of "CHR ''/''" t] by (auto simp: currentRoomId_def starts_with_def js_nth_def)

text \<open>
  The sidebar. It leads to exactly the rooms of the user, and marks as current exactly the room whose
  page is open, wherever in the room one is; the administrator's button is there exactly for administrators;
  and in a read-only session neither rooms nor the button for a new room are offered.
\<close>

theorem sidebar_offers:
  "links (Sidebar pathname (False, None, rooms) errors submitting cd s) =
      ''/home'' # (if readOnly (session s) then [] else map (\<lambda>rm. ''/chat/'' @ room_id rm) rooms)
   \<and> (AdminClicked \<in> offers (Sidebar pathname query errors submitting cd s) \<longleftrightarrow>
        Option.bind (auth_user (session s)) user_role = Some ''ADMIN'')
   \<and> (CreateOpened \<in> offers (Sidebar pathname query errors submitting cd s) \<longleftrightarrow> \<not> readOnly (session s))
   \<and> (currentRoomId (''/chat/'' @ i @ rest) = Some i \<longleftrightarrow>
        CHR ''/'' \<notin> set i \<and> (rest = [] \<or> hd rest = CHR ''/''))"
proof (intro conjI)
  show "links (Sidebar pathname (False, None, rooms) errors submitting cd s) =
      ''/home'' # (if readOnly (session s) then [] else map (\<lambda>rm. ''/chat/'' @ room_id rm) rooms)"
    by (simp add: Sidebar_def Let_def room_entries_def account_entries_def links_rooms some_nodes_def
        split: option.splits)
  show "AdminClicked \<in> offers (Sidebar pathname query errors submitting cd s) \<longleftrightarrow>
        Option.bind (auth_user (session s)) user_role = Some ''ADMIN''"
    using offers_room_entries [of pathname "readOnly (session s)" query]
    by (auto simp: Sidebar_def Let_def account_entries_def split: option.splits)
  show "CreateOpened \<in> offers (Sidebar pathname query errors submitting cd s) \<longleftrightarrow> \<not> readOnly (session s)"
    using offers_room_entries [of pathname "readOnly (session s)" query]
    by (auto simp: Sidebar_def Let_def account_entries_def split: option.splits)
  show "currentRoomId (''/chat/'' @ i @ rest) = Some i \<longleftrightarrow> CHR ''/'' \<notin> set i \<and> (rest = [] \<or> hd rest = CHR ''/'')"
    unfolding currentRoomId_chat option.inject takeWhile_prefix by (auto simp: list_all_iff)
qed



text \<open>
  Signing out from the sidebar. Whatever the server answers, afterwards the layout renders nothing that
  can be used, and every page of the signed-in part and of the administration leads to the login page.
\<close>

theorem sidebar_logout:
  assumes "\<not> isLoading (session s)"
  shows "\<exists>t. sidebar_handle pl LogoutClicked s = (Inr (), t) \<and> auth_user (session t) = None
    \<and> MainLayout (session t) sidebar children = [] \<and> AdminLayout env (session t) children = []
    \<and> (\<forall>r. area_of r \<in> {Members, Administration} \<longrightarrow> guarded (session t) r = (Blank, Some ''/login''))"
  using assms
  by (auto simp: sidebar_handle_def on_session_eq logout_eq MainLayout_def AdminLayout_def protected_route_def
      admin_guard_def is_admin_def isAuthenticated_def guarded_def)

definition sample_sidebar :: "nat sidebar" where
  "sample_sidebar = \<lparr>session = fresh_app\<lparr>auth_user := Some sample_user, isLoading := False\<rparr>, effects = [],
     navs = [], sidebarOpen = True, createOpen = False\<rparr>"

theorem sidebar_logout_witness:
  "\<exists>t. sidebar_handle outage_platform LogoutClicked sample_sidebar = (Inr (), t) \<and> auth_user (session t) = None
     \<and> guarded (session t) ''/chat/r1'' = (Blank, Some ''/login'')"
proof -
  have l: "\<not> isLoading (session sample_sidebar)" by (simp add: sample_sidebar_def)
  have "area_of ''/chat/r1'' = Members" by (simp add: area_of_def starts_with_def)
  with sidebar_logout [OF l, of outage_platform] show ?thesis by blast
qed

text \<open>
  The drop-down menu. An open menu closes only by a press outside it, by the escape key, or by an item
  that does nothing; choosing an item with a handler runs the handler once and leaves the menu open, and
  pressing the trigger of an open menu opens it again.
\<close>

theorem menu_stays_open:
  "menu_apply (ItemClicked True) \<lparr>menu_open = True, clicks = n\<rparr> = \<lparr>menu_open = True, clicks = n + 1\<rparr>
   \<and> menu_open (press_trigger s)
   \<and> (menu_open s \<and> \<not> menu_open (menu_apply e s)) =
       (menu_open s \<and> e \<in> {TriggerClicked, ItemClicked False, PressedOutside, KeyDown ''Escape''})
   \<and> (clicks (menu_apply e s) \<noteq> clicks s) = (menu_open s \<and> e = ItemClicked True)"
  by (cases e) (auto simp: press_trigger_def)

end
