(* ===== verification/Message_Input.thy ===== *)
theory Message_Input
  imports Ui_Base
begin

text \<open>
  The message box of a room, \<^verbatim>\<open>src/frontend/src/features/chat/components/message-input.tsx\<close>: its
  state, its handlers, what it renders, and the steps a user, the pending send and the parent can
  make. A user step is one that the rendered controls offer.
\<close>


section \<open>State and handlers\<close>

text \<open>
  \<open>sends\<close> and \<open>input_toasts\<close> are history: the contents handed to \<open>onSend\<close>, and the toasts shown.
\<close>

record message_input =
  content :: string
  isSending :: bool
  disabled_prop :: bool
  readOnly_prop :: bool
  sends :: "string list"
  input_toasts :: "string list"

definition handleSend :: "message_input \<Rightarrow> message_input" where
  "handleSend s =
     (let trimmed = trim (content s)
      in if \<not> truthy_str trimmed \<or> isSending s then s
         else s\<lparr>isSending := True, sends := sends s @ [trimmed]\<rparr>)"

text \<open>The rest of \<open>handleSend\<close> once \<open>onSend\<close> has resolved or rejected.\<close>

definition send_resolved :: "message_input \<Rightarrow> message_input" where
  "send_resolved s = s\<lparr>content := [], isSending := False\<rparr>"

definition send_rejected :: "js_error \<Rightarrow> message_input \<Rightarrow> message_input" where
  "send_rejected err s =
     s\<lparr>input_toasts := input_toasts s @ [''Failed to send: '' @ getErrorMessage err], isSending := False\<rparr>"

definition handleKeyDown :: "string \<Rightarrow> bool \<Rightarrow> message_input \<Rightarrow> message_input" where
  "handleKeyDown key shift s = (if key = ''Enter'' \<and> \<not> shift then handleSend s else s)"

datatype input_event =
    Typed string
  | KeyPressed string bool
  | SendClicked
  | SendResolved
  | SendRejected js_error
  | PropsChanged bool bool

definition message_input_view :: "message_input \<Rightarrow> input_event node list" where
  "message_input_view s =
     cond_nodes (readOnly_prop s)
       [Txt ''Read-only mode - auth service is temporarily unavailable. Sending is paused.'']
     @ [Fld (if readOnly_prop s then ''Read-only - auth service is temporarily down''
             else if disabled_prop s then ''This room has been popped'' else ''Type a message...'')
          (\<not> (disabled_prop s \<or> readOnly_prop s)) (content s) Typed,
        Keys (\<not> (disabled_prop s \<or> readOnly_prop s)) KeyPressed,
        Act ''Send message''
          (\<not> (\<not> truthy_str (trim (content s)) \<or> isSending s \<or> disabled_prop s \<or> readOnly_prop s))
          SendClicked]"

fun input_apply :: "input_event \<Rightarrow> message_input \<Rightarrow> message_input" where
  "input_apply (Typed t) s = s\<lparr>content := t\<rparr>"
| "input_apply (KeyPressed key shift) s = handleKeyDown key shift s"
| "input_apply SendClicked s = handleSend s"
| "input_apply SendResolved s = send_resolved s"
| "input_apply (SendRejected err) s = send_rejected err s"
| "input_apply (PropsChanged d r) s = s\<lparr>disabled_prop := d, readOnly_prop := r\<rparr>"

fun settles :: "input_event \<Rightarrow> bool" where
  "settles SendResolved = True"
| "settles (SendRejected err) = True"
| "settles _ = False"

inductive input_step :: "message_input \<Rightarrow> input_event \<Rightarrow> message_input \<Rightarrow> bool" where
  user_event: "e \<in> offers (message_input_view s) \<Longrightarrow> input_step s e (input_apply e s)"
| send_settles: "isSending s \<Longrightarrow> settles e \<Longrightarrow> input_step s e (input_apply e s)"
| new_props: "input_step s (PropsChanged d r) (input_apply (PropsChanged d r) s)"

inductive_cases input_stepE: "input_step s e t"

definition input_init :: "message_input \<Rightarrow> bool" where
  "input_init s \<longleftrightarrow> content s = [] \<and> \<not> isSending s \<and> sends s = [] \<and> input_toasts s = []"


section \<open>Lemmas\<close>

lemma truthy_trim: "truthy_str (trim c) \<longleftrightarrow> trim c \<noteq> []"
  by (simp add: truthy_str_def)

lemma offered_input:
  "e \<in> offers (message_input_view s) \<Longrightarrow>
     \<not> disabled_prop s \<and> \<not> readOnly_prop s \<and>
     (\<exists>t k sh. e = Typed t \<or> e = KeyPressed k sh \<or> e = SendClicked)"
  by (auto simp: message_input_view_def split: if_splits)

lemma handleSend_cases:
  "handleSend s = s \<or>
     handleSend s = s\<lparr>isSending := True, sends := sends s @ [trim (content s)]\<rparr>
       \<and> \<not> isSending s \<and> trim (content s) \<noteq> []"
  by (simp add: handleSend_def truthy_trim Let_def)

text \<open>Every step either leaves the sends alone or adds one, from an enabled box that is not sending.\<close>

lemma input_step_cases:
  assumes "input_step s e t"
  shows "sends t = sends s \<and> (if settles e then isSending s \<and> \<not> isSending t else isSending t = isSending s)
    \<or> sends t = sends s @ [trim (content s)] \<and> trim (content s) \<noteq> [] \<and> \<not> isSending s \<and> isSending t
      \<and> \<not> disabled_prop s \<and> \<not> readOnly_prop s \<and> \<not> settles e"
  using assms
proof (cases rule: input_step.cases)
  case user_event
  from offered_input [OF this(2)] show ?thesis
    unfolding user_event(1) using handleSend_cases [of s]
    by (auto simp: handleKeyDown_def split: if_splits)
next
  case send_settles
  then show ?thesis by (cases e) (auto simp: send_resolved_def send_rejected_def)
qed auto

text \<open>The ends of sends in a run.\<close>

definition settled_sends :: "input_event list \<Rightarrow> nat" where
  "settled_sends es = length (filter settles es)"

definition input_inv :: "message_input \<Rightarrow> bool" where
  "input_inv s \<longleftrightarrow> (\<forall>c \<in> set (sends s). c \<noteq> [] \<and> trim c = c)"

interpretation input: invariant_machine input_init input_step input_inv
proof
  fix s e t assume "input_inv s" "input_step s e t"
  then show "input_inv t"
    using input_step_cases [of s e t] by (auto simp: input_inv_def trim_trim)
qed (simp add: input_init_def input_inv_def)

lemma sends_counted:
  "run input_step s es t \<Longrightarrow>
     length (sends t) + of_bool (isSending s) = length (sends s) + settled_sends es + of_bool (isSending t)"
proof (induction rule: run.induct)
  case (run_Cons s e t es u)
  then show ?case
    using input_step_cases [OF run_Cons(1)]
    by (auto simp: settled_sends_def split: if_splits)
qed (simp add: settled_sends_def)


section \<open>Properties\<close>

text \<open>
  C29: a message box sends one message at a time, and only what should be sent: on every run, whatever
  is typed, pressed and clicked while sends settle and the parent changes its mind, the contents handed
  on are trimmed and not empty, at most one of them is unsettled, and a send starts only while the
  room is neither popped nor read-only.
\<close>

theorem input_sends_one_at_a_time:
  assumes "input_init s" and "run input_step s es t"
  shows "(\<forall>c \<in> set (sends t). c \<noteq> [] \<and> trim c = c)
    \<and> length (sends t) = settled_sends es + (if isSending t then 1 else 0)
    \<and> (\<forall>e u. input_step t e u \<and> sends u \<noteq> sends t \<longrightarrow> \<not> disabled_prop t \<and> \<not> readOnly_prop t \<and> \<not> isSending t)"
proof -
  have "input_inv t" using input.run_keeps_inv [OF assms(2)] input.inv_init [OF assms(1)] by blast
  moreover have "length (sends t) = settled_sends es + (if isSending t then 1 else 0)"
    using sends_counted [OF assms(2)] assms(1) by (simp add: input_init_def)
  moreover have "\<forall>e u. input_step t e u \<and> sends u \<noteq> sends t \<longrightarrow>
      \<not> disabled_prop t \<and> \<not> readOnly_prop t \<and> \<not> isSending t"
    using input_step_cases by blast
  ultimately show ?thesis unfolding input_inv_def by blast
qed

lemma input_run_Cons:
  "e \<in> offers (message_input_view s) \<or> isSending s \<and> settles e \<Longrightarrow>
     run input_step (input_apply e s) es t \<Longrightarrow> run input_step s (e # es) t"
  by (auto intro: run_Cons user_event send_settles)

definition sample_input :: message_input where
  "sample_input = \<lparr>content = [], isSending = False, disabled_prop = False, readOnly_prop = False,
     sends = [], input_toasts = []\<rparr>"

text \<open>A message is typed and sent with the enter key; more is typed before the send settles.\<close>

lemma sample_run:
  "run input_step sample_input [Typed '' hi '', KeyPressed ''Enter'' False, Typed ''next'', SendResolved]
     (sample_input\<lparr>sends := [''hi'']\<rparr>)"
proof -
  have t: "trim '' hi '' = ''hi''" by code_simp
  let ?es = "[Typed '' hi '', KeyPressed ''Enter'' False, Typed ''next'', SendResolved]"
  have "run input_step sample_input ?es (input_apply SendResolved (input_apply (Typed ''next'')
      (input_apply (KeyPressed ''Enter'' False) (input_apply (Typed '' hi '') sample_input))))"
    by (intro input_run_Cons run_Nil)
      (auto simp: t sample_input_def message_input_view_def handleKeyDown_def handleSend_def truthy_str_def)
  then show ?thesis
    by (simp add: t sample_input_def handleKeyDown_def handleSend_def truthy_str_def send_resolved_def)
qed

theorem input_sends_one_at_a_time_witness:
  "settled_sends [Typed '' hi '', KeyPressed ''Enter'' False, Typed ''next'', SendResolved] = 1"
proof -
  have "input_init sample_input" by (simp add: input_init_def sample_input_def)
  from input_sends_one_at_a_time [OF this sample_run] show ?thesis by (simp add: sample_input_def)
qed

text \<open>
  When a send settles, a failure keeps the text and says so, and a success clears the box, whatever
  is in it: the box stays open to typing during a send, so what was typed since is lost.
\<close>

theorem input_settles:
  "content (send_rejected err s) = content s
    \<and> input_toasts (send_rejected err s) = input_toasts s @ [''Failed to send: '' @ getErrorMessage err]
    \<and> \<not> isSending (send_rejected err s) \<and> \<not> isSending (send_resolved s)
    \<and> content (send_resolved s) = []
    \<and> (\<exists>t. run input_step sample_input
             [Typed '' hi '', KeyPressed ''Enter'' False, Typed ''next'', SendResolved] t
         \<and> sends t = [''hi''] \<and> content t = [])"
  using sample_run by (auto simp: send_rejected_def send_resolved_def sample_input_def)

end
