(* ===== verification/Message_View.thy ===== *)
theory Message_View
  imports Ui_Base Message_Feed
begin

text \<open>
  What a room shows of its messages, under \<^verbatim>\<open>src/frontend/src/features/chat/components\<close>:
  \<open>message-bubble.tsx\<close> with its editor, \<open>message-list.tsx\<close> and \<open>system-message-bubble.tsx\<close>. The
  format of a time is a function of the browser and a parameter.
\<close>


section \<open>message-bubble.tsx\<close>

text \<open>
  \<open>edits\<close> and \<open>deletes\<close> are history: the calls of \<open>onEdit\<close> and \<open>onDelete\<close>; \<open>saving\<close> counts the
  edits that have not settled.
\<close>

record bubble =
  bub_message :: message
  isOwn :: bool
  bub_readOnly :: bool
  isEditing :: bool
  editContent :: string
  isSaving :: bool
  edits :: "(string \<times> string) list"
  deletes :: "string list"
  bub_toasts :: "string list"
  saving :: nat

definition isOptimistic :: "message \<Rightarrow> bool" where
  "isOptimistic m \<longleftrightarrow> starts_with (msg_id m) ''optimistic-''"

definition isDeleted :: "message \<Rightarrow> bool" where
  "isDeleted m \<longleftrightarrow> msg_content m = [] \<and> msg_type m = TEXT"

definition handleSaveEdit :: "bubble \<Rightarrow> bubble" where
  "handleSaveEdit s =
     (if \<not> truthy_str (trim (editContent s)) \<or> editContent s = msg_content (bub_message s)
      then s\<lparr>isEditing := False\<rparr>
      else s\<lparr>isSaving := True, edits := edits s @ [(msg_id (bub_message s), editContent s)],
             saving := saving s + 1\<rparr>)"

definition save_resolved :: "bubble \<Rightarrow> bubble" where
  "save_resolved s = s\<lparr>isEditing := False, isSaving := False, saving := saving s - 1\<rparr>"

definition save_rejected :: "js_error \<Rightarrow> bubble \<Rightarrow> bubble" where
  "save_rejected err s =
     s\<lparr>bub_toasts := bub_toasts s @ [''Failed to edit: '' @ getErrorMessage err], isSaving := False,
       saving := saving s - 1\<rparr>"

definition handleCancelEdit :: "bubble \<Rightarrow> bubble" where
  "handleCancelEdit s = s\<lparr>editContent := msg_content (bub_message s), isEditing := False\<rparr>"

definition bubble_handleDelete :: "bubble \<Rightarrow> bubble" where
  "bubble_handleDelete s = s\<lparr>deletes := deletes s @ [msg_id (bub_message s)]\<rparr>"

definition delete_rejected :: "js_error \<Rightarrow> bubble \<Rightarrow> bubble" where
  "delete_rejected err s =
     s\<lparr>bub_toasts := bub_toasts s @ [''Failed to delete: '' @ getErrorMessage err]\<rparr>"

datatype bubble_event =
    EditClicked
  | EditTyped string
  | EditKey string bool
  | CancelClicked
  | SaveClicked
  | DeleteClicked
  | SaveResolved
  | SaveRejected js_error
  | DeleteRejected js_error
  | MessageChanged message
  | ReadOnlyChanged bool

definition editor_view :: "bubble \<Rightarrow> bubble_event node list" where
  "editor_view s =
     [Fld [] True (editContent s) EditTyped, Keys True EditKey,
      Act ''Cancel edit'' (\<not> isSaving s) CancelClicked,
      Act ''Save edit'' (\<not> (isSaving s \<or> \<not> truthy_str (trim (editContent s)))) SaveClicked]"

definition bubble_view :: "(string \<Rightarrow> string) \<Rightarrow> bubble \<Rightarrow> bubble_event node list" where
  "bubble_view time s =
     (let m = bub_message s
      in if isDeleted m then []
         else cond_nodes (\<not> isOwn s) [Txt (msg_author_name m)]
           @ (if isEditing s then editor_view s else [Txt (msg_content m)])
           @ [Txt (time (msg_created_at m))]
           @ cond_nodes (truthy_ostr (msg_updated_at m) \<and> msg_updated_at m \<noteq> Some (msg_created_at m))
               [Txt ''(edited)'']
           @ cond_nodes (isOwn s \<and> \<not> isOptimistic m \<and> \<not> isEditing s \<and> \<not> bub_readOnly s)
               [Act ''Edit'' True EditClicked, Act ''Delete'' True DeleteClicked])"

fun bubble_apply :: "bubble_event \<Rightarrow> bubble \<Rightarrow> bubble" where
  "bubble_apply EditClicked s = s\<lparr>isEditing := True\<rparr>"
| "bubble_apply (EditTyped t) s = s\<lparr>editContent := t\<rparr>"
| "bubble_apply (EditKey key shift) s =
     (let s1 = (if key = ''Enter'' \<and> \<not> shift then handleSaveEdit s else s)
      in if key = ''Escape'' then handleCancelEdit s1 else s1)"
| "bubble_apply CancelClicked s = handleCancelEdit s"
| "bubble_apply SaveClicked s = handleSaveEdit s"
| "bubble_apply DeleteClicked s = bubble_handleDelete s"
| "bubble_apply SaveResolved s = save_resolved s"
| "bubble_apply (SaveRejected err) s = save_rejected err s"
| "bubble_apply (DeleteRejected err) s = delete_rejected err s"
| "bubble_apply (MessageChanged m) s = s\<lparr>bub_message := m\<rparr>"
| "bubble_apply (ReadOnlyChanged r) s = s\<lparr>bub_readOnly := r\<rparr>"

text \<open>
  The list keys a bubble by the id of its message, so a bubble keeps its id, author and type while
  its message changes.
\<close>

inductive bubble_step :: "(string \<Rightarrow> string) \<Rightarrow> bubble \<Rightarrow> bubble_event \<Rightarrow> bubble \<Rightarrow> bool"
  for time :: "string \<Rightarrow> string" where
  user_acts: "e \<in> offers (bubble_view time s) \<Longrightarrow> bubble_step time s e (bubble_apply e s)"
| save_settles: "0 < saving s \<Longrightarrow> e = SaveResolved \<or> (\<exists>err. e = SaveRejected err) \<Longrightarrow>
    bubble_step time s e (bubble_apply e s)"
| delete_fails: "deletes s \<noteq> [] \<Longrightarrow>
    bubble_step time s (DeleteRejected err) (bubble_apply (DeleteRejected err) s)"
| message_changes: "msg_id m = msg_id (bub_message s) \<Longrightarrow>
    bubble_step time s (MessageChanged m) (bubble_apply (MessageChanged m) s)"
| read_only: "bubble_step time s (ReadOnlyChanged r) (bubble_apply (ReadOnlyChanged r) s)"

text \<open>A bubble as it is mounted for a message.\<close>

definition mount_bubble :: "message \<Rightarrow> bool \<Rightarrow> bool \<Rightarrow> bubble" where
  "mount_bubble m own ro =
     \<lparr>bub_message = m, isOwn = own, bub_readOnly = ro, isEditing = False, editContent = msg_content m,
      isSaving = False, edits = [], deletes = [], bub_toasts = [], saving = 0\<rparr>"

lemmas bubble_defs = bubble_view_def editor_view_def handleSaveEdit_def handleCancelEdit_def
  bubble_handleDelete_def save_resolved_def save_rejected_def delete_rejected_def


section \<open>message-list.tsx\<close>

text \<open>
  The list is shown from the oldest message to the newest; a message is the reader's own when its
  author is the signed-in user.
\<close>

definition own_message :: "user option \<Rightarrow> message \<Rightarrow> bool" where
  "own_message u m \<longleftrightarrow> Some (msg_author_id m) = map_option user_id u"

definition list_items :: "user option \<Rightarrow> message list \<Rightarrow> (message \<times> bool) list" where
  "list_items u ms = map (\<lambda>m. (m, own_message u m)) (rev ms)"

datatype list_event = LoadOlder | ScrollDown

record message_list =
  autoScroll :: bool
  prevLength :: nat

text \<open>Scroll position, height of the content and of the window, in pixels.\<close>

type_synonym geometry = "int \<times> int \<times> int"

definition near_bottom :: "geometry \<Rightarrow> bool" where
  "near_bottom g = (case g of (scrollTop, scrollHeight, clientHeight) \<Rightarrow>
     scrollHeight - scrollTop - clientHeight < 200)"

definition handleScroll :: "geometry \<Rightarrow> message_list \<Rightarrow> message_list" where
  "handleScroll g s = s\<lparr>autoScroll := near_bottom g\<rparr>"

text \<open>
  The two effects after a render that changed the number of messages: whether either scrolls to the
  bottom, and the new state.
\<close>

definition length_changed :: "nat \<Rightarrow> geometry \<Rightarrow> message_list \<Rightarrow> bool \<times> message_list" where
  "length_changed n g s =
     (autoScroll s \<or> prevLength s < n \<and> near_bottom g, s\<lparr>prevLength := n\<rparr>)"

definition scroll_clicked :: "message_list \<Rightarrow> message_list" where
  "scroll_clicked s = s\<lparr>autoScroll := True\<rparr>"

definition message_list_view ::
    "bool \<Rightarrow> bool \<Rightarrow> bool \<Rightarrow> message list \<Rightarrow> message_list \<Rightarrow> list_event node list" where
  "message_list_view loading hasNextPage isFetchingNextPage ms s =
     (if loading then [Txt ''spinner'']
      else cond_nodes hasNextPage [Act ''Load older messages'' (\<not> isFetchingNextPage) LoadOlder]
        @ cond_nodes (ms = [] \<and> \<not> loading) [Txt ''No messages yet'', Txt ''Be the first to say something'']
        @ cond_nodes (\<not> autoScroll s \<and> 0 < length ms) [Act ''Scroll to bottom'' True ScrollDown])"


section \<open>system-message-bubble.tsx\<close>

definition system_bubble_view :: "(string \<Rightarrow> string) \<Rightarrow> system_message \<Rightarrow> 'e node list" where
  "system_bubble_view time m =
     [Txt (sys_user_name m),
      Txt (if sys_type m = user_joined then ''joined the chat'' else ''left the chat''),
      Txt (time (sys_timestamp m))]"


section \<open>Lemmas\<close>

lemma offered_by_bubble:
  "e \<in> offers (bubble_view time s) \<Longrightarrow>
     isEditing s \<and> (\<exists>t k sh. e = EditTyped t \<or> e = EditKey k sh \<or> e = CancelClicked \<or> e = SaveClicked)
     \<or> (e = EditClicked \<or> e = DeleteClicked) \<and> isOwn s \<and> \<not> isOptimistic (bub_message s)
       \<and> \<not> isEditing s \<and> \<not> bub_readOnly s"
  by (auto simp: bubble_view_def editor_view_def Let_def split: if_splits)

text \<open>What holds of a bubble on every run.\<close>

definition bubble_inv :: "bubble \<Rightarrow> bool" where
  "bubble_inv s \<longleftrightarrow>
     ((isEditing s \<or> edits s \<noteq> [] \<or> deletes s \<noteq> [] \<or> isSaving s) \<longrightarrow>
        isOwn s \<and> \<not> isOptimistic (bub_message s))
     \<and> (\<forall>(i, c) \<in> set (edits s). i = msg_id (bub_message s) \<and> trim c \<noteq> [])
     \<and> (\<forall>i \<in> set (deletes s). i = msg_id (bub_message s))"

lemma isOptimistic_id: "msg_id m = msg_id n \<Longrightarrow> isOptimistic m = isOptimistic n"
  by (simp add: isOptimistic_def)

lemma save_edit_inv: "bubble_inv s \<Longrightarrow> isEditing s \<Longrightarrow> bubble_inv (handleSaveEdit s)"
  by (auto simp: bubble_inv_def handleSaveEdit_def truthy_str_def)

lemma cancel_edit_inv: "bubble_inv s \<Longrightarrow> bubble_inv (handleCancelEdit s)"
  by (auto simp: bubble_inv_def handleCancelEdit_def)

lemma bubble_inv_user:
  assumes "bubble_inv s" and "e \<in> offers (bubble_view time s)"
  shows "bubble_inv (bubble_apply e s)"
proof (cases e)
  case (EditKey k sh)
  then have "isEditing s" using offered_by_bubble [OF assms(2)] by auto
  with EditKey assms(1) show ?thesis by (simp add: save_edit_inv cancel_edit_inv Let_def)
next
  case SaveClicked
  then have "isEditing s" using offered_by_bubble [OF assms(2)] by auto
  with SaveClicked assms(1) show ?thesis by (simp add: save_edit_inv)
qed (use assms(1) offered_by_bubble [OF assms(2)] in
    \<open>auto simp: bubble_inv_def bubble_handleDelete_def cancel_edit_inv handleCancelEdit_def\<close>)

interpretation bubble: invariant_machine
  "\<lambda>s. \<exists>m own ro. s = mount_bubble m own ro" "bubble_step time" bubble_inv for time
proof
  fix s e t assume "bubble_inv s" "bubble_step time s e t"
  from this(2,1) show "bubble_inv t"
  proof (cases rule: bubble_step.cases)
    case user_acts
    with bubble_inv_user \<open>bubble_inv s\<close> show ?thesis by blast
  next
    case (message_changes m)
    with \<open>bubble_inv s\<close> isOptimistic_id [of m "bub_message s"] show ?thesis
      by (auto simp: bubble_inv_def)
  qed (auto simp: bubble_inv_def save_resolved_def save_rejected_def delete_rejected_def)
qed (auto simp: bubble_inv_def mount_bubble_def)

text \<open>The executable form of the user's and the parent's steps, for the examples.\<close>

fun bubble_can :: "(string \<Rightarrow> string) \<Rightarrow> bubble \<Rightarrow> bubble_event \<Rightarrow> bool" where
  "bubble_can time s (MessageChanged m) = (msg_id m = msg_id (bub_message s))"
| "bubble_can time s (ReadOnlyChanged r) = True"
| "bubble_can time s (SaveResolved) = (0 < saving s)"
| "bubble_can time s (SaveRejected err) = (0 < saving s)"
| "bubble_can time s (DeleteRejected err) = (deletes s \<noteq> [])"
| "bubble_can time s e = (e \<in> offers (bubble_view time s))"

lemma bubble_run_Cons:
  "bubble_can time s e \<Longrightarrow> run (bubble_step time) (bubble_apply e s) es t \<Longrightarrow> run (bubble_step time) s (e # es) t"
  by (cases e) (auto intro!: run_Cons intro: bubble_step.intros)


section \<open>Properties\<close>

text \<open>
  C30: a bubble acts for its own message and its author only. On every run, whatever the user does and
  however often the message changes, each call of \<open>onEdit\<close> and \<open>onDelete\<close> names the message of the
  bubble, edits are never blank, both happen only on the reader's own messages, and a control offered
  outside the editor appears only while the session is not read-only; a deleted message shows nothing.
\<close>

theorem bubble_acts_for_author:
  assumes "run (bubble_step time) (mount_bubble m own ro) es s"
  shows "(\<forall>(i, c) \<in> set (edits s). i = msg_id (bub_message s) \<and> trim c \<noteq> [])
    \<and> (\<forall>i \<in> set (deletes s). i = msg_id (bub_message s))
    \<and> (edits s \<noteq> [] \<or> deletes s \<noteq> [] \<longrightarrow> isOwn s)
    \<and> (\<forall>e \<in> offers (bubble_view time s). isOwn s \<and> (bub_readOnly s \<longrightarrow> isEditing s))
    \<and> (isDeleted (bub_message s) \<longrightarrow> bubble_view time s = [])"
proof -
  have "bubble_inv s" using bubble.run_keeps_inv [OF assms] bubble.inv_init by blast
  then show ?thesis
    using offered_by_bubble [of _ time s]
    by (auto simp: bubble_inv_def) (auto simp: bubble_view_def Let_def)
qed

definition own_bubble :: bubble where
  "own_bubble = mount_bubble (msg_at ''m1'' ''t1'' ''helo'') True False"

lemma edit_run:
  "\<exists>s. run (bubble_step id) own_bubble [EditClicked, EditTyped ''hello'', EditKey ''Enter'' False, EditKey ''Enter'' False] s
     \<and> edits s = [(''m1'', ''hello''), (''m1'', ''hello'')]"
proof -
  have t: "trim ''hello'' = ''hello''" by code_simp
  let ?es = "[EditClicked, EditTyped ''hello'', EditKey ''Enter'' False, EditKey ''Enter'' False]"
  have "run (bubble_step id) own_bubble ?es (fold bubble_apply ?es own_bubble)"
    unfolding fold.simps comp_def id_def
    by (intro bubble_run_Cons run_Nil)
      (auto simp: own_bubble_def mount_bubble_def msg_at_def bubble_defs isDeleted_def isOptimistic_def Let_def t
        truthy_str_def)
  moreover have "edits (fold bubble_apply ?es own_bubble) = [(''m1'', ''hello''), (''m1'', ''hello'')]"
    by (simp add: own_bubble_def mount_bubble_def msg_at_def handleSaveEdit_def t truthy_str_def Let_def)
  ultimately show ?thesis by blast
qed

theorem bubble_acts_for_author_witness:
  "\<exists>s :: bubble. isOwn s \<and> edits s \<noteq> [] \<and> (\<forall>(i, c) \<in> set (edits s). i = msg_id (bub_message s))"
proof -
  obtain s where s: "run (bubble_step id) own_bubble
      [EditClicked, EditTyped ''hello'', EditKey ''Enter'' False, EditKey ''Enter'' False] s"
    "edits s = [(''m1'', ''hello''), (''m1'', ''hello'')]"
    using edit_run by blast
  note acts = bubble_acts_for_author [OF s(1) [unfolded own_bubble_def]]
  from s(2) have "edits s \<noteq> []" by simp
  moreover from this have "isOwn s" using acts [THEN conjunct2, THEN conjunct2, THEN conjunct1] by simp
  moreover have "\<forall>(i, c) \<in> set (edits s). i = msg_id (bub_message s)"
    using acts [THEN conjunct1] by (simp add: s(2))
  ultimately show ?thesis by blast
qed

text \<open>
  The editor is less careful than the buttons around it. The enter key does not look at a pending
  save, so pressing it twice edits twice; an editor that is open stays usable when the session turns
  read-only; and it starts from the text the bubble was mounted with, so after the message was changed
  elsewhere, opening the editor and saving puts the old text back.
\<close>

theorem bubble_editor_gaps:
  "(\<exists>s. run (bubble_step id) own_bubble [EditClicked, EditTyped ''hello'', EditKey ''Enter'' False, EditKey ''Enter'' False] s
       \<and> edits s = [(''m1'', ''hello''), (''m1'', ''hello'')])
   \<and> (\<exists>s. run (bubble_step id) own_bubble [EditClicked, ReadOnlyChanged True, EditTyped ''hello'', SaveClicked] s
       \<and> bub_readOnly s \<and> edits s = [(''m1'', ''hello'')])
   \<and> (\<exists>s. run (bubble_step id) own_bubble [MessageChanged (msg_at ''m1'' ''t1'' ''hello''), EditClicked, SaveClicked] s
       \<and> msg_content (bub_message s) = ''hello'' \<and> edits s = [(''m1'', ''helo'')])"
proof (intro conjI)
  have t: "trim ''hello'' = ''hello''" "trim ''helo'' = ''helo''" by code_simp+
  let ?ro = "[EditClicked, ReadOnlyChanged True, EditTyped ''hello'', SaveClicked]"
  let ?ch = "[MessageChanged (msg_at ''m1'' ''t1'' ''hello''), EditClicked, SaveClicked]"
  note d = own_bubble_def mount_bubble_def msg_at_def bubble_defs isDeleted_def isOptimistic_def Let_def t
    truthy_str_def
  have "run (bubble_step id) own_bubble ?ro (fold bubble_apply ?ro own_bubble)"
    unfolding fold.simps comp_def id_def by (intro bubble_run_Cons run_Nil) (auto simp: d)
  moreover have "bub_readOnly (fold bubble_apply ?ro own_bubble)"
    "edits (fold bubble_apply ?ro own_bubble) = [(''m1'', ''hello'')]" by (simp_all add: d)
  ultimately show "\<exists>s. run (bubble_step id) own_bubble ?ro s \<and> bub_readOnly s \<and> edits s = [(''m1'', ''hello'')]"
    by blast
  have "run (bubble_step id) own_bubble ?ch (fold bubble_apply ?ch own_bubble)"
    unfolding fold.simps comp_def id_def by (intro bubble_run_Cons run_Nil) (auto simp: d)
  moreover have "msg_content (bub_message (fold bubble_apply ?ch own_bubble)) = ''hello''"
    "edits (fold bubble_apply ?ch own_bubble) = [(''m1'', ''helo'')]" by (simp_all add: d)
  ultimately show "\<exists>s. run (bubble_step id) own_bubble ?ch s \<and> msg_content (bub_message s) = ''hello''
      \<and> edits s = [(''m1'', ''helo'')]" by blast
qed (rule edit_run)

text \<open>
  The list shows every message of the feed once, oldest first, and marks as own exactly those of the
  signed-in user; new messages carry the reader along exactly when the bottom was in view at the last
  scroll or is now: who has scrolled up stays there.
\<close>

theorem list_shows_feed:
  "map fst (list_items u ms) = rev ms
    \<and> (\<forall>(m, own) \<in> set (list_items u ms). own = (\<exists>v. u = Some v \<and> msg_author_id m = user_id v))
    \<and> fst (length_changed n g (handleScroll h s)) = (near_bottom h \<or> prevLength s < n \<and> near_bottom g)
    \<and> offers (message_list_view loading hasMore fetching ms (handleScroll h s)) =
        (if loading then {}
         else (if hasMore \<and> \<not> fetching then {LoadOlder} else {})
           \<union> (if \<not> near_bottom h \<and> ms \<noteq> [] then {ScrollDown} else {}))"
  by (cases u) (auto simp: list_items_def own_message_def length_changed_def handleScroll_def
      message_list_view_def comp_def)

theorem list_shows_feed_witness:
  "list_items (Some sample_user) [msg_at ''m2'' ''t2'' ''b'', msg_at ''m1'' ''t1'' ''a'']
   = [(msg_at ''m1'' ''t1'' ''a'', True), (msg_at ''m2'' ''t2'' ''b'', True)]"
proof -
  have "\<forall>(m, own) \<in> set (list_items (Some sample_user) [msg_at ''m2'' ''t2'' ''b'', msg_at ''m1'' ''t1'' ''a'']).
      own = (\<exists>v. Some sample_user = Some v \<and> msg_author_id m = user_id v)"
    using list_shows_feed by blast
  then show ?thesis by (simp add: list_items_def msg_at_def sample_user_def)
qed

end
