(* ===== verification/Chat_Page.thy ===== *)
theory Chat_Page
  imports Message_Input Message_View Room_Dialogs
begin

text \<open>
  The page of a room, \<^verbatim>\<open>src/frontend/src/app/(main)/chat/[roomId]/page.tsx\<close>, with the mutations it
  takes from \<^verbatim>\<open>features/chat/hooks/use-messages.ts\<close>. The page puts the message list, the message box
  and the dialogs together: their states are arguments of its view, their events are events of the
  page. The requests of one handler run to their end here; what may happen in between is the subject of
  \<open>Message_Feed\<close>.
\<close>


section \<open>The mutations of a room's messages\<close>

definition messages_key :: "string \<Rightarrow> query_key" where
  "messages_key roomId = [KStr ''messages'', KStr roomId]"

definition createMsg :: "'w platform \<Rightarrow> string \<Rightarrow> (string \<times> string, 'w) mutation" where
  "createMsg pl roomId =
     \<lparr>mutationFn = (\<lambda>(i, text_sent). createMessage pl roomId
        \<lparr>cm_id = i, cm_content = text_sent, cm_message_type = TEXT\<rparr>),
      onSuccess = [Invalidate (messages_key roomId)],
      onFailure = (\<lambda>err. [ToastFailure ''Failed to send message''])\<rparr>"

definition editMsg :: "'w platform \<Rightarrow> string \<Rightarrow> (string \<times> string, 'w) mutation" where
  "editMsg pl roomId =
     \<lparr>mutationFn = (\<lambda>(i, text_sent). updateMessage pl roomId i text_sent), onSuccess = [],
      onFailure = (\<lambda>err. [ToastFailure (''Failed to edit message: '' @ getErrorMessage err)])\<rparr>"

definition deleteMsg :: "'w platform \<Rightarrow> string \<Rightarrow> (string, 'w) mutation" where
  "deleteMsg pl roomId =
     \<lparr>mutationFn = deleteMessage pl roomId, onSuccess = [],
      onFailure = (\<lambda>err. [ToastFailure (''Failed to delete message: '' @ getErrorMessage err)])\<rparr>"


section \<open>State and handlers\<close>

text \<open>\<open>poll\<close> is the interval of the session check, in milliseconds, while it is set.\<close>

record 'w chat_page = "'w page_state" +
  cp_feed :: "feed option"
  inviteOpen :: bool
  membersOpen :: bool
  poll :: "nat option"

definition AUTH_HEALTH_POLL_MS :: nat where
  "AUTH_HEALTH_POLL_MS = 30000"

definition start_poll :: "'w chat_page \<Rightarrow> 'w chat_page" where
  "start_poll s = s\<lparr>poll := Some AUTH_HEALTH_POLL_MS\<rparr>"

definition stop_poll :: "'w chat_page \<Rightarrow> 'w chat_page" where
  "stop_poll s = s\<lparr>poll := None\<rparr>"

definition poll_tick :: "'w platform \<Rightarrow> ('w chat_page, js_error, unit) act" where
  "poll_tick pl =
     andThen (get_state poll) (\<lambda>p.
       if p = None then ret () else andThen (on_session (checkSession pl)) (\<lambda>_. ret ()))"

definition isPopped :: "room option \<Rightarrow> bool" where
  "isPopped rm = truthy_ostr (Option.bind rm room_popped_at)"

text \<open>
  \<open>createMessage\<close> of the hook with the identifier it draws and the time: the optimistic message, the
  request, and on failure the snapshot. Reading the user that is not there throws before anything changes.
\<close>

definition page_handleSend ::
    "'w platform \<Rightarrow> string \<Rightarrow> string \<Rightarrow> string \<Rightarrow> string \<Rightarrow> ('w chat_page, js_error, unit) act" where
  "page_handleSend pl roomId uuid now text_sent =
     andThen (get_state (\<lambda>s. auth_user (session s))) (\<lambda>u.
     case u of
       None \<Rightarrow>
         andThen (emit [ToastFailure ''Failed to send message''])
           (\<lambda>_. throw (JsError ''Cannot read properties of null''))
     | Some v \<Rightarrow>
         andThen (get_state cp_feed) (\<lambda>previous.
         andThen (modify (\<lambda>s. s\<lparr>cp_feed := onMutate (optimistic_message uuid roomId v now text_sent) previous\<rparr>)) (\<lambda>_.
         catching (andThen (mutateAsync (createMsg pl roomId) (uuid, text_sent)) (\<lambda>_. ret ()))
           (\<lambda>err. andThen (modify (\<lambda>s. s\<lparr>cp_feed := onError previous (cp_feed s)\<rparr>)) (\<lambda>_. throw err)))))"

definition handleEdit :: "'w platform \<Rightarrow> string \<Rightarrow> string \<Rightarrow> string \<Rightarrow> ('w chat_page, js_error, unit) act" where
  "handleEdit pl roomId messageId text_sent =
     andThen (mutateAsync (editMsg pl roomId) (messageId, text_sent)) (\<lambda>_. ret ())"

definition page_handleDelete :: "'w platform \<Rightarrow> string \<Rightarrow> string \<Rightarrow> ('w chat_page, js_error, unit) act" where
  "page_handleDelete pl roomId messageId =
     andThen (mutateAsync (deleteMsg pl roomId) messageId) (\<lambda>_. ret ())"


section \<open>What the page renders\<close>

datatype chat_page_event =
    MembersShown | PopClicked | InviteShown | SettingsShown
  | InputEvent input_event
  | BubbleEvent string bubble_event
  | ListEvent list_event
  | InviteDialogEvent invite_event
  | MembersDialogEvent members_event

record chat_queries =
  cq_room_loading :: bool
  cq_room :: "room option"
  cq_member :: "room_member option"
  cq_loading :: bool
  cq_hasNext :: bool
  cq_fetchingNext :: bool
  cq_pop_pending :: bool
  cq_invite_pending :: bool
  cq_members_loading :: bool
  cq_members_error :: "js_error option"
  cq_members :: "room_member list"

definition page_isAdmin :: "chat_queries \<Rightarrow> 'w chat_page \<Rightarrow> bool" where
  "page_isAdmin q s = useIsAdmin (cq_room q) (cq_member q) (auth_user (session s))"

definition chat_header :: "chat_queries \<Rightarrow> 'w chat_page \<Rightarrow> chat_page_event node list" where
  "chat_header q s =
     [Txt (case cq_room q of None \<Rightarrow> ''Loading...'' | Some r \<Rightarrow> room_name r)]
     @ some_nodes (map_option room_description (cq_room q)) (\<lambda>d. [Txt d])
     @ cond_nodes (isPopped (cq_room q)) [Txt ''Popped'']
     @ [Act ''Members'' True MembersShown]
     @ cond_nodes (page_isAdmin q s)
         (cond_nodes (\<not> isPopped (cq_room q)) [Act ''Pop Room'' (\<not> cq_pop_pending q) PopClicked]
          @ [Act ''Invite Link'' True InviteShown])
     @ [Act ''Room Settings'' True SettingsShown]"

text \<open>Each bubble keeps its own state and is given its message, whose it is, and the read-only flag.\<close>

definition bubble_for :: "(string \<Rightarrow> bubble) \<Rightarrow> bool \<Rightarrow> message \<times> bool \<Rightarrow> bubble" where
  "bubble_for bubbles ro item =
     (bubbles (msg_id (fst item)))\<lparr>bub_message := fst item, isOwn := snd item, bub_readOnly := ro\<rparr>"

definition message_items ::
    "(string \<Rightarrow> string) \<Rightarrow> (string \<Rightarrow> bubble) \<Rightarrow> bool \<Rightarrow> user option \<Rightarrow> message list \<Rightarrow> chat_page_event node list" where
  "message_items time bubbles ro u ms =
     map (\<lambda>item. Box (map_nodes (BubbleEvent (msg_id (fst item))) (bubble_view time (bubble_for bubbles ro item))))
       (list_items u ms)"

definition ChatPage ::
    "(string \<Rightarrow> string) \<Rightarrow> chat_queries \<Rightarrow> (string \<Rightarrow> bubble) \<Rightarrow> message_list \<Rightarrow> message_input
      \<Rightarrow> 'w invite_dialog \<Rightarrow> 'w chat_page \<Rightarrow> chat_page_event node list" where
  "ChatPage time q bubbles ml inp ild s =
     (let ms = allMessages (cp_feed s); u = auth_user (session s); ro = readOnly (session s)
      in if cq_room_loading q then [Txt ''skeleton'']
         else chat_header q s
           @ map_nodes ListEvent (message_list_view (cq_loading q) (cq_hasNext q) (cq_fetchingNext q) ms ml)
           @ cond_nodes (\<not> cq_loading q) (message_items time bubbles ro u ms)
           @ map_nodes InputEvent
               (message_input_view (inp\<lparr>disabled_prop := isPopped (cq_room q), readOnly_prop := ro\<rparr>))
           @ cond_nodes (page_isAdmin q s)
               (map_nodes InviteDialogEvent (invite_view (cq_invite_pending q) (ild\<lparr>il_open := inviteOpen s\<rparr>)))
           @ map_nodes MembersDialogEvent
               (members_view (membersOpen s) (cq_members_loading q) (cq_members_error q) (cq_members q)))"

text \<open>The events the page handles itself.\<close>

definition chat_page_handle ::
    "'w platform \<Rightarrow> string \<Rightarrow> chat_page_event \<Rightarrow> ('w chat_page, js_error, unit) act" where
  "chat_page_handle pl roomId e =
     (case e of
        MembersShown \<Rightarrow> modify (\<lambda>s. s\<lparr>membersOpen := True\<rparr>)
      | PopClicked \<Rightarrow>
          andThen (get_state (\<lambda>s. auth_user (session s))) (\<lambda>u. mutate (usePopRoom pl u roomId) ())
      | InviteShown \<Rightarrow> modify (\<lambda>s. s\<lparr>inviteOpen := True\<rparr>)
      | SettingsShown \<Rightarrow> navigate (Push (''/chat/'' @ roomId @ ''/settings''))
      | InviteDialogEvent InviteClosed \<Rightarrow> modify (\<lambda>s. s\<lparr>inviteOpen := False\<rparr>)
      | MembersDialogEvent MembersClosed \<Rightarrow> modify (\<lambda>s. s\<lparr>membersOpen := False\<rparr>)
      | _ \<Rightarrow> ret ())"


section \<open>The parts together\<close>

text \<open>
  Sending from the box: the box calls the page's handler with the trimmed text, waits, and settles with
  its outcome. Saving an edit and deleting from a bubble likewise.
\<close>

definition box_send ::
    "'w platform \<Rightarrow> string \<Rightarrow> string \<Rightarrow> string \<Rightarrow> message_input \<times> 'w chat_page \<Rightarrow> message_input \<times> 'w chat_page" where
  "box_send pl roomId uuid now both =
     (let (box, s) = both; box1 = handleSend box
      in if sends box1 = sends box then (box1, s)
         else case page_handleSend pl roomId uuid now (last (sends box1)) s of
                (Inr _, t) \<Rightarrow> (send_resolved box1, t)
              | (Inl err, t) \<Rightarrow> (send_rejected err box1, t))"

definition bubble_save ::
    "'w platform \<Rightarrow> string \<Rightarrow> bubble \<times> 'w chat_page \<Rightarrow> bubble \<times> 'w chat_page" where
  "bubble_save pl roomId both =
     (let (b, s) = both; b1 = handleSaveEdit b
      in if edits b1 = edits b then (b1, s)
         else case handleEdit pl roomId (fst (last (edits b1))) (snd (last (edits b1))) s of
                (Inr _, t) \<Rightarrow> (save_resolved b1, t)
              | (Inl err, t) \<Rightarrow> (save_rejected err b1, t))"

lemma createMsg_request:
  assumes "createMessage pl roomId \<lparr>cm_id = i, cm_content = t, cm_message_type = TEXT\<rparr> (net (session s)) = (r, c)"
  shows "mutateAsync (createMsg pl roomId) (i, t) s =
    (r, s\<lparr>session := (session s)\<lparr>net := c\<rparr>, effects := effects s @ (case r of
       Inr res \<Rightarrow> [Invalidate (messages_key roomId)] | Inl e \<Rightarrow> [ToastFailure ''Failed to send message''])\<rparr>)"
  using assms by (subst mutateAsync_hook [OF createMsg_def]) auto

lemma editMsg_request:
  assumes "updateMessage pl roomId i t (net (session s)) = (r, c)"
  shows "mutateAsync (editMsg pl roomId) (i, t) s =
    (r, s\<lparr>session := (session s)\<lparr>net := c\<rparr>, effects := effects s @ (case r of
       Inr res \<Rightarrow> [] | Inl e \<Rightarrow> [ToastFailure (''Failed to edit message: '' @ getErrorMessage e)])\<rparr>)"
  using assms by (subst mutateAsync_hook [OF editMsg_def]) auto

lemma onMutate_first: "\<exists>ms. allMessages (onMutate m old) = m # ms"
  by (cases old rule: first_data_cases) (auto simp: onMutate_def allMessages_with)


section \<open>Properties\<close>

text \<open>
  C24: a message goes from the box to the server and into the list. Sending a text that is not blank makes
  one request, with the trimmed text under the identifier the page drew; the message shown first meanwhile
  carries that identifier and text. On success the box is empty, the message stays shown and the list is
  refetched; on failure the list is as it was before, the text stays in the box to be sent again, and the
  user reads two messages about it.
\<close>

theorem send_from_box:
  assumes "trim (content box) \<noteq> []" and "\<not> isSending box" and "auth_user (session s) = Some u"
    and "cp_feed s = Some f"
    and "createMessage pl roomId \<lparr>cm_id = uuid, cm_content = trim (content box), cm_message_type = TEXT\<rparr>
           (net (session s)) = (r, c)"
  shows "\<exists>box' s'. box_send pl roomId uuid now (box, s) = (box', s')
    \<and> sends box' = sends box @ [trim (content box)] \<and> \<not> isSending box'
    \<and> session s' = (session s)\<lparr>net := c\<rparr>
    \<and> (case r of
         Inr res \<Rightarrow> content box' = [] \<and> input_toasts box' = input_toasts box
           \<and> (\<exists>ms. allMessages (cp_feed s') = optimistic_message uuid roomId u now (trim (content box)) # ms)
           \<and> effects s' = effects s @ [Invalidate (messages_key roomId)]
       | Inl e \<Rightarrow> content box' = content box \<and> cp_feed s' = cp_feed s
           \<and> effects s' = effects s @ [ToastFailure ''Failed to send message'']
           \<and> input_toasts box' = input_toasts box @ [''Failed to send: '' @ getErrorMessage e])"
proof -
  let ?t = "trim (content box)"
  let ?m = "optimistic_message uuid roomId u now ?t"
  let ?s1 = "s\<lparr>cp_feed := onMutate ?m (cp_feed s)\<rparr>"
  have send: "handleSend box = box\<lparr>isSending := True, sends := sends box @ [?t]\<rparr>"
    using assms(1,2) by (simp add: handleSend_def truthy_str_def Let_def)
  have "createMessage pl roomId \<lparr>cm_id = uuid, cm_content = ?t, cm_message_type = TEXT\<rparr> (net (session ?s1)) = (r, c)"
    using assms(5) by simp
  note req = createMsg_request [OF this]
  show ?thesis
  proof (cases r)
    case (Inl e)
    then have "page_handleSend pl roomId uuid now ?t s = (Inl e, s\<lparr>session := (session s)\<lparr>net := c\<rparr>,
        effects := effects s @ [ToastFailure ''Failed to send message'']\<rparr>)"
      using req assms(3,4) by (simp add: page_handleSend_def act_simps onError_def)
    with Inl show ?thesis by (simp add: box_send_def send send_rejected_def)
  next
    case (Inr res)
    then have "page_handleSend pl roomId uuid now ?t s = (Inr (), ?s1\<lparr>session := (session s)\<lparr>net := c\<rparr>,
        effects := effects s @ [Invalidate (messages_key roomId)]\<rparr>)"
      using req assms(3) by (simp add: page_handleSend_def act_simps)
    with Inr onMutate_first [of ?m "cp_feed s"] show ?thesis
      by (simp add: box_send_def send send_resolved_def)
  qed
qed

definition sample_box :: message_input where
  "sample_box = \<lparr>content = '' hi '', isSending = False, disabled_prop = False, readOnly_prop = False,
     sends = [], input_toasts = []\<rparr>"

definition sample_chat_page :: "nat chat_page" where
  "sample_chat_page = \<lparr>session = fresh_app\<lparr>auth_user := Some sample_user\<rparr>, effects = [], navs = [],
     cp_feed = Some (seed_feed []), inviteOpen = False, membersOpen = False, poll = None\<rparr>"

theorem send_from_box_witness:
  "\<exists>box' s'. box_send sample_platform ''r1'' ''id1'' ''t9'' (sample_box, sample_chat_page) = (box', s')
     \<and> sends box' = [''hi''] \<and> \<not> isSending box'"
proof -
  have t: "trim (content sample_box) = ''hi''" "\<not> isSending sample_box" "sends sample_box = []"
    unfolding sample_box_def by code_simp+
  have p: "auth_user (session sample_chat_page) = Some sample_user" "cp_feed sample_chat_page = Some (seed_feed [])"
    by (simp_all add: sample_chat_page_def)
  obtain r c where "createMessage sample_platform ''r1'' \<lparr>cm_id = ''id1'', cm_content = trim (content sample_box),
      cm_message_type = TEXT\<rparr> (net (session sample_chat_page)) = (r, c)" by fastforce
  from send_from_box [OF _ t(2) p this, of "''t9''"] t show ?thesis by auto
qed


definition popped_room :: room where
  "popped_room = \<lparr>room_id = ''r1'', room_name = ''books'', room_description = [], room_max_members = 20,
     room_owner_id = ''u1'', room_role = None, room_created_at = ''t1'', room_updated_at = ''t1'',
     room_deleted_at = None, room_pop_at = Some ''t2'', room_popped_at = Some ''t2''\<rparr>"

definition sample_chat_queries :: "room \<Rightarrow> chat_queries" where
  "sample_chat_queries rm = \<lparr>cq_room_loading = False, cq_room = Some rm, cq_member = None, cq_loading = False,
     cq_hasNext = False, cq_fetchingNext = False, cq_pop_pending = False, cq_invite_pending = False,
     cq_members_loading = False, cq_members_error = None, cq_members = []\<rparr>"

definition own_text :: message where
  "own_text = optimistic_message ''m1'' ''r1'' sample_user ''t1'' ''hi''"

definition popped_page :: "nat chat_page" where
  "popped_page = sample_chat_page\<lparr>cp_feed := Some (seed_feed [own_text])\<rparr>"

definition idle_invite :: "nat invite_dialog" where
  "idle_invite = \<lparr>session = fresh_app, effects = [], navs = [], inviteUrl = None, copied = False,
     ttlHours = ''24'', singleUse = False, il_open = False, clipboard = None\<rparr>"

abbreviation popped_view :: "chat_page_event node list" where
  "popped_view \<equiv> ChatPage id (sample_chat_queries popped_room) (\<lambda>_. mount_bubble own_text True False)
     \<lparr>autoScroll = True, prevLength = 1\<rparr> sample_box idle_invite popped_page"

lemma popped_offers: "BubbleEvent ''m1'' EditClicked \<in> offers popped_view" "InviteShown \<in> offers popped_view"
proof -
  have own: "list_items (Some sample_user) [own_text] = [(own_text, True)]"
    by (simp add: list_items_def own_message_def own_text_def optimistic_message_def)
  have bub: "EditClicked \<in> offers (bubble_view id (bubble_for (\<lambda>_. mount_bubble own_text True False) False (own_text, True)))"
    "msg_id own_text = ''m1''"
    by (simp_all add: bubble_for_def mount_bubble_def bubble_view_def isDeleted_def isOptimistic_def
        own_text_def optimistic_message_def Let_def js_defs)
  have page: "auth_user (session popped_page) = Some sample_user" "\<not> readOnly (session popped_page)"
    "cq_room (sample_chat_queries popped_room) = Some popped_room" "allMessages (cp_feed popped_page) = [own_text]"
    "\<not> cq_room_loading (sample_chat_queries popped_room)" "\<not> cq_loading (sample_chat_queries popped_room)"
    by (simp_all add: popped_page_def sample_chat_page_def fresh_app_def sample_chat_queries_def)
  have adm: "page_isAdmin (sample_chat_queries popped_room) popped_page"
    using page by (simp add: page_isAdmin_def useIsAdmin_def popped_room_def sample_user_def)
  have items: "offers (message_items id (\<lambda>_. mount_bubble own_text True False) False (Some sample_user) [own_text])
      = BubbleEvent ''m1'' ` offers (bubble_view id (bubble_for (\<lambda>_. mount_bubble own_text True False) False (own_text, True)))"
    using bub(2) by (simp add: message_items_def own)
  show "BubbleEvent ''m1'' EditClicked \<in> offers popped_view"
    using bub(1) by (simp add: ChatPage_def Let_def page items)
  show "InviteShown \<in> offers popped_view"
    by (simp add: ChatPage_def Let_def page chat_header_def adm)
qed


text \<open>
  Saving an edit sends the text of the editor for the bubble's own message; on success the editor
  closes, on failure it stays open with the text, and the user reads two messages about it. In a popped
  room, where the server refuses every change, editing and deleting are still offered.
\<close>

theorem edit_from_bubble:
  assumes "trim (editContent b) \<noteq> []" and "editContent b \<noteq> msg_content (bub_message b)"
    and "updateMessage pl roomId (msg_id (bub_message b)) (editContent b) (net (session s)) = (r, c)"
  shows "(\<exists>b' s'. bubble_save pl roomId (b, s) = (b', s')
      \<and> edits b' = edits b @ [(msg_id (bub_message b), editContent b)] \<and> \<not> isSaving b'
      \<and> session s' = (session s)\<lparr>net := c\<rparr> \<and> cp_feed s' = cp_feed s
      \<and> (case r of
           Inr res \<Rightarrow> \<not> isEditing b' \<and> bub_toasts b' = bub_toasts b \<and> effects s' = effects s
         | Inl e \<Rightarrow> isEditing b' = isEditing b \<and> editContent b' = editContent b
             \<and> effects s' = effects s @ [ToastFailure (''Failed to edit message: '' @ getErrorMessage e)]
             \<and> bub_toasts b' = bub_toasts b @ [''Failed to edit: '' @ getErrorMessage e]))
    \<and> isPopped (Some popped_room) \<and> BubbleEvent ''m1'' EditClicked \<in> offers popped_view"
proof -
  have save: "handleSaveEdit b = b\<lparr>isSaving := True,
      edits := edits b @ [(msg_id (bub_message b), editContent b)], saving := saving b + 1\<rparr>"
    using assms(1,2) by (simp add: handleSaveEdit_def truthy_str_def)
  have "isPopped (Some popped_room)" by (simp add: isPopped_def popped_room_def js_defs)
  moreover have "\<exists>b' s'. bubble_save pl roomId (b, s) = (b', s')
      \<and> edits b' = edits b @ [(msg_id (bub_message b), editContent b)] \<and> \<not> isSaving b'
      \<and> session s' = (session s)\<lparr>net := c\<rparr> \<and> cp_feed s' = cp_feed s
      \<and> (case r of
           Inr res \<Rightarrow> \<not> isEditing b' \<and> bub_toasts b' = bub_toasts b \<and> effects s' = effects s
         | Inl e \<Rightarrow> isEditing b' = isEditing b \<and> editContent b' = editContent b
             \<and> effects s' = effects s @ [ToastFailure (''Failed to edit message: '' @ getErrorMessage e)]
             \<and> bub_toasts b' = bub_toasts b @ [''Failed to edit: '' @ getErrorMessage e])"
    by (cases r) (simp_all add: bubble_save_def save handleEdit_def editMsg_request [OF assms(3)] act_simps
        save_resolved_def save_rejected_def)
  ultimately show ?thesis using popped_offers(1) by blast
qed

theorem edit_from_bubble_witness:
  "\<exists>b' s'. bubble_save sample_platform ''r1'' (own_bubble\<lparr>editContent := ''x''\<rparr>, sample_chat_page) = (b', s') \<and> \<not> isSaving b'"
proof -
  let ?b = "own_bubble\<lparr>editContent := ''x''\<rparr>"
  have t: "trim (editContent ?b) \<noteq> []" unfolding own_bubble_def mount_bubble_def by code_simp
  have n: "editContent ?b \<noteq> msg_content (bub_message ?b)"
    by (simp add: own_bubble_def mount_bubble_def msg_at_def)
  obtain r c where "updateMessage sample_platform ''r1'' (msg_id (bub_message ?b)) (editContent ?b)
      (net (session sample_chat_page)) = (r, c)" by fastforce
  from edit_from_bubble [OF t n this] show ?thesis by blast
qed

lemma checkSession_total: "\<exists>b. fst (checkSession pl s) = Inr b"
proof -
  obtain r c where w: "apiGet pl (API_PATHS AuthWhoami) None (net s) = (r, c)" by fastforce
  show ?thesis by (auto simp: checkSession_eq [OF w] Let_def split: sum.splits option.splits prod.splits)
qed

text \<open>
  While a room is open the session is checked every thirty seconds, and only then; the check never
  throws into the page, and after an outage of the authentication service the box and the bubbles are
  locked from the next render on.
\<close>

theorem session_poll:
  assumes "checkSession pl (session s) = (r, a)"
  shows "poll (start_poll s) = Some 30000 \<and> poll_tick pl (stop_poll s) = (Inr (), stop_poll s)
    \<and> poll_tick pl (start_poll s) = (Inr (), (start_poll s)\<lparr>session := a\<rparr>)
    \<and> (readOnly a \<longrightarrow> offers (ChatPage time q bubbles ml inp ild (snd (poll_tick pl (start_poll s))))
        \<inter> range InputEvent = {})"
proof -
  let ?t = "(start_poll s)\<lparr>session := a\<rparr>"
  obtain b where "r = Inr b" using checkSession_total [of pl "session s"] assms by auto
  then have tick: "poll_tick pl (start_poll s) = (Inr (), ?t)"
    using assms by (simp add: poll_tick_def start_poll_def act_simps on_session_eq)
  have "offers (ChatPage time q bubbles ml inp ild ?t) \<inter> range InputEvent = {}" if "readOnly a"
    using that by (auto simp: ChatPage_def Let_def message_items_def offers_map chat_header_def
        message_input_view_def split: if_splits option.splits)
  then show ?thesis unfolding tick
    by (simp add: poll_tick_def stop_poll_def act_simps) (simp add: start_poll_def AUTH_HEALTH_POLL_MS_def)
qed

theorem session_poll_witness:
  "\<exists>a. poll_tick sample_platform (start_poll sample_chat_page) = (Inr (), (start_poll sample_chat_page)\<lparr>session := a\<rparr>)"
proof -
  obtain r a where "checkSession sample_platform (session sample_chat_page) = (r, a)" by fastforce
  from session_poll [OF this] show ?thesis by blast
qed

end
