(* ===== verification/Room_Settings.thy ===== *)
theory Room_Settings
  imports Room_Dialogs
begin

text \<open>
  The settings page of a room, \<^verbatim>\<open>src/frontend/src/app/(main)/chat/[roomId]/settings/page.tsx\<close>: the
  form and its schema, the handlers for deleting the room and managing members, and what the page
  renders card by card. The queries of the page are arguments: the room, whether the user
  administers it, and the members.
\<close>


section \<open>The form\<close>

record settings_form =
  sf_name :: string
  sf_description :: "string option"
  sf_max_members :: "string option"

text \<open>
  \<open>Number(v)\<close> for a whole number written in digits, as the number input of the form has it; every
  other text counts as not a number here (other spellings of a number, like 1e2, are left out).
\<close>

definition js_Number :: "string \<Rightarrow> int option" where
  "js_Number v = (if v \<noteq> [] \<and> list_all is_digit v then Some (int (read_nat v)) else None)"

definition roomSettingsSchema :: "settings_form \<Rightarrow> issue list" where
  "roomSettingsSchema data =
     z_min ''name'' 1 ''Room name is required'' (sf_name data) @ z_max ''name'' 100 (sf_name data)
     @ z_optional (z_max ''description'' 500) (sf_description data)
     @ z_optional (\<lambda>v.
         if v = [] \<or> (case js_Number v of None \<Rightarrow> False | Some n \<Rightarrow> 2 \<le> n \<and> n \<le> 1000) then []
         else [(''max_members'', Some ''Must be between 2 and 1000'')]) (sf_max_members data)"

text \<open>The values the form follows: those of the room, once it is loaded.\<close>

definition settings_values :: "room option \<Rightarrow> settings_form" where
  "settings_values rm =
     (case rm of
        None \<Rightarrow> \<lparr>sf_name = [], sf_description = Some [], sf_max_members = Some []\<rparr>
      | Some r \<Rightarrow>
          \<lparr>sf_name = room_name r, sf_description = Some (room_description r),
           sf_max_members = Some (if room_max_members r \<noteq> 0 then show_int (room_max_members r) else [])\<rparr>)"


section \<open>Handlers\<close>

record 'w settings_page = "'w page_state" +
  set_error :: string
  set_success :: string
  deleteOpen :: bool
  kickTarget :: "(string \<times> string) option"

abbreviation setError :: "string \<Rightarrow> ('w settings_page, js_error, unit) act" where
  "setError e \<equiv> modify (\<lambda>s. s\<lparr>set_error := e\<rparr>)"

abbreviation setSuccess :: "string \<Rightarrow> ('w settings_page, js_error, unit) act" where
  "setSuccess e \<equiv> modify (\<lambda>s. s\<lparr>set_success := e\<rparr>)"

definition settings_request :: "settings_form \<Rightarrow> update_room_request" where
  "settings_request data =
     \<lparr>ur_name = Some (sf_name data), ur_description = or_undefined (sf_description data),
      ur_max_members = Option.bind (or_undefined (sf_max_members data)) js_Number\<rparr>"

definition settings_onSubmit ::
    "'w platform \<Rightarrow> string \<Rightarrow> settings_form \<Rightarrow> ('w settings_page, js_error, unit) act" where
  "settings_onSubmit pl roomId data =
     andThen (get_state (\<lambda>s. auth_user (session s))) (\<lambda>u.
     andThen (setError []) (\<lambda>_. andThen (setSuccess []) (\<lambda>_.
     catching
       (andThen (mutateAsync (useUpdateRoom pl u roomId) (settings_request data)) (\<lambda>_.
          setSuccess ''Room settings updated''))
       (\<lambda>err. setError (getErrorMessage err)))))"

definition settings_handleDelete :: "'w platform \<Rightarrow> string \<Rightarrow> ('w settings_page, js_error, unit) act" where
  "settings_handleDelete pl roomId =
     andThen (get_state (\<lambda>s. auth_user (session s))) (\<lambda>u.
     catching
       (andThen (mutateAsync (useDeleteRoom pl u roomId) ()) (\<lambda>_. navigate (Push ''/home'')))
       (\<lambda>err. andThen (setError (getErrorMessage err)) (\<lambda>_. modify (\<lambda>s. s\<lparr>deleteOpen := False\<rparr>))))"

definition toggled :: "role \<Rightarrow> role" where
  "toggled currentRole = (if currentRole = ADMIN then MEMBER else ADMIN)"

definition handleRoleToggle ::
    "'w platform \<Rightarrow> string \<Rightarrow> string \<Rightarrow> role \<Rightarrow> ('w settings_page, js_error, unit) act" where
  "handleRoleToggle pl roomId userId currentRole =
     catching
       (andThen (mutateAsync (useUpdateRoomMember pl roomId) (userId, toggled currentRole)) (\<lambda>_. ret ()))
       (\<lambda>err. setError (getErrorMessage err))"

definition handleKick :: "'w platform \<Rightarrow> string \<Rightarrow> ('w settings_page, js_error, unit) act" where
  "handleKick pl roomId =
     andThen (get_state (\<lambda>s. auth_user (session s))) (\<lambda>u.
     andThen (get_state kickTarget) (\<lambda>target. case target of
       None \<Rightarrow> ret ()
     | Some (userId, name) \<Rightarrow>
         catching
           (andThen (mutateAsync (useRemoveRoomMember pl u roomId) userId) (\<lambda>_.
              modify (\<lambda>s. s\<lparr>kickTarget := None\<rparr>)))
           (\<lambda>err. andThen (setError (getErrorMessage err)) (\<lambda>_. modify (\<lambda>s. s\<lparr>kickTarget := None\<rparr>)))))"


section \<open>What the page renders\<close>

datatype settings_event =
    SettingTyped string string
  | SettingsSubmitted
  | RoleToggled string role
  | KickChosen string string
  | KickConfirmed
  | KickCancelled
  | DeleteAsked
  | DeleteConfirmed
  | DeleteCancelled
  | BackClicked

definition settings_form_view ::
    "bool \<Rightarrow> issue list \<Rightarrow> bool \<Rightarrow> settings_form \<Rightarrow> 'w settings_page \<Rightarrow> settings_event node list" where
  "settings_form_view isAdmin errors isSubmitting f s =
     [Txt ''Room Settings'',
      Txt (if isAdmin then ''Edit your room configuration'' else ''Room configuration (read-only)''),
      Fld ''Room name'' isAdmin (sf_name f) (SettingTyped ''name'')] @ issue_nodes ''name'' errors
     @ [Fld ''Description'' isAdmin (str_of (sf_description f)) (SettingTyped ''description'')]
     @ issue_nodes ''description'' errors
     @ [Fld ''Max members'' isAdmin (str_of (sf_max_members f)) (SettingTyped ''max_members'')]
     @ issue_nodes ''max_members'' errors
     @ cond_nodes (truthy_str (set_error s)) [Txt (set_error s)]
     @ cond_nodes (truthy_str (set_success s)) [Txt (set_success s)]
     @ cond_nodes isAdmin [Act ''Save Changes'' (\<not> isSubmitting) SettingsSubmitted]"

definition is_popped :: "room option \<Rightarrow> bool" where
  "is_popped rm = truthy_ostr (Option.bind rm room_popped_at)"

definition pop_status_view :: "(string \<Rightarrow> string) \<Rightarrow> room option \<Rightarrow> settings_event node list" where
  "pop_status_view show_date rm =
     [Txt ''Pop Status'', Txt ''Read-only room lifecycle information'', Txt ''Status'',
      Txt (if is_popped rm then ''Popped'' else ''Active'')]
     @ some_nodes (Option.bind rm room_pop_at) (\<lambda>t. [Txt ''Scheduled pop'', Txt (show_date t)])
     @ some_nodes (Option.bind rm room_popped_at) (\<lambda>t. [Txt ''Popped at'', Txt (show_date t)])
     @ [Txt ''Created'', Txt (show_date (str_of (map_option room_created_at rm)))]"

definition can_manage :: "bool \<Rightarrow> user option \<Rightarrow> room option \<Rightarrow> room_member \<Rightarrow> bool" where
  "can_manage isAdmin u rm m =
     (let isSelf = (Some (mem_user_id m) = map_option user_id u);
          isOwner = (Some (mem_user_id m) = map_option room_owner_id rm)
      in isAdmin \<and> \<not> isSelf \<and> \<not> isOwner)"

definition member_row ::
    "bool \<Rightarrow> user option \<Rightarrow> room option \<Rightarrow> room_member \<Rightarrow> settings_event node list" where
  "member_row isAdmin u rm m =
     [Txt (member_label m)]
     @ cond_nodes (Some (mem_user_id m) = map_option user_id u) [Txt ''(you)'']
     @ [Txt (if mem_role m = ADMIN then ''Admin'' else ''Member'')]
     @ cond_nodes (can_manage isAdmin u rm m)
         [Act (if mem_role m = ADMIN then ''Demote to Member'' else ''Promote to Admin'') True
            (RoleToggled (mem_user_id m) (mem_role m)),
          Act ''Remove from room'' True (KickChosen (mem_user_id m) (member_label m))]"

definition members_card ::
    "bool \<Rightarrow> bool \<Rightarrow> user option \<Rightarrow> room option \<Rightarrow> room_member list \<Rightarrow> settings_event node list" where
  "members_card isAdmin membersLoading u rm members =
     [Txt ''Members'',
      Txt (if isAdmin then ''Manage room members''
           else show_nat (length members) @ '' member'' @ (if length members \<noteq> 1 then ''s'' else []))]
     @ (if membersLoading then [Txt ''skeleton'']
        else if members = [] then [Txt ''No members'']
        else concat (map (member_row isAdmin u rm) members))"

definition danger_card :: "bool \<Rightarrow> settings_event node list" where
  "danger_card isAdmin =
     cond_nodes isAdmin [Txt ''Danger Zone'', Txt ''Irreversible actions'', Act ''Delete Room'' True DeleteAsked]"

definition delete_dialog :: "bool \<Rightarrow> room option \<Rightarrow> 'w settings_page \<Rightarrow> settings_event node list" where
  "delete_dialog isPending rm s =
     cond_nodes (deleteOpen s)
       [Txt ''Delete Room'', Txt (str_of (map_option room_name rm)), Act ''Close'' True DeleteCancelled,
        Act ''Cancel'' True DeleteCancelled, Act ''Delete'' (\<not> isPending) DeleteConfirmed]"

definition kick_dialog :: "bool \<Rightarrow> 'w settings_page \<Rightarrow> settings_event node list" where
  "kick_dialog isPending s =
     cond_nodes (kickTarget s \<noteq> None)
       [Txt ''Remove Member'', Txt (str_of (map_option snd (kickTarget s))), Act ''Close'' True KickCancelled,
        Act ''Cancel'' True KickCancelled, Act ''Remove'' (\<not> isPending) KickConfirmed]"

record room_queries =
  q_loading :: bool
  q_isAdmin :: bool
  q_room :: "room option"
  q_members_loading :: bool
  q_members :: "room_member list"

record pending_flags =
  form_issues :: "issue list"
  submitting :: bool
  deleting :: bool
  removing :: bool

definition settings_view ::
    "(string \<Rightarrow> string) \<Rightarrow> room_queries \<Rightarrow> pending_flags \<Rightarrow> settings_form \<Rightarrow> 'w settings_page
      \<Rightarrow> settings_event node list" where
  "settings_view show_date q p f s =
     (if q_loading q then [Txt ''skeleton'']
      else [Act ''Back to chat'' True BackClicked]
        @ settings_form_view (q_isAdmin q) (form_issues p) (submitting p) f s
        @ pop_status_view show_date (q_room q)
        @ members_card (q_isAdmin q) (q_members_loading q) (auth_user (session s)) (q_room q) (q_members q)
        @ danger_card (q_isAdmin q)
        @ delete_dialog (deleting p) (q_room q) s
        @ kick_dialog (removing p) s)"

definition settings_handle ::
    "'w platform \<Rightarrow> string \<Rightarrow> settings_form \<Rightarrow> settings_event \<Rightarrow> ('w settings_page, js_error, unit) act" where
  "settings_handle pl roomId f e =
     (case e of
        SettingTyped field v \<Rightarrow> ret ()
      | SettingsSubmitted \<Rightarrow> handleSubmit (roomSettingsSchema f) (settings_onSubmit pl roomId f)
      | RoleToggled i r \<Rightarrow> handleRoleToggle pl roomId i r
      | KickChosen i n \<Rightarrow> modify (\<lambda>s. s\<lparr>kickTarget := Some (i, n)\<rparr>)
      | KickConfirmed \<Rightarrow> handleKick pl roomId
      | KickCancelled \<Rightarrow> modify (\<lambda>s. s\<lparr>kickTarget := None\<rparr>)
      | DeleteAsked \<Rightarrow> modify (\<lambda>s. s\<lparr>deleteOpen := True\<rparr>)
      | DeleteConfirmed \<Rightarrow> settings_handleDelete pl roomId
      | DeleteCancelled \<Rightarrow> modify (\<lambda>s. s\<lparr>deleteOpen := False\<rparr>)
      | BackClicked \<Rightarrow> navigate (Push (''/chat/'' @ roomId)))"


section \<open>Properties\<close>

lemma offered_by_row:
  "e \<in> offers (member_row isAdmin u rm m) \<Longrightarrow> can_manage isAdmin u rm m
     \<and> (e = RoleToggled (mem_user_id m) (mem_role m) \<or> e = KickChosen (mem_user_id m) (member_label m))"
  by (auto simp: member_row_def split: if_splits)

lemma offered_by_members:
  "e \<in> offers (members_card isAdmin ld u rm ms) \<Longrightarrow> \<exists>m \<in> set ms. can_manage isAdmin u rm m
     \<and> (e = RoleToggled (mem_user_id m) (mem_role m) \<or> e = KickChosen (mem_user_id m) (member_label m))"
  using offered_by_row by (fastforce simp: members_card_def offers_concat split: if_splits)

lemma offers_issues [simp]: "offers (issue_nodes field issues) = {}"
  by (simp add: issue_nodes_def split: list.splits)

lemma offers_pop_status [simp]: "offers (pop_status_view show_date rm) = {}"
  by (simp add: pop_status_view_def split: option.splits)


definition sample_room :: room where
  "sample_room = \<lparr>room_id = ''r1'', room_name = ''books'', room_description = ''reading'',
     room_max_members = 20, room_owner_id = ''u1'', room_role = None, room_created_at = ''t1'',
     room_updated_at = ''t1'', room_deleted_at = None, room_pop_at = None, room_popped_at = None\<rparr>"

definition sample_member :: "string \<Rightarrow> role \<Rightarrow> room_member" where
  "sample_member i r = \<lparr>mem_room_id = ''r1'', mem_user_id = i, mem_user_name = i, mem_role = r,
     mem_joined_at = ''t1'', mem_left_at = None\<rparr>"

definition sample_settings :: "nat settings_page" where
  "sample_settings = \<lparr>session = fresh_app\<lparr>auth_user := Some sample_user\<rparr>, effects = [], navs = [],
     set_error = [], set_success = [], deleteOpen = False, kickTarget = Some (''u2'', ''u2'')\<rparr>"

definition sample_queries :: room_queries where
  "sample_queries = \<lparr>q_loading = False, q_isAdmin = True, q_room = Some sample_room, q_members_loading = False,
     q_members = [sample_member ''u1'' ADMIN, sample_member ''u2'' MEMBER]\<rparr>"

definition sample_flags :: pending_flags where
  "sample_flags = \<lparr>form_issues = [], submitting = False, deleting = False, removing = False\<rparr>"

lemma sample_toggle_offered:
  "RoleToggled ''u2'' MEMBER \<in> offers (settings_view id sample_queries sample_flags (settings_values (Some sample_room)) sample_settings)"
  by (simp add: settings_view_def sample_queries_def sample_settings_def members_card_def member_row_def
      can_manage_def sample_member_def sample_room_def sample_user_def)




text \<open>
  The form round-trips the room: for a room whose values keep the form's own limits, the form as it is
  loaded is valid, and saving it unchanged sends the room's name, description and limit back.
\<close>

theorem settings_form_roundtrip:
  assumes "length (room_name r) \<in> {1..100}" and "length (room_description r) \<le> 500"
    and "room_max_members r \<in> {0} \<union> {2..1000}"
  shows "roomSettingsSchema (settings_values (Some r)) = []
    \<and> settings_request (settings_values (Some r)) =
        \<lparr>ur_name = Some (room_name r),
         ur_description = (if room_description r = [] then None else Some (room_description r)),
         ur_max_members = (if room_max_members r = 0 then None else Some (room_max_members r))\<rparr>"
proof -
  have n: "js_Number (show_int (room_max_members r)) = Some (room_max_members r)"
  proof -
    have "0 \<le> room_max_members r" using assms(3) by auto
    then show ?thesis
      using show_nat_digits read_show_nat
      by (auto simp: js_Number_def show_int_def list_all_iff)
  qed
  have "show_int (room_max_members r) \<noteq> []" by (simp add: show_int_def)
  with n show ?thesis
    using assms
    by (auto simp: roomSettingsSchema_def settings_values_def settings_request_def z_defs or_undefined_def
        truthy_ostr_def truthy_str_def Suc_le_eq)
qed

theorem settings_form_roundtrip_witness:
  "settings_request (settings_values (Some sample_room)) =
     \<lparr>ur_name = Some ''books'', ur_description = Some ''reading'', ur_max_members = Some 20\<rparr>"
  using settings_form_roundtrip [of sample_room] by (simp add: sample_room_def)

end
