(* ===== verification/Static_Pages.thy ===== *)
theory Static_Pages
  imports App_Shell Chat_Page Room_Settings
begin

text \<open>
  The pages of fixed content, under \<^verbatim>\<open>src/frontend/src\<close>: the landing page (\<open>app/page.tsx\<close>), the
  home page, the pages for a missing address and for the teapot, the three error pages with their
  reset, and what \<open>app/providers.tsx\<close> wraps the application in. Non-ASCII characters of the texts are
  written as their UTF-8 bytes.
\<close>


section \<open>The landing page\<close>

definition em_dash :: string where
  "em_dash = [CHR 0xE2, CHR 0x80, CHR 0x94]"

definition middle_dot :: string where
  "middle_dot = [CHR 0xC2, CHR 0xB7]"

definition features :: "(string \<times> string) list" where
  "features =
     [(''Real-time streaming'',
       ''WebSocket messaging with single-use upgrade tickets and exponential-backoff reconnection for a snappy, live chat experience.''),
      (''DPoP-secured (RFC 9449)'',
       ''Sender-constrained access tokens with nonce/jti replay protection. A stolen token can'' @ [CHR 0x27]
         @ ''t be replayed from another device.''),
      (''CQRS architecture'',
       ''Command/query services separated by an outbox pattern and NATS JetStream, keeping reads fast and writes consistent.''),
      (''Go microservices'',
       ''Gateway-routed Go services over PostgreSQL, Redis, and NATS JetStream '' @ em_dash
         @ '' built to scale and survive partial failures.'')]"

definition techStack :: "string list" where
  "techStack = [''Go 1.26+'', ''Echo v5'', ''NATS JetStream'', ''Redis 7'', ''PostgreSQL 16'', ''Next.js 16'']"

definition landing_nav :: "'e node list" where
  "landing_nav = [Lnk ''Chinwag'' ''/'', Lnk ''Sign in'' ''/login'', Lnk ''Get started'' ''/register'']"

definition landing_hero :: "'e node list" where
  "landing_hero =
     [Txt (''DPoP-secured '' @ middle_dot @ '' Go microservices '' @ middle_dot @ '' CQRS''),
      Txt ''Real-time streaming chat,'', Txt '' built to last.'',
      Txt (''Chinwag is a real-time streaming chat service built on Go microservices '' @ em_dash
        @ '' DPoP authentication, CQRS event consistency, and WebSocket streaming under the hood.''),
      Lnk ''Get started'' ''/register'', Lnk ''Sign in'' ''/login'']"

definition landing_features :: "'e node list" where
  "landing_features = map (\<lambda>(title, description). Box [Txt title, Txt description]) features"

text \<open>A dot stands before every entry but the first.\<close>

definition tech_strip :: "'e node list" where
  "tech_strip =
     concat (map (\<lambda>(i, tech). cond_nodes (0 < i) [Txt middle_dot] @ [Txt tech]) (enumerate 0 techStack))"

definition landing_footer :: "'e node list" where
  "landing_footer =
     [Txt (''Chinwag '' @ em_dash @ '' real-time streaming chat''),
      Lnk ''Sephy314'' ''https://github.com/Sephy314'', Lnk ''Chinwag repo'' ''https://github.com/Sephy314/Chinwag'',
      Txt ''Apache License 2.0'']"

definition LandingPage :: "'w app \<Rightarrow> 'e node list" where
  "LandingPage a =
     (if isLoading a then [Txt ''loading'']
      else landing_nav @ landing_hero @ landing_features @ tech_strip @ landing_footer)"


section \<open>Home, not found, teapot\<close>

definition HomePage :: "'e node list" where
  "HomePage =
     [Txt ''Welcome to Chinwag'',
      Txt ''Select a room from the sidebar to start chatting, or create a new room to begin a conversation.'']"

definition NotFound :: "'e node list" where
  "NotFound =
     [Txt ''404'', Txt (''This page doesn'' @ [CHR 0x27] @ ''t exist or was removed.''), Lnk ''Go home'' ''/home'']"

definition Teapot :: "'e node list" where
  "Teapot = [Txt ''418'', Txt (''I'' @ [CHR 0x27] @ ''m a teapot.''), Lnk ''Go home'' ''/home'']"


section \<open>Error pages\<close>

text \<open>
  An error page is shown in the place of a part that threw while rendering. \<open>thrown\<close> is the error it
  was given, None while the part renders; \<open>reset\<close> renders the part again. Every error is logged once,
  when its page is mounted.
\<close>

record 'w boundary = "'w page_state" +
  thrown :: "string option"
  console_log :: "(string \<times> string) list"

datatype error_event = ResetClicked | ErrorHomeClicked

definition GlobalError :: "string \<Rightarrow> error_event node list" where
  "GlobalError message =
     [Txt ''Something went wrong'', Txt ''An unexpected error occurred. Please try again.'',
      Act ''Try again'' True ResetClicked]"

definition MainLayoutError :: "string \<Rightarrow> error_event node list" where
  "MainLayoutError message =
     [Txt ''Something went wrong'', Txt ''An error occurred while loading this page.'',
      Act ''Go home'' True ErrorHomeClicked, Act ''Try again'' True ResetClicked]"

definition ChatRoomError :: "string \<Rightarrow> error_event node list" where
  "ChatRoomError message =
     [Txt ''Failed to load chat'',
      Txt (if truthy_str message then message else ''An error occurred while loading this chat room.''),
      Act ''Go home'' True ErrorHomeClicked, Act ''Try again'' True ResetClicked]"

text \<open>Mounting an error page with the effect that logs: \<open>label\<close> is the text it logs with.\<close>

definition mount_error :: "string \<Rightarrow> string \<Rightarrow> 'w boundary \<Rightarrow> 'w boundary" where
  "mount_error label message s =
     s\<lparr>thrown := Some message, console_log := console_log s @ [(label, message)]\<rparr>"

definition error_handle :: "error_event \<Rightarrow> ('w boundary, js_error, unit) act" where
  "error_handle e =
     (case e of
        ResetClicked \<Rightarrow> modify (\<lambda>s. s\<lparr>thrown := None\<rparr>)
      | ErrorHomeClicked \<Rightarrow> navigate (Push ''/home''))"


section \<open>Providers\<close>

text \<open>The defaults of the query client, in milliseconds and tries.\<close>

record query_defaults =
  staleTime :: nat
  retry :: nat
  refetchOnWindowFocus :: bool

definition default_queries :: query_defaults where
  "default_queries = \<lparr>staleTime = 1000 * 30, retry = 1, refetchOnWindowFocus = False\<rparr>"

definition toaster_position :: string where
  "toaster_position = ''bottom-right''"

text \<open>\<open>useAuth\<close> outside of \<open>AuthProvider\<close> has no context.\<close>

definition useAuth :: "'w app option \<Rightarrow> js_error + 'w app" where
  "useAuth context =
     (case context of
        None \<Rightarrow> Inl (JsError ''useAuth must be used within an AuthProvider'')
      | Some a \<Rightarrow> Inr a)"

text \<open>\<open>useInfiniteQuery\<close> of \<open>useMessages\<close>: the key and the condition, and the function on a page parameter.\<close>

definition messagesQuery :: "'w platform \<Rightarrow> string \<Rightarrow> bool \<Rightarrow> string option \<Rightarrow> 'w query" where
  "messagesQuery pl roomId ro pageParam =
     \<lparr>queryKey = messages_key roomId, queryFn = fetchMessages pl roomId pageParam None,
      enabled = (truthy_str roomId \<and> \<not> ro)\<rparr>"


section \<open>Lemmas\<close>

lemma links_map_boxes: "links (map (\<lambda>(x, y). Box [Txt x, Txt y]) xs) = []"
  by (induction xs) auto

lemma links_concat: "links (concat nss) = concat (map links nss)"
  by (induction nss) auto

lemma links_tech: "links tech_strip = []"
  by (auto simp: tech_strip_def links_concat cond_nodes_def split: prod.splits)

lemma links_landing:
  "links (LandingPage a) = (if isLoading a then [] else
     [''/'', ''/login'', ''/register'', ''/register'', ''/login'',
      ''https://github.com/Sephy314'', ''https://github.com/Sephy314/Chinwag''])"
  by (simp add: LandingPage_def landing_nav_def landing_hero_def landing_features_def landing_footer_def
      links_map_boxes links_tech)

text \<open>
  The next page of older messages is asked for with the cursor of the last one, as long as that says
  there is more; and nothing is asked for without a room or in a read-only session.
\<close>

theorem older_messages_query:
  "enabled (messagesQuery pl roomId ro p) = (roomId \<noteq> [] \<and> \<not> ro)
   \<and> queryFn (messagesQuery pl roomId ro (getNextPageParam lastPage))
      = perform_call pl (FetchMessages roomId (getNextPageParam lastPage) None)
   \<and> queryKey (messagesQuery pl roomId ro p) = messages_key roomId"
  by (simp add: messagesQuery_def js_defs)

text \<open>
  An error page leaves by its buttons only: trying again shows the part, going home goes home; nothing is
  logged on the way, and every error that is shown has been logged, once for each time it was thrown.
\<close>

theorem error_page_leaves:
  assumes "e \<in> offers (ChatRoomError m)"
  shows "\<exists>t. error_handle e (mount_error label m s) = (Inr (), t)
    \<and> (if e = ResetClicked then thrown t = None \<and> navs t = navs s
       else thrown t = Some m \<and> navs t = navs s @ [Push ''/home''])
    \<and> console_log t = console_log s @ [(label, m)]"
  using assms by (auto simp: ChatRoomError_def error_handle_def mount_error_def modify_def navigate_def)

end
