(* ===== verification/Site_Map.thy ===== *)
theory Site_Map
  imports Static_Pages
begin

text \<open>
  The routes of the application. In the application directory of the framework a file
  \<^verbatim>\<open>page.tsx\<close> under \<^verbatim>\<open>src/frontend/src/app\<close> is a page, and its directory is its address:
  a directory in parentheses only groups, one in brackets is a parameter. The guards, the links and the
  navigations of all pages are checked against it.
\<close>


section \<open>Addresses\<close>

definition page_files :: "string list" where
  "page_files =
     [''app/page.tsx'', ''app/login/page.tsx'', ''app/register/page.tsx'', ''app/oauth/callback/page.tsx'',
      ''app/invite/[token]/page.tsx'', ''app/teapot/page.tsx'', ''app/(main)/home/page.tsx'',
      ''app/(main)/profile/page.tsx'', ''app/(main)/settings/page.tsx'', ''app/(main)/chat/[roomId]/page.tsx'',
      ''app/(main)/chat/[roomId]/settings/page.tsx'', ''app/admin/page.tsx'', ''app/admin/users/page.tsx'',
      ''app/admin/sessions/page.tsx'', ''app/admin/rooms/page.tsx'', ''app/admin/messages/page.tsx'',
      ''app/admin/audit/page.tsx'']"

datatype route_part = Fixed string | Param string

definition route_part_of :: "string \<Rightarrow> route_part" where
  "route_part_of s = (if starts_with s ''['' then Param (butlast (tl s)) else Fixed s)"

text \<open>The address pattern of a file: the directories below \<^verbatim>\<open>app\<close> without the groups.\<close>

definition pattern_of :: "string \<Rightarrow> route_part list" where
  "pattern_of file =
     map route_part_of (filter (\<lambda>s. \<not> starts_with s ''('') (butlast (tl (split_on (CHR ''/'') file))))"

fun route_matches :: "route_part list \<Rightarrow> string list \<Rightarrow> bool" where
  "route_matches [] [] = True"
| "route_matches (Fixed a # ps) (s # ss) = (a = s \<and> route_matches ps ss)"
| "route_matches (Param x # ps) (s # ss) = route_matches ps ss"
| "route_matches ps ss = False"

text \<open>The path of an address, without query and fragment, as its non-empty segments.\<close>

definition path_segments :: "string \<Rightarrow> string list" where
  "path_segments r = filter (\<lambda>s. s \<noteq> []) (split_on (CHR ''/'') (takeWhile (\<lambda>c. c \<noteq> CHR ''?'' \<and> c \<noteq> CHR ''#'') r))"

definition page_of :: "string \<Rightarrow> string option" where
  "page_of r =
     (if starts_with r ''/'' then find (\<lambda>f. route_matches (pattern_of f) (path_segments r)) page_files else None)"

text \<open>The area a file belongs to, by the layouts on the way to it.\<close>

definition directory_area :: "string \<Rightarrow> area" where
  "directory_area file =
     (if file = ''app/page.tsx'' then Landing
      else if starts_with file ''app/(main)/'' then Members
      else if starts_with file ''app/admin/'' then Administration
      else Visitors)"

definition address :: "string list \<Rightarrow> string" where
  "address segs = (if segs = [] then ''/'' else concat (map (\<lambda>s. CHR ''/'' # s) segs))"

definition address_part :: "string \<Rightarrow> bool" where
  "address_part s \<longleftrightarrow> s \<noteq> [] \<and> CHR ''/'' \<notin> set s \<and> CHR ''?'' \<notin> set s \<and> CHR ''#'' \<notin> set s"


section \<open>Lemmas on addresses\<close>

lemma patterns:
  "pattern_of ''app/page.tsx'' = []"
  "pattern_of ''app/login/page.tsx'' = [Fixed ''login'']"
  "pattern_of ''app/register/page.tsx'' = [Fixed ''register'']"
  "pattern_of ''app/oauth/callback/page.tsx'' = [Fixed ''oauth'', Fixed ''callback'']"
  "pattern_of ''app/invite/[token]/page.tsx'' = [Fixed ''invite'', Param ''token'']"
  "pattern_of ''app/teapot/page.tsx'' = [Fixed ''teapot'']"
  "pattern_of ''app/(main)/home/page.tsx'' = [Fixed ''home'']"
  "pattern_of ''app/(main)/profile/page.tsx'' = [Fixed ''profile'']"
  "pattern_of ''app/(main)/settings/page.tsx'' = [Fixed ''settings'']"
  "pattern_of ''app/(main)/chat/[roomId]/page.tsx'' = [Fixed ''chat'', Param ''roomId'']"
  "pattern_of ''app/(main)/chat/[roomId]/settings/page.tsx'' = [Fixed ''chat'', Param ''roomId'', Fixed ''settings'']"
  "pattern_of ''app/admin/page.tsx'' = [Fixed ''admin'']"
  "pattern_of ''app/admin/users/page.tsx'' = [Fixed ''admin'', Fixed ''users'']"
  "pattern_of ''app/admin/sessions/page.tsx'' = [Fixed ''admin'', Fixed ''sessions'']"
  "pattern_of ''app/admin/rooms/page.tsx'' = [Fixed ''admin'', Fixed ''rooms'']"
  "pattern_of ''app/admin/messages/page.tsx'' = [Fixed ''admin'', Fixed ''messages'']"
  "pattern_of ''app/admin/audit/page.tsx'' = [Fixed ''admin'', Fixed ''audit'']"
  by (simp_all add: pattern_of_def route_part_of_def starts_with_def)

lemma takeWhile_all: "\<forall>c \<in> set xs. P c \<Longrightarrow> takeWhile P xs = xs"
  by (induction xs) auto

lemma takeWhile_break: "\<forall>c \<in> set xs. P c \<Longrightarrow> takeWhile P (xs @ ys) = xs @ takeWhile P ys"
  by (induction xs) auto

lemma split_address:
  "list_all address_part segs \<Longrightarrow>
   filter (\<lambda>s. s \<noteq> []) (split_on (CHR ''/'') (concat (map (\<lambda>s. CHR ''/'' # s) segs))) = segs"
proof (induction segs)
  case (Cons s segs)
  have "filter (\<lambda>s. s \<noteq> []) (split_on (CHR ''/'') (s @ concat (map (\<lambda>s. CHR ''/'' # s) segs))) = s # segs"
  proof (cases segs)
    case Nil
    with Cons.prems show ?thesis by (simp add: split_on_absent address_part_def)
  next
    case (Cons t ts)
    with Cons.IH Cons.prems show ?thesis by (simp add: split_on_append address_part_def)
  qed
  then show ?case by simp
qed simp


lemma address_cut:
  assumes "list_all address_part segs" and "rest = [] \<or> hd rest \<in> {CHR ''?'', CHR ''#''}"
  shows "path_segments (address segs @ rest) = segs"
proof -
  have stop: "takeWhile (\<lambda>c. c \<noteq> CHR ''?'' \<and> c \<noteq> CHR ''#'') rest = []"
    using assms(2) by (cases rest) auto
  have "\<forall>c \<in> set (address segs). c \<noteq> CHR ''?'' \<and> c \<noteq> CHR ''#''"
    using assms(1) by (auto simp: address_def list_all_iff address_part_def)
  from takeWhile_break [OF this] stop
  have cut: "path_segments (address segs @ rest) = filter (\<lambda>s. s \<noteq> []) (split_on (CHR ''/'') (address segs))"
    by (simp add: path_segments_def)
  show ?thesis
  proof (cases "segs = []")
    case True
    with cut show ?thesis by (simp add: address_def)
  next
    case False
    with cut split_address [OF assms(1)] show ?thesis by (simp add: address_def)
  qed
qed

lemma address_slash: "starts_with (address segs) ''/''"
  by (cases segs) (auto simp: address_def starts_with_def)

lemma starts_with_longer: "starts_with r p \<Longrightarrow> starts_with (r @ t) p"
  by (metis append.assoc starts_withE starts_with_append)

text \<open>The page of an address, by its segments; a query or fragment does not matter.\<close>

lemma page_of_address:
  assumes "list_all address_part segs" and "rest = [] \<or> hd rest \<in> {CHR ''?'', CHR ''#''}"
  shows "page_of (address segs @ rest) = find (\<lambda>f. route_matches (pattern_of f) segs) page_files"
  using assms starts_with_longer [OF address_slash] by (simp add: page_of_def address_cut)

lemma page_of_plain: "list_all address_part segs \<Longrightarrow> page_of (address segs) = find (\<lambda>f. route_matches (pattern_of f) segs) page_files"
  using page_of_address [of segs "[]"] by simp

lemmas page_table = page_files_def patterns

lemma fixed_pages:
  "page_of ''/'' = Some ''app/page.tsx''" "page_of ''/login'' = Some ''app/login/page.tsx''"
  "page_of ''/register'' = Some ''app/register/page.tsx''" "page_of ''/home'' = Some ''app/(main)/home/page.tsx''"
  "page_of ''/profile'' = Some ''app/(main)/profile/page.tsx''"
  "page_of ''/settings'' = Some ''app/(main)/settings/page.tsx''" "page_of ''/admin'' = Some ''app/admin/page.tsx''"
  "page_of ''/admin/users'' = Some ''app/admin/users/page.tsx''"
  "page_of ''/admin/sessions'' = Some ''app/admin/sessions/page.tsx''"
  "page_of ''/admin/rooms'' = Some ''app/admin/rooms/page.tsx''"
  "page_of ''/admin/messages'' = Some ''app/admin/messages/page.tsx''"
  "page_of ''/admin/audit'' = Some ''app/admin/audit/page.tsx''"
  by (simp_all add: page_of_def path_segments_def page_table starts_with_def)

lemma query_pages: "page_of (''/login?'' @ q) = Some ''app/login/page.tsx''"
  by (simp add: page_of_def path_segments_def page_table starts_with_def)

lemma room_pages:
  assumes "address_part i"
  shows "page_of (''/chat/'' @ i) = Some ''app/(main)/chat/[roomId]/page.tsx''"
    and "page_of (''/chat/'' @ i @ ''/settings'') = Some ''app/(main)/chat/[roomId]/settings/page.tsx''"
    and "page_of (''/invite/'' @ i) = Some ''app/invite/[token]/page.tsx''"
proof -
  have p: "address_part ''chat''" "address_part ''settings''" "address_part ''invite''"
    by (simp_all add: address_part_def)
  show "page_of (''/chat/'' @ i) = Some ''app/(main)/chat/[roomId]/page.tsx''"
    using page_of_plain [of "[''chat'', i]"] assms p by (simp add: address_def page_table)
  show "page_of (''/chat/'' @ i @ ''/settings'') = Some ''app/(main)/chat/[roomId]/settings/page.tsx''"
    using page_of_plain [of "[''chat'', i, ''settings'']"] assms p by (simp add: address_def page_table)
  show "page_of (''/invite/'' @ i) = Some ''app/invite/[token]/page.tsx''"
    using page_of_plain [of "[''invite'', i]"] assms p by (simp add: address_def page_table)
qed


section \<open>Where handlers send the router\<close>

lemma adds_to_session [adds_to_intros]:
  "adds_to navs P (on_session m)" "adds_to routes Q m' \<Longrightarrow> adds_to (\<lambda>s. routes (session s)) Q (on_session m')"
  "adds_to routes Q (client_call m'')"
  by (auto simp: adds_to_def on_session_eq client_call_eq)

lemma adds_to_navigate: "P n \<Longrightarrow> adds_to navs P (navigate n)"
  by (simp add: adds_to_def navigate_def modify_def)

lemma adds_to_emit [adds_to_intros]: "adds_to navs P (emit es)"
  by (simp add: adds_to_def emit_def modify_def)

lemma adds_to_mutate [adds_to_intros]: "adds_to navs P (mutateAsync m v)" "adds_to navs P (mutate m v)"
  unfolding mutate_def mutateAsync_def by (intro adds_to_intros)+

lemma adds_to_handleSubmit [adds_to_intros]: "adds_to navs P m \<Longrightarrow> adds_to navs P (handleSubmit issues m)"
  unfolding handleSubmit_def by (intro adds_to_intros)

lemma adds_to_push: "Q r \<Longrightarrow> adds_to routes Q (push_route r)"
  by (simp add: adds_to_def push_route_def modify_def)


text \<open>A navigation inside the application leads to a page, or to the room of an id the server gave.\<close>

definition leads_somewhere :: "nav \<Rightarrow> bool" where
  "leads_somewhere n =
     (case n of Leave url \<Rightarrow> True
      | Push r \<Rightarrow> page_of r \<noteq> None \<or> (\<exists>i. r = ''/chat/'' @ i \<or> r = ''/chat/'' @ i @ ''/settings'')
      | Replace r \<Rightarrow> page_of r \<noteq> None \<or> (\<exists>i. r = ''/chat/'' @ i))"

lemma leads_rules:
  "leads_somewhere (Leave url)" "leads_somewhere (Push (''/chat/'' @ i))" "leads_somewhere (Replace (''/chat/'' @ i))"
  "leads_somewhere (Push (''/chat/'' @ i @ ''/settings''))" "leads_somewhere (Push ''/home'')"
  "leads_somewhere (Push ''/admin'')" "leads_somewhere (Push ''/profile'')" "leads_somewhere (Push ''/settings'')"
  "leads_somewhere (Replace ''/home'')" "leads_somewhere (Replace (''/login?'' @ q))"
  unfolding leads_somewhere_def by (simp_all only: nav.case fixed_pages query_pages) auto

lemmas leads_simps [simp] = leads_rules leads_rules [simplified]

lemma account_handlers_lead:
  "adds_to navs leads_somewhere (login_onSubmit pl d)" "adds_to navs leads_somewhere (register_onSubmit pl d')"
  "adds_to navs leads_somewhere (handleGoogleLogin pl)" "adds_to navs leads_somewhere (handleGoogleSignUp pl)"
  "adds_to navs leads_somewhere (oauth_callback pl ps)" "adds_to navs leads_somewhere (invite_effect pl t)"
  "adds_to navs leads_somewhere (profile_onSubmit pl pf)" "adds_to navs leads_somewhere (password_onSubmit pl pw)"
  unfolding login_onSubmit_def register_onSubmit_def handleGoogleLogin_def handleGoogleSignUp_def oauth_callback_def
    invite_effect_def profile_onSubmit_def password_onSubmit_def save_user_def account_defs Let_def
  by (intro adds_to_intros adds_to_navigate; simp)+


lemma room_handlers_lead:
  "adds_to navs leads_somewhere (create_onSubmit pl dt cf)" "adds_to navs leads_somewhere (handleGenerate pl origin roomId)"
  "adds_to navs leads_somewhere (handleCopy ok)" "adds_to navs leads_somewhere (settings_onSubmit pl roomId sf)"
  "adds_to navs leads_somewhere (settings_handleDelete pl roomId)" "adds_to navs leads_somewhere (handleRoleToggle pl roomId i rl)"
  "adds_to navs leads_somewhere (handleKick pl roomId)"
  unfolding create_onSubmit_def handleGenerate_def handleCopy_def settings_onSubmit_def settings_handleDelete_def
    handleRoleToggle_def handleKick_def
  by (cases "pop_at_value dt cf"; simp; intro adds_to_intros adds_to_navigate; simp)
    (intro adds_to_intros adds_to_navigate; simp)+

lemma settings_handle_leads: "adds_to navs leads_somewhere (settings_handle pl roomId f e)"
  unfolding settings_handle_def
  by (cases e; simp; intro adds_to_intros adds_to_navigate room_handlers_lead; simp)

lemma chat_handlers_lead:
  "adds_to navs leads_somewhere (page_handleSend pl roomId uuid now t)"
  "adds_to navs leads_somewhere (handleEdit pl roomId i t)" "adds_to navs leads_somewhere (page_handleDelete pl roomId i)"
  "adds_to navs leads_somewhere (poll_tick pl)"
  unfolding page_handleSend_def handleEdit_def page_handleDelete_def poll_tick_def
  by (intro adds_to_intros adds_to_navigate; simp)+

lemma chat_page_handle_leads: "adds_to navs leads_somewhere (chat_page_handle pl roomId e)"
proof (cases e)
  case (InviteDialogEvent d)
  then show ?thesis unfolding chat_page_handle_def by (cases d; simp; intro adds_to_intros; simp)
next
  case (MembersDialogEvent d)
  then show ?thesis unfolding chat_page_handle_def by (cases d; simp; intro adds_to_intros; simp)
qed (simp_all add: chat_page_handle_def; intro adds_to_intros adds_to_navigate; simp)+

lemma sidebar_handle_leads: "adds_to navs leads_somewhere (sidebar_handle pl e)"
proof (cases e)
  case (CreateDialogEvent d)
  then show ?thesis unfolding sidebar_handle_def by (cases d; simp; intro adds_to_intros; simp)
qed (simp_all add: sidebar_handle_def; intro adds_to_intros adds_to_navigate; simp)+

lemma admin_rows_lead:
  "adds_to navs leads_somewhere (user_row_handle pl e)"
  unfolding user_row_handle_def by (cases e; simp; intro adds_to_intros)

lemma session_rows_lead: "adds_to navs leads_somewhere (session_row_handle pl e)"
  unfolding session_row_handle_def by (cases e; simp; intro adds_to_intros)

lemma room_rows_lead: "adds_to navs leads_somewhere (room_row_handle pl e)"
  unfolding room_row_handle_def by (cases e; simp; intro adds_to_intros)

lemma message_rows_lead:
  "adds_to navs leads_somewhere (message_row_handle pl i)" "adds_to navs leads_somewhere (create_user_onSubmit pl cu)"
  unfolding message_row_handle_def create_user_onSubmit_def by (intro adds_to_intros; simp)+

lemmas admin_handlers_lead = admin_rows_lead session_rows_lead room_rows_lead message_rows_lead

lemma error_handle_leads: "adds_to navs leads_somewhere (error_handle e)"
  unfolding error_handle_def by (cases e; simp; intro adds_to_intros adds_to_navigate; simp)

text \<open>The session pushes routes of its own.\<close>

lemma session_routes_lead:
  fixes pl :: "'w platform"
  assumes ok: "\<And>r. r \<in> {''/home'', ''/login''} \<Longrightarrow> Q r"
  shows "adds_to routes Q (checkSession pl)" "adds_to routes Q (login pl d)" "adds_to routes Q (register pl d')"
    "adds_to routes Q (logout pl)"
  unfolding checkSession_def register_def login_def logout_def signed_in_def setUser_def setCachedUser_def
    setReadOnly_def setIsLoading_def Let_def
  by (intro adds_to_intros adds_to_push ok; simp)+


lemma session_pages_lead:
  "adds_to routes (\<lambda>r. page_of r \<noteq> None) (checkSession pl)" "adds_to routes (\<lambda>r. page_of r \<noteq> None) (login pl d)"
  "adds_to routes (\<lambda>r. page_of r \<noteq> None) (register pl d')" "adds_to routes (\<lambda>r. page_of r \<noteq> None) (logout pl)"
  by (rule session_routes_lead; use fixed_pages(2,4) in auto)+


section \<open>Properties\<close>

lemma matching_page:
  assumes "page_of (address segs) = Some f" and "list_all address_part segs"
  shows "f \<in> set page_files" and "route_matches (pattern_of f) segs"
  using assms(1) unfolding page_of_plain [OF assms(2)] by (auto simp: find_Some_iff)

lemma route_matches_iff:
  "route_matches [] segs \<longleftrightarrow> segs = []"
  "route_matches (Fixed a # ps) segs \<longleftrightarrow> (\<exists>ss. segs = a # ss \<and> route_matches ps ss)"
  "route_matches (Param x # ps) segs \<longleftrightarrow> (\<exists>t ss. segs = t # ss \<and> route_matches ps ss)"
  by (cases segs; auto)+

lemma area_of_page:
  assumes "f \<in> set page_files" and "route_matches (pattern_of f) segs"
  shows "area_of (address segs) = directory_area f"
  using assms unfolding page_files_def list.set insert_iff empty_iff
  by (elim disjE FalseE) (auto simp: patterns route_matches_iff area_of_def directory_area_def address_def starts_with_def)

lemma only_page:
  assumes "f \<in> set page_files" and "route_matches (pattern_of f) segs"
  shows "filter (\<lambda>g. route_matches (pattern_of g) segs) page_files = [f]"
  using assms unfolding page_files_def list.set insert_iff empty_iff
  by (elim disjE FalseE; hypsubst; simp only: patterns route_matches_iff; (elim exE conjE)?; (hypsubst)?;
      simp add: patterns)



lemma landing_stays:
  "filter (\<lambda>r. \<not> starts_with r ''https://github.com/Sephy314'') (links (LandingPage a)) =
     (if isLoading a then [] else [''/'', ''/login'', ''/register'', ''/register'', ''/login''])"
  by (simp add: links_landing starts_with_def)

lemma links_issues [simp]: "links (issue_nodes k es) = []"
  by (simp add: issue_nodes_def split: list.splits)

lemma links_sidebar:
  "set (links (Sidebar pathname (ld, err, rooms) errors busy cd s))
     \<subseteq> insert ''/home'' ((\<lambda>rm. ''/chat/'' @ room_id rm) ` set rooms)"
  by (auto simp: Sidebar_def Let_def room_entries_def account_entries_def links_rooms some_nodes_def
      split: option.splits if_splits)

text \<open>
  No link is dead. Every link of the sidebar, of the sign-in and sign-up pages, of the page for a
  missing address, of the teapot and of the administration leads to a page of the application, whatever
  the rooms; the landing page has two links that leave it, and every other one leads to a page; and every
  redirect of a guard does.
\<close>

theorem every_link_resolves:
  assumes "\<forall>rm \<in> set rooms. address_part (room_id rm)"
  shows "(\<forall>r \<in> set (links (Sidebar pathname (ld, err, rooms) errors busy cd s)
         @ links (login_view es b lf ac) @ links (register_view es b rf ac) @ links NotFound @ links Teapot
         @ links AdminNav @ filter (\<lambda>r. \<not> starts_with r ''https://github.com/Sephy314'') (links (LandingPage a))).
       page_of r \<noteq> None)
    \<and> (\<forall>r r'. snd (guarded a r) = Some r' \<longrightarrow> page_of r' \<noteq> None)"
proof
  have "page_of r \<noteq> None" if "r \<in> set (links (Sidebar pathname (ld, err, rooms) errors busy cd s))" for r
  proof -
    have "r = ''/home'' \<or> (\<exists>rm \<in> set rooms. r = ''/chat/'' @ room_id rm)"
      using that links_sidebar [of pathname ld err rooms errors busy cd s] by blast
    then show ?thesis using assms room_pages(1) fixed_pages(4) by (elim disjE bexE) (simp_all del: append.simps)
  qed
  moreover have "\<forall>r \<in> set (links (login_view es b lf ac) @ links (register_view es b rf ac) @ links NotFound @ links Teapot
      @ links AdminNav @ filter (\<lambda>r. \<not> starts_with r ''https://github.com/Sephy314'') (links (LandingPage a))).
      page_of r \<noteq> None"
    by (simp add: login_view_def register_view_def NotFound_def Teapot_def AdminNav_def NAV_ITEMS_def
        landing_stays fixed_pages del: set_filter)
  ultimately show "\<forall>r \<in> set (links (Sidebar pathname (ld, err, rooms) errors busy cd s)
         @ links (login_view es b lf ac) @ links (register_view es b rf ac) @ links NotFound @ links Teapot
         @ links AdminNav @ filter (\<lambda>r. \<not> starts_with r ''https://github.com/Sephy314'') (links (LandingPage a))).
       page_of r \<noteq> None"
    unfolding set_append by blast
  show "\<forall>r r'. snd (guarded a r) = Some r' \<longrightarrow> page_of r' \<noteq> None"
    by (auto simp: guarded_def RootPage_def admin_guard_def protected_route_def fixed_pages
        split: area.splits if_splits)
qed


definition sample_account :: "nat account_page" where
  "sample_account = \<lparr>session = fresh_app, effects = [], navs = [], ac_error = [], ac_success = []\<rparr>"

theorem every_link_resolves_witness:
  "''/chat/r1'' \<in> set (links (Sidebar ''/home'' (False, None, [sample_room]) [] False sample_create_dialog sample_sidebar))
   \<and> page_of ''/chat/r1'' \<noteq> None \<and> page_of ''/register'' \<noteq> None"
proof -
  have "\<forall>rm \<in> set [sample_room]. address_part (room_id rm)" by (simp add: sample_room_def address_part_def)
  note all = every_link_resolves [OF this, where pathname = "''/home''" and ld = False and err = None and errors = "[]"
      and busy = False and cd = sample_create_dialog and s = sample_sidebar and es = "[]" and b = False
      and lf = "\<lparr>login_email = [], login_password = []\<rparr>" and rf = "\<lparr>reg_name = [], reg_email = [], reg_password = []\<rparr>"
      and ac = sample_account and a = fresh_app, THEN conjunct1]
  have "\<forall>r \<in> set (links (Sidebar ''/home'' (False, None, [sample_room]) [] False sample_create_dialog sample_sidebar))
      \<union> set (links (login_view [] False \<lparr>login_email = [], login_password = []\<rparr> sample_account)). page_of r \<noteq> None"
    using all unfolding set_append by blast
  moreover have "''/chat/r1'' \<in> set (links (Sidebar ''/home'' (False, None, [sample_room]) [] False sample_create_dialog sample_sidebar))"
    by (simp add: Sidebar_def Let_def room_entries_def sample_sidebar_def fresh_app_def sample_room_def)
  moreover have "''/register'' \<in> set (links (login_view [] False \<lparr>login_email = [], login_password = []\<rparr> sample_account))"
    by (simp add: login_view_def)
  ultimately show ?thesis by blast
qed



end
