(* ===== verification/History.thy ===== *)
theory History
  imports Live_Room
begin

text \<open>
  Scrolling back through a room. \<open>useInfiniteQuery\<close> of \<^verbatim>\<open>features/chat/hooks/use-messages.ts\<close> loads
  the newest page and, on demand, the page after the cursor of the last one; the chat service lists a page
  before a cursor (\<open>ListByRoomId\<close>). In between messages are posted and deleted, and the socket reports
  each to the cached pages. The main results are that the pages show the newest messages of the room in order without
  a gap, and that scrolling reaches its beginning after as many loads as the room has pages.
\<close>


section \<open>The server\<close>

text \<open>\<open>encodeCursor\<close>: base64 with the alphabet for URLs.\<close>

definition encodeCursor :: "cursor \<Rightarrow> string" where
  "encodeCursor c =
     map (\<lambda>x. if x = CHR ''+'' then CHR ''-'' else if x = CHR ''/'' then CHR ''_'' else x)
       (btoa (stringify (JObj [(''created_at'', JStr (cur_created_at c)), (''id'', JStr (cur_id c))])))"

definition earlier :: "(string \<Rightarrow> int) \<Rightarrow> message \<Rightarrow> cursor \<Rightarrow> bool" where
  "earlier clock m c \<longleftrightarrow>
     clock (msg_created_at m) < clock (cur_created_at c)
     \<or> clock (msg_created_at m) = clock (cur_created_at c)
       \<and> ord_class.lexordp (map ord (msg_id m)) (map ord (cur_id c))"

definition before :: "(string \<Rightarrow> int) \<Rightarrow> cursor option \<Rightarrow> message \<Rightarrow> bool" where
  "before clock cur m = (case cur of None \<Rightarrow> True | Some c \<Rightarrow> earlier clock m c)"

text \<open>
  \<open>ListByRoomId\<close> of the rows, oldest first: one more than the page is read, to see whether there are more.
  The cursor of the next page is that of the last message.
\<close>

definition listBefore :: "(string \<Rightarrow> int) \<Rightarrow> message list \<Rightarrow> cursor option \<Rightarrow> message list \<times> string option" where
  "listBefore clock rows cur =
     (let got = take (page_limit + 1) (filter (before clock cur) (rev rows));
          hasMore = page_limit < length got;
          msgs = (if hasMore then take page_limit got else got)
      in (msgs, if hasMore \<and> msgs \<noteq> [] then Some (encodeCursor (cursor_of (last msgs))) else None))"

text \<open>The body of the answer. An empty list is left out, as the tag of the field says.\<close>

definition list_response :: "message list \<times> string option \<Rightarrow> json" where
  "list_response r =
     jobject [(''success'', Some (JBool True)),
              (''data'', if fst r = [] then None else Some (JArr (map message_to_json (fst r)))),
              (''meta'', Some (case snd r of None \<Rightarrow> JNull
                 | Some c \<Rightarrow> jobject [(''next_cursor'', Some (JStr c)), (''has_more'', Some (JBool True))]))]"

text \<open>None is the answer to a cursor that cannot be read, an error.\<close>

definition list_messages :: "(string \<Rightarrow> int) \<Rightarrow> message list \<Rightarrow> string option \<Rightarrow> string option" where
  "list_messages clock rows param =
     (if truthy_ostr param
      then map_option (\<lambda>c. stringify (list_response (listBefore clock rows (Some c)))) (decodeCursor (the param))
      else Some (stringify (list_response (listBefore clock rows None))))"


section \<open>The query\<close>

text \<open>A page of the query: the body at its declared type.\<close>

definition page_of_json :: "json \<Rightarrow> page" where
  "page_of_json v =
     \<lparr>pg_data = (case jfield ''data'' v of Some (JArr vs) \<Rightarrow> Some (List.map_filter message_of_json vs) | _ \<Rightarrow> None),
      pg_next_cursor = jstring (Option.bind (jfield ''meta'' v) (jfield ''next_cursor'')),
      pg_has_more = jtruthy (Option.bind (jfield ''meta'' v) (jfield ''has_more''))\<rparr>"

definition load_page :: "(string \<Rightarrow> int) \<Rightarrow> message list \<Rightarrow> string option \<Rightarrow> page option" where
  "load_page clock rows param = map_option page_of_json (Option.bind (list_messages clock rows param) json_parse)"

text \<open>
  \<open>posted\<close> are the messages the room ever had, oldest first, \<open>gone\<close> the ids of the deleted ones. \<open>fetched\<close>
  says that the query has been answered; until then the cache holds at most what the socket brought.
\<close>

record history =
  posted :: "message list"
  gone :: "string list"
  cached :: "feed option"
  fetched :: bool

definition rows :: "history \<Rightarrow> message list" where
  "rows s = filter (\<lambda>m. msg_id m \<notin> set (gone s)) (posted s)"

definition next_param :: "history \<Rightarrow> string option" where
  "next_param s = (case cached s of None \<Rightarrow> None | Some f \<Rightarrow> getNextPageParam (last (pages f)))"

definition hasNextPage :: "history \<Rightarrow> bool" where
  "hasNextPage s \<longleftrightarrow> next_param s \<noteq> None"

definition fetchFirst :: "(string \<Rightarrow> int) \<Rightarrow> history \<Rightarrow> history" where
  "fetchFirst clock s =
     (case load_page clock (rows s) None of None \<Rightarrow> s
      | Some p \<Rightarrow> s\<lparr>cached := Some \<lparr>pages = [p], pageParams = [None]\<rparr>, fetched := True\<rparr>)"

definition fetchNextPage :: "(string \<Rightarrow> int) \<Rightarrow> history \<Rightarrow> history" where
  "fetchNextPage clock s =
     (case (cached s, next_param s) of
        (Some f, Some c) \<Rightarrow>
          (case load_page clock (rows s) (Some c) of None \<Rightarrow> s
           | Some p \<Rightarrow> s\<lparr>cached := Some (f\<lparr>pages := pages f @ [p], pageParams := pageParams f @ [Some c]\<rparr>)\<rparr>)
      | _ \<Rightarrow> s)"

text \<open>An invalidated query is loaded again page by page, each with the cursor of the one before.\<close>

definition refetch :: "(string \<Rightarrow> int) \<Rightarrow> history \<Rightarrow> history" where
  "refetch clock s =
     (case cached s of None \<Rightarrow> fetchFirst clock s
      | Some f \<Rightarrow> (fetchNextPage clock ^^ (length (pages f) - 1)) (fetchFirst clock s))"

definition socket_event :: "server_event \<Rightarrow> history \<Rightarrow> history" where
  "socket_event e s = s\<lparr>cached := fst (handleWsMessage e (cached s, None))\<rparr>"

datatype history_event = Loaded | LoadedOlder | Refetched | Posted message | Deleted string

inductive history_step :: "(string \<Rightarrow> int) \<Rightarrow> history \<Rightarrow> history_event \<Rightarrow> history \<Rightarrow> bool"
  for clock :: "string \<Rightarrow> int" where
  h_load: "history_step clock s Loaded (fetchFirst clock s)"
| h_older: "history_step clock s LoadedOlder (fetchNextPage clock s)"
| h_refetch: "history_step clock s Refetched (refetch clock s)"
| h_post: "fresh_post clock (posted s) m \<Longrightarrow>
    history_step clock s (Posted m) (socket_event (NewMessage (Some m)) (s\<lparr>posted := posted s @ [m]\<rparr>))"
| h_delete: "i \<in> msg_id ` set (rows s) \<Longrightarrow>
    history_step clock s (Deleted i) (socket_event (DeletedMessage (Some i)) (s\<lparr>gone := i # gone s\<rparr>))"

inductive_cases history_stepE: "history_step clock s e t"

text \<open>A room of any length is opened for the first time.\<close>

definition history_init :: "(string \<Rightarrow> int) \<Rightarrow> history \<Rightarrow> bool" where
  "history_init clock s \<longleftrightarrow> log_ok clock (posted s) \<and> gone s = [] \<and> cached s = None \<and> \<not> fetched s"


section \<open>What a page holds\<close>

lemma jfield_JNull [simp]: "jfield k JNull = None"
  by (simp add: jfield_def)

lemma page_of_list_response:
  "page_of_json (list_response r) =
     \<lparr>pg_data = (if fst r = [] then None else Some (fst r)), pg_next_cursor = snd r, pg_has_more = (snd r \<noteq> None)\<rparr>"
proof -
  have "List.map_filter message_of_json (map message_to_json ms) = ms" for ms
    by (induction ms) (simp_all add: List.map_filter_simps)
  then show ?thesis
    by (auto simp: page_of_json_def list_response_def jfield_jobject_Cons jtruthy_def jstring_def split: option.splits)
qed

lemma decodeCursor_encodeCursor: "decodeCursor (encodeCursor c) = Some c"
proof -
  let ?v = "JObj [(''created_at'', JStr (cur_created_at c)), (''id'', JStr (cur_id c))]"
  have "CHR ''-'' \<notin> set (btoa s)" "CHR ''_'' \<notin> set (btoa s)" for s
    by (auto dest!: btoa_set simp: b64_char_def ord_eq_iff [symmetric] split: if_splits)
  then have "map (\<lambda>x. if x = CHR ''-'' then CHR ''+'' else if x = CHR ''_'' then CHR ''/'' else x) (encodeCursor c)
      = btoa (stringify ?v)"
    unfolding encodeCursor_def map_map by (intro map_idI) (auto simp del: stringify.simps)
  moreover have "CHR ''+'' \<notin> set (encodeCursor c)" "CHR ''/'' \<notin> set (encodeCursor c)"
    by (auto simp: encodeCursor_def simp del: stringify.simps split: if_splits)
  moreover have "length (encodeCursor c) mod 4 = 0" by (simp add: encodeCursor_def length_btoa del: stringify.simps)
  ultimately have "url_decode (encodeCursor c) = Some (stringify ?v)" by (simp add: url_decode_def atob_btoa)
  then show ?thesis by (simp add: decodeCursor_def json_parse_stringify jstring_def del: stringify.simps)
qed

interpretation cursor_text: codec encodeCursor decodeCursor "\<lambda>_. True"
  by unfold_locales (rule decodeCursor_encodeCursor)

lemma encodeCursor_nonempty [simp]: "encodeCursor c \<noteq> []"
proof -
  have "0 < length (btoa s)" if "s \<noteq> []" for s
    using that by (cases s) (simp_all add: length_btoa)
  then show ?thesis by (simp add: encodeCursor_def)
qed

lemma load_page_first: "load_page clock rs None = Some (page_of_json (list_response (listBefore clock rs None)))"
  by (simp add: load_page_def list_messages_def json_parse_stringify js_defs)

lemma load_page_after:
  "load_page clock rs (Some (encodeCursor c)) = Some (page_of_json (list_response (listBefore clock rs (Some c))))"
  by (simp add: load_page_def list_messages_def json_parse_stringify js_defs decodeCursor_encodeCursor)

text \<open>The messages and the cursor of a loaded page, by the rows before its own cursor.\<close>

definition page_before :: "(string \<Rightarrow> int) \<Rightarrow> message list \<Rightarrow> cursor option \<Rightarrow> page" where
  "page_before clock rs cur = page_of_json (list_response (listBefore clock rs cur))"

lemma page_before_messages:
  "page_messages (page_before clock rs cur) = take page_limit (filter (before clock cur) (rev rs))"
  by (auto simp: page_before_def page_of_list_response page_messages_def listBefore_def Let_def)

lemma page_before_next:
  "getNextPageParam (page_before clock rs cur) =
     (let old = filter (before clock cur) (rev rs) in
      if page_limit < length old then Some (encodeCursor (cursor_of (last (take page_limit old)))) else None)"
  by (auto simp: page_before_def page_of_list_response getNextPageParam_def listBefore_def Let_def js_defs page_limit_def)

lemma page_before_data:
  "pg_data (page_before clock rs cur) = None \<longleftrightarrow> filter (before clock cur) (rev rs) = []"
  by (auto simp: page_before_def page_of_list_response listBefore_def Let_def page_limit_def)



section \<open>The invariant\<close>

abbreviation newest_first :: "(string \<Rightarrow> int) \<Rightarrow> message list \<Rightarrow> bool" where
  "newest_first clock \<equiv> sorted_wrt (\<lambda>x y. newer clock x (cursor_of y))"

lemma earlier_iff: "earlier clock m (cursor_of z) = newer clock z (cursor_of m)"
  by (auto simp: earlier_def newer_def cursor_of_def)

lemma log_total:
  assumes "log_ok clock ps" and "x \<in> set ps" and "y \<in> set ps"
  shows "x = y \<or> newer clock x (cursor_of y) \<or> newer clock y (cursor_of x)"
proof -
  from assms(2,3) obtain i j where "i < length ps" "j < length ps" "x = ps ! i" "y = ps ! j"
    by (auto simp: in_set_conv_nth)
  moreover have "sorted_wrt (\<lambda>x y. newer clock y (cursor_of x)) ps" using assms(1) by (simp add: log_ok_def)
  ultimately show ?thesis by (cases i j rule: linorder_cases) (auto simp: sorted_wrt_iff_nth_less)
qed

lemma log_newest_first: "log_ok clock ps \<Longrightarrow> newest_first clock (filter P (rev (filter Q ps)))"
  by (simp add: log_ok_def sorted_wrt_filter sorted_wrt_rev)

text \<open>
  What the pages reach: every row not older than the message the next page is asked for by, and all
  rows when there is no next page.
\<close>

definition reach :: "(string \<Rightarrow> int) \<Rightarrow> message list \<Rightarrow> message list \<Rightarrow> message list \<Rightarrow> string option \<Rightarrow> bool" where
  "reach clock ps rs ms param \<longleftrightarrow>
     (case param of None \<Rightarrow> set rs \<subseteq> set ms
      | Some tok \<Rightarrow> (\<exists>z \<in> set ps. tok = encodeCursor (cursor_of z)
          \<and> (\<forall>m \<in> set rs. \<not> newer clock z (cursor_of m) \<longrightarrow> m \<in> set ms)
          \<and> (\<forall>m \<in> set ms. \<not> newer clock z (cursor_of m))))"

lemma newest_first_last:
  assumes "newest_first clock xs" and "m \<in> set xs"
  shows "\<not> newer clock (last xs) (cursor_of m)"
proof (cases xs rule: rev_cases)
  case (snoc ys y)
  with assms have "m = y \<or> newer clock m (cursor_of y)" by (auto simp: sorted_wrt_append)
  then show ?thesis using newer_asym [of clock m y] snoc by auto
qed (use assms(2) in simp)

lemma append_page:
  assumes ok: "log_ok clock ps" and rs: "rs = filter Q ps"
    and ms: "newest_first clock ms" "set ms \<subseteq> set ps"
    and cur: "cur = None \<and> ms = [] \<or> (\<exists>z \<in> set ps. cur = Some (cursor_of z)
        \<and> (\<forall>m \<in> set rs. \<not> newer clock z (cursor_of m) \<longrightarrow> m \<in> set ms)
        \<and> (\<forall>m \<in> set ms. \<not> newer clock z (cursor_of m)))"
    and p: "p = page_before clock rs cur"
  shows "newest_first clock (ms @ page_messages p)" and "set (page_messages p) \<subseteq> set rs"
    and "reach clock ps rs (ms @ page_messages p) (getNextPageParam p)"
proof -
  define old where "old = filter (before clock cur) (rev rs)"
  have new: "page_messages p = take page_limit old" by (simp add: p old_def page_before_messages)
  have old_set: "set old \<subseteq> set rs" by (auto simp: old_def)
  have sorted: "newest_first clock old" unfolding old_def rs by (rule log_newest_first [OF ok])
  have cross: "newer clock x (cursor_of y)" if x: "x \<in> set ms" and y: "y \<in> set old" for x y
  proof -
    from cur x obtain z where z: "z \<in> set ps" "cur = Some (cursor_of z)" "\<not> newer clock z (cursor_of x)" by auto
    from y z(2) have "newer clock z (cursor_of y)" by (simp add: old_def before_def earlier_iff)
    moreover from log_total [OF ok, of x z] x ms(2) z have "x = z \<or> newer clock x (cursor_of z)" by auto
    ultimately show ?thesis using newer_trans by blast
  qed
  have rest: "m \<in> set old \<or> m \<in> set ms" if "m \<in> set rs" for m
    using that cur by (auto simp: old_def before_def earlier_iff)
  show "set (page_messages p) \<subseteq> set rs" using old_set by (auto simp: new dest: in_set_takeD)
  show "newest_first clock (ms @ page_messages p)"
    using ms(1) sorted cross by (auto simp: new sorted_wrt_append sorted_wrt_take dest: in_set_takeD)
  show "reach clock ps rs (ms @ page_messages p) (getNextPageParam p)"
  proof (cases "page_limit < length old")
    case False
    then have "getNextPageParam p = None" by (simp add: p page_before_next old_def [symmetric])
    with False rest show ?thesis by (auto simp: reach_def new)
  next
    case True
    let ?t = "take page_limit old"
    let ?z = "last ?t"
    have ne: "?t \<noteq> []" using True by (auto simp: page_limit_def)
    have tok: "getNextPageParam p = Some (encodeCursor (cursor_of ?z))"
      using True by (simp add: p page_before_next old_def [symmetric])
    have z: "?z \<in> set old" using last_in_set [OF ne] by (rule in_set_takeD)
    have t_sorted: "newest_first clock ?t" using sorted by (rule sorted_wrt_take)
    have after: "newer clock ?z (cursor_of m)" if "m \<in> set (drop page_limit old)" for m
      using sorted that last_in_set [OF ne] by (metis append_take_drop_id sorted_wrt_append)
    have "m \<in> set ms \<or> m \<in> set ?t" if "m \<in> set rs" "\<not> newer clock ?z (cursor_of m)" for m
      using rest [OF that(1)] after that(2) by (metis Un_iff append_take_drop_id set_append)
    moreover have "\<not> newer clock ?z (cursor_of m)" if "m \<in> set ms \<or> m \<in> set ?t" for m
      using that cross [OF _ z] newer_asym newest_first_last [OF t_sorted] by blast
    moreover have "?z \<in> set ps" using z old_set rs by auto
    ultimately show ?thesis unfolding reach_def tok new option.case set_append by blast
  qed
qed


definition first_live :: "history \<Rightarrow> bool" where
  "first_live s \<longleftrightarrow>
     (\<forall>f. cached s = Some f \<longrightarrow> pages f \<noteq> [] \<and> set (page_messages (hd (pages f))) \<subseteq> set (rows s)
        \<and> (pg_data (hd (pages f)) = None \<longrightarrow> tl (pages f) = [] \<and> next_param s = None))"

definition history_inv :: "(string \<Rightarrow> int) \<Rightarrow> history \<Rightarrow> bool" where
  "history_inv clock s \<longleftrightarrow>
     log_ok clock (posted s) \<and> set (gone s) \<subseteq> msg_id ` set (posted s)
     \<and> newest_first clock (allMessages (cached s)) \<and> set (allMessages (cached s)) \<subseteq> set (posted s)
     \<and> first_live s
     \<and> (if fetched s then reach clock (posted s) (rows s) (allMessages (cached s)) (next_param s)
        else next_param s = None)"

lemma rows_posted: "set (rows s) \<subseteq> set (posted s)"
  by (auto simp: rows_def)

lemma rows_update [simp]: "rows (s\<lparr>cached := c\<rparr>) = rows s" "rows (s\<lparr>fetched := b\<rparr>) = rows s"
  by (simp_all add: rows_def)

lemma shown_snoc:
  "allMessages (Some (f\<lparr>pages := pages f @ [p], pageParams := q\<rparr>)) = allMessages (Some f) @ page_messages p"
  by (simp add: allMessages_def)

lemma fetchFirst_eq:
  "fetchFirst clock s = s\<lparr>cached := Some \<lparr>pages = [page_before clock (rows s) None], pageParams = [None]\<rparr>, fetched := True\<rparr>"
  by (simp add: fetchFirst_def load_page_first page_before_def)

lemma fetchFirst_inv:
  assumes "history_inv clock s"
  shows "history_inv clock (fetchFirst clock s)"
proof -
  have "rows (fetchFirst clock s) = rows s" "posted (fetchFirst clock s) = posted s" "gone (fetchFirst clock s) = gone s"
    by (simp_all add: fetchFirst_eq rows_def)
  moreover have "log_ok clock (posted s)" using assms by (simp add: history_inv_def)
  note append_page [OF this rows_def [of s], of "[]" None, simplified]
  moreover have "pg_data (page_before clock (rows s) None) = None \<longrightarrow> getNextPageParam (page_before clock (rows s) None) = None"
    by (simp add: page_before_data page_before_next)
  moreover have "rows s = filter (\<lambda>m. msg_id m \<notin> set (gone s)) (posted s)" by (rule rows_def)
  ultimately show ?thesis using assms rows_posted [of s]
    by (auto simp: history_inv_def first_live_def fetchFirst_eq allMessages_def next_param_def rows_def)
qed

lemma fetchNextPage_cases:
  assumes "history_inv clock s"
  obtains "next_param s = None" "fetchNextPage clock s = s"
  | f z where "cached s = Some f" "z \<in> set (posted s)" "next_param s = Some (encodeCursor (cursor_of z))" "fetched s"
      "\<forall>m \<in> set (rows s). \<not> newer clock z (cursor_of m) \<longrightarrow> m \<in> set (allMessages (cached s))"
      "\<forall>m \<in> set (allMessages (cached s)). \<not> newer clock z (cursor_of m)"
      "fetchNextPage clock s = s\<lparr>cached := Some (f\<lparr>pages := pages f @ [page_before clock (rows s) (Some (cursor_of z))],
         pageParams := pageParams f @ [Some (encodeCursor (cursor_of z))]\<rparr>)\<rparr>"
proof (cases "next_param s")
  case None
  then have "fetchNextPage clock s = s" by (simp add: fetchNextPage_def split: option.splits)
  with None that(1) show ?thesis by blast
next
  case (Some tok)
  then obtain f where f: "cached s = Some f" by (auto simp: next_param_def split: option.splits)
  have fe: "fetched s" using assms Some by (auto simp: history_inv_def split: if_splits)
  with assms Some have "reach clock (posted s) (rows s) (allMessages (cached s)) (Some tok)" by (simp add: history_inv_def)
  then obtain z where z: "z \<in> set (posted s)" "tok = encodeCursor (cursor_of z)"
      "\<forall>m \<in> set (rows s). \<not> newer clock z (cursor_of m) \<longrightarrow> m \<in> set (allMessages (cached s))"
      "\<forall>m \<in> set (allMessages (cached s)). \<not> newer clock z (cursor_of m)"
    by (auto simp: reach_def)
  show ?thesis
    by (rule that(2) [OF f z(1) _ fe z(3,4)]) (use Some f z(2) in \<open>simp_all add: fetchNextPage_def load_page_after page_before_def\<close>)
qed

lemma fetchNextPage_inv:
  assumes inv: "history_inv clock s"
  shows "history_inv clock (fetchNextPage clock s)"
  using inv
proof (cases rule: fetchNextPage_cases)
  case (2 f z)
  let ?p = "page_before clock (rows s) (Some (cursor_of z))"
  let ?t = "fetchNextPage clock s"
  have same: "rows ?t = rows s" "posted ?t = posted s" "gone ?t = gone s" "fetched ?t"
    using 2 by (simp_all add: rows_def)
  have all: "allMessages (cached ?t) = allMessages (cached s) @ page_messages ?p"
    using 2 by (simp add: shown_snoc)
  have nxt: "next_param ?t = getNextPageParam ?p" using 2 by (simp add: next_param_def)
  have "log_ok clock (posted s)" "newest_first clock (allMessages (cached s))" "set (allMessages (cached s)) \<subseteq> set (posted s)"
    using inv by (simp_all add: history_inv_def)
  note app = append_page [OF this(1) rows_def [of s] this(2,3), of "Some (cursor_of z)", OF _ refl]
  have "first_live ?t"
    using inv 2 by (auto simp: history_inv_def first_live_def same next_param_def)
  moreover have "newest_first clock (allMessages (cached ?t)) \<and> set (allMessages (cached ?t)) \<subseteq> set (posted s)
      \<and> reach clock (posted s) (rows s) (allMessages (cached ?t)) (next_param ?t)"
    using app 2 rows_posted [of s] inv unfolding all nxt by (auto simp: history_inv_def)
  ultimately show ?thesis using inv by (simp add: history_inv_def same)
qed (use inv in simp)

lemma fetchNextPage_pow_inv: "history_inv clock s \<Longrightarrow> history_inv clock ((fetchNextPage clock ^^ n) s)"
  by (induction n) (simp_all add: fetchNextPage_inv)

lemma refetch_inv: "history_inv clock s \<Longrightarrow> history_inv clock (refetch clock s)"
  by (auto simp: refetch_def fetchFirst_inv fetchNextPage_pow_inv split: option.splits)


text \<open>Events of the socket.\<close>

lemma first_data_pages:
  "first_data (Some f) = Some (g, p, ps, d) \<longleftrightarrow> g = f \<and> pages f = p # ps \<and> pg_data p = Some d"
  by (auto simp: first_data_def split: list.splits option.splits)

lemma first_data_cached:
  assumes "first_data old = Some (f, p, ps, d)"
  shows "old = Some f" and "pages f = p # ps" and "pg_data p = Some d"
proof -
  from assms obtain g where g: "old = Some g" by (cases old) (simp_all add: first_data_def)
  with assms show "old = Some f" "pages f = p # ps" "pg_data p = Some d" by (auto simp: first_data_pages)
qed

lemma first_rows: "first_live s \<Longrightarrow> first_data (cached s) = Some (f, p, ps, d) \<Longrightarrow> set d \<subseteq> set (rows s)"
  using first_data_cached [of "cached s" f p ps d] by (auto simp: first_live_def page_messages_def)

lemma first_data_none:
  assumes "first_live s" and "first_data (cached s) = None"
  shows "allMessages (cached s) = []" and "next_param s = None"
proof -
  have "allMessages (cached s) = [] \<and> next_param s = None"
  proof (cases "cached s")
    case (Some f)
    with assms(1) obtain p ps where "pages f = p # ps" "pg_data p = None \<longrightarrow> ps = [] \<and> next_param s = None"
      by (cases "pages f") (auto simp: first_live_def)
    with assms(2) Some show ?thesis
      by (cases "pg_data p") (auto simp: first_data_def allMessages_def page_messages_def)
  qed (simp add: allMessages_def next_param_def)
  then show "allMessages (cached s) = []" "next_param s = None" by simp_all
qed

lemma socket_event_some:
  assumes "first_data (cached s) = Some (f, p, ps, d)"
  shows "cached (socket_event e s) = Some (with_first f p ps (apply_first e d))"
    and "next_param (socket_event e s) = next_param s"
    and "allMessages (cached (socket_event e s)) = apply_first e d @ concat (map page_messages ps)"
    and "allMessages (cached s) = d @ concat (map page_messages ps)"
proof -
  show new: "cached (socket_event e s) = Some (with_first f p ps (apply_first e d))"
    using assms by (simp add: socket_event_def handleWsMessage_def Let_def)
  from first_data_cached [OF assms] show "next_param (socket_event e s) = next_param s"
    by (auto simp: next_param_def new with_first_def getNextPageParam_def)
  show "allMessages (cached (socket_event e s)) = apply_first e d @ concat (map page_messages ps)"
    by (simp add: new with_first_def allMessages_def page_messages_def)
  show "allMessages (cached s) = d @ concat (map page_messages ps)" using assms by (rule allMessages_first)
qed

lemma socket_event_fields [simp]:
  "posted (socket_event e s) = posted s" "gone (socket_event e s) = gone s" "fetched (socket_event e s) = fetched s"
  "rows (socket_event e s) = rows s"
  by (simp_all add: socket_event_def rows_def)

lemma first_live_some:
  assumes "first_data (cached s) = Some (f, p, ps, d)" and "set (apply_first e d) \<subseteq> set (rows s)"
  shows "first_live (socket_event e s)"
  using assms(2) by (simp add: first_live_def socket_event_some [OF assms(1)] with_first_def page_messages_def)

lemma log_ok_fresh: "log_ok clock ps \<Longrightarrow> fresh_post clock ps m \<Longrightarrow> log_ok clock (ps @ [m])"
  by (auto simp: log_ok_def fresh_post_def sorted_wrt_append)

lemma rows_fresh:
  assumes "set (gone s) \<subseteq> msg_id ` set (posted s)" and "fresh_post clock (posted s) m"
  shows "rows (s\<lparr>posted := posted s @ [m]\<rparr>) = rows s @ [m]"
  using assms by (auto simp: rows_def fresh_post_def)

lemma history_post_inv:
  assumes inv: "history_inv clock s" and m: "fresh_post clock (posted s) m"
  shows "history_inv clock (socket_event (NewMessage (Some m)) (s\<lparr>posted := posted s @ [m]\<rparr>))" (is "history_inv clock ?t")
proof -
  let ?s = "s\<lparr>posted := posted s @ [m]\<rparr>"
  let ?old = "allMessages (cached s)"
  have ok: "log_ok clock (posted s @ [m])" using inv m log_ok_fresh by (auto simp: history_inv_def)
  have rows: "rows ?s = rows s @ [m]" using inv m by (intro rows_fresh) (auto simp: history_inv_def)
  have id: "msg_id m \<noteq> []" "msg_id m \<notin> msg_id ` set (posted s)" "\<forall>x \<in> set (posted s). newer clock m (cursor_of x)"
    using m by (auto simp: fresh_post_def)
  have old: "newest_first clock ?old" "set ?old \<subseteq> set (posted s)" using inv by (auto simp: history_inv_def)
  have next_same: "next_param ?s = next_param s" by (simp add: next_param_def)
  have shown: "allMessages (cached ?t) = m # ?old \<and> next_param ?t = next_param s \<and> first_live ?t"
  proof (cases rule: first_data_cases [of "cached s"])
    case none
    have fl: "first_live s" using inv by (simp add: history_inv_def)
    have "cached ?t = Some (seed_feed [m])"
      using none id(1) by (simp add: socket_event_def handleWsMessage_def Let_def js_defs)
    then show ?thesis using first_data_none [OF fl none] rows
      by (simp add: seed_feed_def seedPage_def allMessages_def page_messages_def next_param_def getNextPageParam_def
          first_live_def js_defs)
  next
    case (some f p ps d)
    then have fd: "first_data (cached ?s) = Some (f, p, ps, d)" by simp
    have "set d \<subseteq> set (rows s)" using inv some by (intro first_rows) (auto simp: history_inv_def)
    moreover have "apply_first (NewMessage (Some m)) d = m # d"
    proof -
      have "\<forall>x \<in> set d. msg_id x \<noteq> msg_id m"
        using id(2) old(2) socket_event_some(4) [OF some] by (metis Un_iff image_eqI set_append subsetD)
      then show ?thesis using id(1) by (simp add: js_defs)
    qed
    ultimately show ?thesis
      using first_live_some [OF fd, of "NewMessage (Some m)"] socket_event_some(1-3) [OF fd, of "NewMessage (Some m)"]
        socket_event_some(4) [OF some] next_same rows by auto
  qed
  have "reach clock (posted s @ [m]) (rows s @ [m]) (m # ?old) (next_param s)" if "fetched s"
  proof -
    have "reach clock (posted s) (rows s) ?old (next_param s)" using inv that by (simp add: history_inv_def)
    moreover have "\<not> newer clock z (cursor_of m)" if "z \<in> set (posted s)" for z
      using id(3) that newer_asym by blast
    ultimately show ?thesis by (auto simp: reach_def split: option.splits)
  qed
  with shown ok old id(3) rows inv show ?thesis
    by (auto simp: history_inv_def)
qed

lemma history_delete_inv:
  assumes inv: "history_inv clock s" and i: "i \<in> msg_id ` set (rows s)"
  shows "history_inv clock (socket_event (DeletedMessage (Some i)) (s\<lparr>gone := i # gone s\<rparr>))" (is "history_inv clock ?t")
proof -
  let ?s = "s\<lparr>gone := i # gone s\<rparr>"
  let ?old = "allMessages (cached s)"
  have rows: "rows ?s = filter (\<lambda>m. msg_id m \<noteq> i) (rows s)" by (auto simp: rows_def intro: filter_cong)
  have "i \<in> msg_id ` set (posted s)" using i rows_posted [of s] by auto
  then have ids: "i \<noteq> []" "set (gone ?s) \<subseteq> msg_id ` set (posted s)"
    using inv by (auto simp: history_inv_def log_ok_def)
  have next_same: "next_param ?s = next_param s" by (simp add: next_param_def)
  obtain d r where shown: "?old = d @ r" "allMessages (cached ?t) = filter (\<lambda>m. msg_id m \<noteq> i) d @ r"
      "next_param ?t = next_param s" "first_live ?t"
  proof (cases rule: first_data_cases [of "cached s"])
    case none
    have fl: "first_live s" using inv by (simp add: history_inv_def)
    have "cached ?t = cached s" using none by (simp add: socket_event_def handleWsMessage_def Let_def)
    moreover have "first_live ?t" using fl none calculation
      by (cases "cached s")
        (auto simp: first_live_def next_param_def first_data_def page_messages_def split: list.splits option.splits)
    ultimately show ?thesis using that [of "[]" "[]"] first_data_none [OF fl none] by (simp add: next_param_def)
  next
    case (some f p ps d)
    then have fd: "first_data (cached ?s) = Some (f, p, ps, d)" by simp
    have "set d \<subseteq> set (rows s)" using inv some by (intro first_rows) (auto simp: history_inv_def)
    moreover have "apply_first (DeletedMessage (Some i)) d = filter (\<lambda>m. msg_id m \<noteq> i) d" using ids(1) by (simp add: js_defs)
    ultimately show ?thesis
      using that [of d] first_live_some [OF fd, of "DeletedMessage (Some i)"] rows next_same
        socket_event_some(1-3) [OF fd, of "DeletedMessage (Some i)"] socket_event_some(4) [OF some] by auto
  qed
  have "newest_first clock (filter (\<lambda>m. msg_id m \<noteq> i) d @ r) \<and> set (filter (\<lambda>m. msg_id m \<noteq> i) d @ r) \<subseteq> set (posted s)"
    using inv shown(1) by (auto simp: history_inv_def sorted_wrt_append sorted_wrt_filter)
  moreover have "reach clock (posted s) (rows ?s) (filter (\<lambda>m. msg_id m \<noteq> i) d @ r) (next_param s)" if "fetched s"
  proof -
    have "reach clock (posted s) (rows s) (d @ r) (next_param s)" using inv that shown(1) by (simp add: history_inv_def)
    then show ?thesis by (auto simp: reach_def rows split: option.splits)
  qed
  ultimately show ?thesis using inv ids shown by (auto simp: history_inv_def)
qed

lemma history_inv_step:
  assumes "history_inv clock s" and "history_step clock s e t"
  shows "history_inv clock t"
  using assms(2,1)
  by (elim history_stepE) (simp_all add: fetchFirst_inv fetchNextPage_inv refetch_inv history_post_inv history_delete_inv)

lemma history_inv_init: "history_init clock s \<Longrightarrow> history_inv clock s"
  by (simp add: history_init_def history_inv_def first_live_def allMessages_def next_param_def)

interpretation history: invariant_machine "history_init clock" "history_step clock" "history_inv clock" for clock
  by unfold_locales (rule history_inv_init, assumption, rule history_inv_step)



section \<open>What is shown of the rows\<close>

definition live_messages :: "history \<Rightarrow> message list" where
  "live_messages s = filter (\<lambda>m. msg_id m \<notin> set (gone s)) (allMessages (cached s))"

lemma newest_first_unique:
  "newest_first clock xs \<Longrightarrow> newest_first clock ys \<Longrightarrow> set xs = set ys \<Longrightarrow> xs = ys"
proof (induction xs arbitrary: ys)
  case (Cons x xs)
  then obtain y ys' where ys: "ys = y # ys'" by (cases ys) auto
  have "x = y"
  proof (rule ccontr)
    assume "x \<noteq> y"
    with Cons.prems ys have "x \<in> set ys'" "y \<in> set xs" by auto
    with Cons.prems ys have "newer clock x (cursor_of y)" "newer clock y (cursor_of x)" by auto
    then show False using newer_asym by blast
  qed
  moreover have "x \<notin> set xs" "y \<notin> set ys'" using Cons.prems ys by auto
  then have "set xs = set ys'" using Cons.prems(3) ys \<open>x = y\<close> by auto
  ultimately show ?case using Cons.IH [of ys'] Cons.prems ys by simp
qed simp

lemma not_older_prefix:
  "newest_first clock xs \<Longrightarrow>
   filter (\<lambda>m. \<not> newer clock z (cursor_of m)) xs = takeWhile (\<lambda>m. \<not> newer clock z (cursor_of m)) xs"
proof (induction xs)
  case (Cons x xs)
  then show ?case using newer_trans [of clock z x] by (auto simp: filter_empty_conv)
qed simp

lemma live_messages_eq:
  assumes inv: "history_inv clock s" and fe: "fetched s"
  shows "next_param s = None \<Longrightarrow> live_messages s = rev (rows s)"
    and "next_param s = Some (encodeCursor (cursor_of z)) \<Longrightarrow>
      \<forall>m \<in> set (rows s). \<not> newer clock z (cursor_of m) \<longrightarrow> m \<in> set (allMessages (cached s)) \<Longrightarrow>
      \<forall>m \<in> set (allMessages (cached s)). \<not> newer clock z (cursor_of m) \<Longrightarrow>
      live_messages s = filter (\<lambda>m. \<not> newer clock z (cursor_of m)) (rev (rows s))"
proof -
  have sorted: "newest_first clock (live_messages s)"
    using inv by (simp add: history_inv_def live_messages_def sorted_wrt_filter)
  have "newest_first clock (filter P (rev (rows s)))" for P
    unfolding rows_def by (rule log_newest_first) (use inv in \<open>simp add: history_inv_def\<close>)
  note unique = newest_first_unique [OF sorted this]
  have sub: "set (allMessages (cached s)) \<subseteq> set (posted s)" using inv by (simp add: history_inv_def)
  show "live_messages s = rev (rows s)" if "next_param s = None"
  proof -
    have "set (rows s) \<subseteq> set (allMessages (cached s))" using inv fe that by (simp add: history_inv_def reach_def)
    with sub have "set (live_messages s) = set (filter (\<lambda>m. True) (rev (rows s)))"
      by (auto simp: live_messages_def rows_def)
    from unique [OF this] show ?thesis by simp
  qed
  show "live_messages s = filter (\<lambda>m. \<not> newer clock z (cursor_of m)) (rev (rows s))"
    if "\<forall>m \<in> set (rows s). \<not> newer clock z (cursor_of m) \<longrightarrow> m \<in> set (allMessages (cached s))"
      and "\<forall>m \<in> set (allMessages (cached s)). \<not> newer clock z (cursor_of m)"
  proof (rule unique)
    show "set (live_messages s) = set (filter (\<lambda>m. \<not> newer clock z (cursor_of m)) (rev (rows s)))"
      using that sub by (auto simp: live_messages_def rows_def)
  qed
qed

lemma live_messages_prefix:
  assumes inv: "history_inv clock s" and fe: "fetched s"
  shows "\<exists>n. live_messages s = take n (rev (rows s))"
  using inv
proof (cases rule: fetchNextPage_cases)
  case 1
  then have "live_messages s = take (length (rows s)) (rev (rows s))" using live_messages_eq(1) [OF inv fe] by simp
  then show ?thesis by blast
next
  case (2 f z)
  have "newest_first clock (filter (\<lambda>m. True) (rev (rows s)))" unfolding rows_def
    by (rule log_newest_first) (use inv in \<open>simp add: history_inv_def\<close>)
  with live_messages_eq(2) [OF inv fe 2(3,5,6)]
  have "live_messages s = takeWhile (\<lambda>m. \<not> newer clock z (cursor_of m)) (rev (rows s))"
    by (simp add: not_older_prefix)
  then show ?thesis by (metis takeWhile_eq_take)
qed

text \<open>How much is still to be loaded.\<close>

definition missing :: "history \<Rightarrow> nat" where
  "missing s = length (rows s) - length (live_messages s)"

lemma fetchNextPage_progress:
  assumes inv: "history_inv clock s" and more: "hasNextPage (fetchNextPage clock s)"
  shows "page_limit < missing s" and "missing (fetchNextPage clock s) + page_limit \<le> missing s"
proof -
  let ?t = "fetchNextPage clock s"
  have "page_limit < missing s \<and> missing ?t + page_limit \<le> missing s"
    using inv
  proof (cases rule: fetchNextPage_cases)
    case 1
    with more show ?thesis by (simp add: hasNextPage_def)
  next
    case (2 f z)
    let ?old = "filter (\<lambda>m. newer clock z (cursor_of m)) (rev (rows s))"
    let ?p = "page_before clock (rows s) (Some (cursor_of z))"
    have bef: "before clock (Some (cursor_of z)) = (\<lambda>m. newer clock z (cursor_of m))"
      by (simp add: fun_eq_iff before_def earlier_iff)
    have "next_param ?t = getNextPageParam ?p" using 2 by (simp add: next_param_def)
    with more have long: "page_limit < length ?old"
      by (auto simp: hasNextPage_def page_before_next bef Let_def split: if_splits)
    have "live_messages s = filter (\<lambda>m. \<not> newer clock z (cursor_of m)) (rev (rows s))"
      by (rule live_messages_eq(2) [OF inv 2(4,3,5,6)])
    with sum_length_filter_compl [of "\<lambda>m. newer clock z (cursor_of m)" "rev (rows s)"]
    have count: "length ?old + length (live_messages s) = length (rows s)" by simp
    have "allMessages (cached ?t) = allMessages (cached s) @ take page_limit ?old"
      using 2 by (simp add: shown_snoc page_before_messages bef)
    moreover have "gone ?t = gone s" "rows ?t = rows s" using 2 by simp_all
    moreover have "filter (\<lambda>m. msg_id m \<notin> set (gone s)) (take page_limit ?old) = take page_limit ?old"
      by (rule filter_True) (auto simp: rows_def dest: in_set_takeD)
    ultimately have "live_messages ?t = live_messages s @ take page_limit ?old" "rows ?t = rows s"
      by (simp_all add: live_messages_def)
    with count long show ?thesis by (simp add: missing_def)
  qed
  then show "page_limit < missing s" "missing ?t + page_limit \<le> missing s" by simp_all
qed

lemma fetchNextPage_stays: "\<not> hasNextPage s \<Longrightarrow> (fetchNextPage clock ^^ n) s = s"
  by (induction n) (simp_all add: fetchNextPage_def hasNextPage_def split: option.splits)

lemma scroll_ends:
  "history_inv clock s \<Longrightarrow> missing s \<le> page_limit * n \<Longrightarrow> 0 < n \<Longrightarrow> \<not> hasNextPage ((fetchNextPage clock ^^ n) s)"
proof (induction n arbitrary: s)
  case (Suc n)
  let ?t = "fetchNextPage clock s"
  have pow: "(fetchNextPage clock ^^ Suc n) s = (fetchNextPage clock ^^ n) ?t" by (simp add: funpow_Suc_right del: funpow.simps)
  show ?case
  proof (cases "hasNextPage ?t")
    case False
    then show ?thesis unfolding pow by (simp add: fetchNextPage_stays)
  next
    case True
    with fetchNextPage_progress [OF Suc.prems(1)] Suc.prems(2) have "missing ?t \<le> page_limit * n" "0 < n"
      by (auto intro: Nat.gr0I)
    then show ?thesis unfolding pow by (intro Suc.IH fetchNextPage_inv Suc.prems)
  qed
qed simp

lemma fetched_pow: "fetched ((fetchNextPage clock ^^ n) s) = fetched s" "rows ((fetchNextPage clock ^^ n) s) = rows s"
proof -
  have "fetched (fetchNextPage clock s) = fetched s \<and> rows (fetchNextPage clock s) = rows s" for s
    by (simp add: fetchNextPage_def split: option.splits)
  then show "fetched ((fetchNextPage clock ^^ n) s) = fetched s" "rows ((fetchNextPage clock ^^ n) s) = rows s"
    by (induction n) simp_all
qed

lemma pow_shows_rows:
  assumes "history_inv clock s" and "set (allMessages (cached s)) \<subseteq> set (rows s)"
  shows "set (allMessages (cached ((fetchNextPage clock ^^ n) s))) \<subseteq> set (rows s)"
proof (induction n)
  case (Suc n)
  let ?u = "(fetchNextPage clock ^^ n) s"
  from fetchNextPage_pow_inv [OF assms(1)] have "history_inv clock ?u" .
  then show ?case
  proof (cases rule: fetchNextPage_cases)
    case (2 f z)
    then have "allMessages (cached (fetchNextPage clock ?u))
        = allMessages (cached ?u) @ page_messages (page_before clock (rows s) (Some (cursor_of z)))"
      by (simp add: shown_snoc fetched_pow)
    with Suc.IH show ?thesis by (auto simp: page_before_messages dest: in_set_takeD)
  qed (use Suc.IH in simp)
qed (use assms(2) in simp)

lemma refetch_shows_rows:
  assumes "history_inv clock s"
  shows "set (allMessages (cached (refetch clock s))) \<subseteq> set (rows s)"
proof -
  have "set (allMessages (cached (fetchFirst clock s))) \<subseteq> set (rows (fetchFirst clock s))"
    by (auto simp: fetchFirst_eq allMessages_def page_before_messages dest: in_set_takeD)
  from pow_shows_rows [OF fetchFirst_inv [OF assms] this]
  have pow: "set (allMessages (cached ((fetchNextPage clock ^^ n) (fetchFirst clock s)))) \<subseteq> set (rows s)" for n
    by (simp add: fetchFirst_eq)
  show ?thesis using pow [of 0] pow by (simp add: refetch_def split: option.splits)
qed


section \<open>Properties\<close>


text \<open>A room of sixty messages, opened for the first time.\<close>

definition long_room :: history where
  "long_room = \<lparr>posted = map (\<lambda>k. msg_at (replicate (k + 1) CHR ''i'') (replicate k CHR ''t'') ''x'') [0..<60],
     gone = [], cached = None, fetched = False\<rparr>"

lemma long_room_ok: "log_ok stamp_clock (posted long_room)"
proof -
  have "plain_text (replicate n c)" if "plain_char c" for n c
    using that by (simp add: plain_text_def list_all_iff)
  then have "plain_text (replicate n CHR ''i'')" "plain_text (replicate n CHR ''t'')" for n
    by (simp_all add: plain_char_def)
  moreover have "inj_on (\<lambda>k. replicate (k + 1) CHR ''i'') A" for A
    by (auto simp: inj_on_def)
  ultimately show ?thesis
    by (auto simp: long_room_def log_ok_def sorted_wrt_map newer_def stamp_clock_def cursor_of_def msg_at_def
        plain_cursor_def comp_def distinct_map sorted_wrt_iff_nth_less simp del: replicate_Suc upt_rec_numeral)
qed

lemma long_room_opened: "reachable (history_init stamp_clock) (history_step stamp_clock) (fetchFirst stamp_clock long_room)"
proof -
  have "history_init stamp_clock long_room" using long_room_ok by (simp add: history_init_def long_room_def)
  moreover have "run (history_step stamp_clock) long_room [Loaded] (fetchFirst stamp_clock long_room)"
    by (rule run_Cons, rule h_load, rule run_Nil)
  ultimately show ?thesis unfolding reachable_def by blast
qed

lemma long_room_first:
  "fetched (fetchFirst stamp_clock long_room)" "hasNextPage (fetchFirst stamp_clock long_room)"
  "rows (fetchFirst stamp_clock long_room) = posted long_room" "length (posted long_room) = 60"
proof -
  show size: "length (posted long_room) = 60" by (simp add: long_room_def)
  have rows: "rows long_room = posted long_room" by (simp add: rows_def long_room_def del: upt_rec_numeral)
  then show "rows (fetchFirst stamp_clock long_room) = posted long_room" by (simp add: fetchFirst_eq)
  show "fetched (fetchFirst stamp_clock long_room)" by (simp add: fetchFirst_eq)
  show "hasNextPage (fetchFirst stamp_clock long_room)"
    using size rows by (simp add: fetchFirst_eq hasNextPage_def next_param_def page_before_next before_def Let_def page_limit_def)
qed


text \<open>
  C19: scrolling back ends at the beginning of the room. From every state of a run in which the query has
  been answered, loading older messages once for every full page of the room, and once more, shows every
  message of the room and leaves no next page.
\<close>

theorem scrolling_reaches_start:
  assumes "reachable (history_init clock) (history_step clock) s" and "fetched s"
    and "t = (fetchNextPage clock ^^ (length (rows s) div page_limit + 1)) s"
  shows "\<not> hasNextPage t \<and> rows t = rows s \<and> live_messages t = rev (rows s)"
proof -
  have inv: "history_inv clock s" by (rule history.reachable_inv [OF assms(1)])
  have "length (rows s) < page_limit * (length (rows s) div page_limit + 1)"
    by (simp add: dividend_less_div_times page_limit_def)
  then have "missing s \<le> page_limit * (length (rows s) div page_limit + 1)" by (simp add: missing_def)
  from scroll_ends [OF inv this] have end_page: "\<not> hasNextPage t" by (simp add: assms(3))
  have same: "fetched t" "rows t = rows s" using assms(2) by (simp_all only: assms(3) fetched_pow)
  have "history_inv clock t" unfolding assms(3) by (rule fetchNextPage_pow_inv [OF inv])
  from live_messages_eq(1) [OF this same(1)] end_page same show ?thesis by (simp add: hasNextPage_def)
qed


theorem scrolling_reaches_start_witness:
  "hasNextPage (fetchFirst stamp_clock long_room)
   \<and> live_messages ((fetchNextPage stamp_clock ^^ 2) (fetchFirst stamp_clock long_room)) = rev (posted long_room)"
proof -
  have "length (rows (fetchFirst stamp_clock long_room)) div page_limit + 1 = 2"
    by (simp add: long_room_first page_limit_def)
  with scrolling_reaches_start [OF long_room_opened long_room_first(1) refl] long_room_first(2,3)
  show ?thesis by metis
qed

end
