(* ===== verification/Room_Access.thy ===== *)
theory Room_Access
  imports History Chat_Page
begin

text \<open>
  Loading messages through the whole stack: \<open>fetchMessages\<close> of \<^verbatim>\<open>features/chat/api/chat-api.ts\<close>, the
  client's exchange with proofs and refreshes, the URL, and the handler and the service of the chat query
  (\<^verbatim>\<open>src/backend/services/chat/query\<close>) with its test of membership. The main result is that what the call
  returns is what the service's function returns, or an error.
\<close>


section \<open>service/query.go and shared/errs/err.go\<close>

text \<open>
  \<open>members\<close> answers for a room, None when the room service fails; \<open>rows_of\<close> are the rows of the
  projection, oldest first. Every error that is no \<open>AppError\<close> is answered alike.
\<close>

datatype service_error = AppError nat string | OtherError

record chat_db =
  valid_uuid :: "string \<Rightarrow> bool"
  members :: "string \<Rightarrow> string list option"
  rows_of :: "string \<Rightarrow> message list"

record list_request =
  lr_room :: string
  lr_cursor :: string
  lr_after :: string

definition ListByRoomId ::
    "(string \<Rightarrow> int) \<Rightarrow> message list \<Rightarrow> string \<Rightarrow> service_error + (message list \<times> string option)" where
  "ListByRoomId clock rs cur =
     (if cur = [] then Inr (listBefore clock rs None)
      else case decodeCursor cur of None \<Rightarrow> Inl OtherError | Some c \<Rightarrow> Inr (listBefore clock rs (Some c)))"

definition ListMessages ::
    "(string \<Rightarrow> int) \<Rightarrow> chat_db \<Rightarrow> string \<Rightarrow> list_request \<Rightarrow> service_error + (message list \<times> string option)" where
  "ListMessages clock db user req =
     (if \<not> valid_uuid db (lr_room req) then Inl OtherError
      else case members db (lr_room req) of None \<Rightarrow> Inl OtherError
      | Some ms \<Rightarrow>
          if user \<notin> set ms then Inl (AppError 403 ''You are not a member of this room'')
          else if lr_after req \<noteq> []
          then (case decodeCursor (lr_after req) of None \<Rightarrow> Inl OtherError
                | Some c \<Rightarrow> Inr (listAfter clock (rows_of db (lr_room req)) c, None))
          else ListByRoomId clock (rows_of db (lr_room req)) (lr_cursor req))"

fun ParseError :: "service_error \<Rightarrow> nat \<times> string" where
  "ParseError (AppError st m) = (st, m)"
| "ParseError OtherError = (500, ''Internal Server Error'')"

text \<open>\<open>response.Error\<close>: a body without a code, and without data.\<close>

definition error_response :: "string \<Rightarrow> json" where
  "error_response m =
     jobject [(''success'', Some (JBool False)), (''message'', if m = [] then None else Some (JStr m))]"


section \<open>handler/query.go\<close>

text \<open>\<open>c.QueryParam\<close>: the first value of a key in the query, the empty string without one.\<close>

definition QueryParam :: "string \<Rightarrow> string \<Rightarrow> string" where
  "QueryParam key url =
     (case parse_query (query_part url) of None \<Rightarrow> []
      | Some kvs \<Rightarrow> (case map_of kvs key of None \<Rightarrow> [] | Some v \<Rightarrow> v))"

definition list_handler :: "(string \<Rightarrow> int) \<Rightarrow> chat_db \<Rightarrow> string \<Rightarrow> string \<Rightarrow> string \<Rightarrow> nat \<times> json" where
  "list_handler clock db user room url =
     (if room = [] then (400, error_response ''room id is required'')
      else case ListMessages clock db user
             \<lparr>lr_room = room, lr_cursor = QueryParam ''cursor'' url, lr_after = QueryParam ''after'' url\<rparr> of
             Inl e \<Rightarrow> (case ParseError e of (st, m) \<Rightarrow> (st, error_response m))
           | Inr r \<Rightarrow> (200, list_response r))"

text \<open>An answer of the gateway's authentication, before the handler is reached.\<close>

definition turned_away :: "response \<Rightarrow> bool" where
  "turned_away res \<longleftrightarrow> rs_status res = 401 \<or> isUseNonceResponse res"

text \<open>
  A network behind which the service is reached: an answer to the address comes from the authentication
  or from the handler. It may also fail.
\<close>

definition messages_url :: "string \<Rightarrow> string option \<Rightarrow> string option \<Rightarrow> string" where
  "messages_url room cur aft =
     request_url (API_PATHS (ChatMessages room)) (Some [(''cursor'', map_option PStr cur), (''after'', map_option PStr aft)])"

definition served_by :: "'w platform \<Rightarrow> (string \<Rightarrow> nat \<times> json) \<Rightarrow> string \<Rightarrow> bool" where
  "served_by pl handler url \<longleftrightarrow>
     (\<forall>rq w res. rq_url rq = url \<longrightarrow> fst (fetch pl rq w) = Inr res \<longrightarrow>
        turned_away res \<or> (rs_status res, rs_text res) = (fst (handler url), stringify (snd (handler url))))"

text \<open>What the caller of \<open>fetchMessages\<close> gets, by the service's result.\<close>

definition call_outcome :: "service_error + (message list \<times> string option) \<Rightarrow> js_error + json" where
  "call_outcome x =
     (case x of
        Inl e \<Rightarrow> Inl (ApiError (fst (ParseError e)) ''UNKNOWN'' (snd (ParseError e)) None)
      | Inr r \<Rightarrow> Inr (list_response r))"


section \<open>The answers the client sees\<close>

definition answer_of :: "'w platform \<Rightarrow> http_request \<times> (string + response) \<Rightarrow> bool" where
  "answer_of pl p \<longleftrightarrow> (\<exists>w. snd p = fst (fetch pl (fst p) w))"

lemma adds_to_keeps: "keeps f m \<Longrightarrow> adds_to f P m"
  by (simp add: keeps_def adds_to_def)

lemma keeps_log_basic: "keeps log_of (on_world (dateNow (logged pl)))"
  by (simp add: logged_sel keeps_log_lift)

lemma adds_answer:
  fixes pl :: "'w platform"
  shows "adds_to (log_of :: ('w \<times> traffic, 'z) dpop_state_scheme \<Rightarrow> traffic) (answer_of pl) (on_world (fetch (logged pl) rq))"
  unfolding adds_to_def
proof
  fix s :: "('w \<times> traffic, 'z) dpop_state_scheme"
  obtain w l a w' where w: "world s = (w, l)" "fetch pl rq w = (a, w')" by (metis surj_pair)
  then have "answer_of pl (rq, a)" unfolding answer_of_def by (metis fst_conv snd_conv)
  with w show "\<exists>xs. log_of (snd (on_world (fetch (logged pl) rq) s)) = log_of s @ xs \<and> list_all (answer_of pl) xs"
    by (auto simp: on_world_def logged_def)
qed

lemma fetchWithProof_answers:
  "adds_to log_of (answer_of pl) (fetchWithProof (logged pl) url meth headers body nonce)"
  unfolding fetchWithProof_def
  by (intro adds_to_intros adds_to_keeps [OF createDPoPProof_keeps_log] adds_answer; simp split: sum.splits add: adds_to_intros)

lemma capture_answers: "adds_to log_of P (captureDPoPNonce res)"
  unfolding captureDPoPNonce_def setDPoPNonce_def by (intro adds_to_intros; simp)

lemma nonce_loop_answers:
  "adds_to log_of (answer_of pl) (nonce_loop n (logged pl) url meth headers body res c)"
  by (induction n arbitrary: res c)
    (auto intro!: adds_to_intros fetchWithProof_answers capture_answers)

lemma doFetch_answers: "adds_to log_of (answer_of pl) (doFetch (logged pl) url meth headers body)"
  unfolding doFetch_def
  by (intro adds_to_intros fetchWithProof_answers capture_answers nonce_loop_answers)

lemma refresh_answers: "adds_to log_of (answer_of pl) (refreshAccessToken (logged pl))"
  unfolding refreshAccessToken_def setAccessToken_def res_json_def
  by (intro adds_to_intros doFetch_answers; simp)

lemma token_answers: "adds_to log_of (answer_of pl) (getValidToken (logged pl))"
  unfolding getValidToken_def isTokenExpired_def
  by (intro adds_to_intros refresh_answers adds_to_keeps [OF keeps_log_basic]; simp)

lemma apiRequest_answers: "adds_to log_of (answer_of pl) (apiRequest (logged pl) path options)"
  unfolding apiRequest_def Let_def finish_request_def res_json_def
  by (intro adds_to_intros token_answers doFetch_answers refresh_answers; simp)



section \<open>What an exchange yields\<close>

definition served :: "string + response \<Rightarrow> bool" where
  "served a \<longleftrightarrow> (\<exists>res. a = Inr res \<and> \<not> turned_away res)"

definition reached :: "string \<Rightarrow> traffic \<Rightarrow> bool" where
  "reached url l \<longleftrightarrow> (\<exists>(rq, a) \<in> set l. rq_url rq = url \<and> served a)"

lemma reached_append [simp]: "reached url (l @ l') \<longleftrightarrow> reached url l \<or> reached url l'"
  by (auto simp: reached_def)

lemma reached_Nil [simp]: "\<not> reached url []"
  by (simp add: reached_def)

lemma exchange_reached:
  "exchange n (carries url meth headers body) nonce l x \<Longrightarrow>
     reached url l \<longleftrightarrow> (\<exists>res. x = Inr res \<and> \<not> turned_away res \<and> (\<exists>rq. (rq, Inr res) \<in> set l \<and> rq_url rq = url))"
proof (induction n "carries url meth headers body" nonce l x rule: exchange.induct)
  case (2 n nonce rq a l x)
  then show ?case
    by (cases a) (auto simp: reached_def served_def turned_away_def carries_def split: if_splits)
qed (auto simp: reached_def)

lemma exchange_answer: "exchange n (carries url meth headers body) nonce l (Inr res) \<Longrightarrow> \<exists>rq. (rq, Inr res) \<in> set l \<and> rq_url rq = url"
proof (induction n "carries url meth headers body" nonce l "Inr res :: js_error + response" rule: exchange.induct)
  case (2 n nonce rq a l)
  then show ?case by (cases a) (auto simp: carries_def split: if_splits)
qed simp

lemma refresh_not_reached:
  assumes "refresh_run nonce l t" and "url \<noteq> ''/api/auth/refresh''"
  shows "\<not> reached url l"
  using assms refresh_run_requests by (fastforce simp: reached_def)

lemma outcome_turned_away: "turned_away res \<Longrightarrow> isl (request_outcome (Inr res))"
  by (auto simp: request_outcome_def turned_away_def isUseNonceResponse_def rs_ok_def split: option.splits)

text \<open>The end of one exchange: an error when the service was not reached, and its answer otherwise.\<close>

lemma exchange_ends:
  assumes "exchange n (carries url meth headers body) nonce l x"
  shows "if reached url l
    then \<exists>rq res. (rq, Inr res) \<in> set l \<and> rq_url rq = url \<and> \<not> turned_away res \<and> x = Inr res
    else isl (request_outcome x)"
proof (cases "reached url l")
  case True
  with exchange_reached [OF assms] show ?thesis by auto
next
  case False
  show ?thesis
  proof (cases x)
    case (Inr res)
    with exchange_answer assms have "\<exists>rq. (rq, Inr res) \<in> set l \<and> rq_url rq = url" by blast
    with False Inr have "turned_away res" by (auto simp: reached_def served_def)
    with False Inr outcome_turned_away show ?thesis by simp
  qed (use False in \<open>simp add: request_outcome_def\<close>)
qed

lemma authed_ends:
  assumes "authed_run url meth headers body nonce l r" and url: "url \<noteq> ''/api/auth/refresh''"
  shows "if reached url l
    then \<exists>rq res. (rq, Inr res) \<in> set l \<and> rq_url rq = url \<and> \<not> turned_away res \<and> r = request_outcome (Inr res)
    else isl r"
proof -
  from assms(1) obtain l1 x rest where l: "l = l1 @ rest" and x: "exchange 2 (carries url meth headers body) nonce l1 x"
    and rest: "if \<exists>res. x = Inr res \<and> rs_status res = 401
         then \<exists>l2 t l3. rest = l2 @ l3 \<and> refresh_run (nonce_after l1 nonce) l2 t \<and>
                (if t = None then l3 = [] \<and> r = request_outcome x
                 else \<exists>y. exchange 2 (carries url meth (authorize t headers) body)
                             (nonce_after l2 (nonce_after l1 nonce)) l3 y \<and> r = request_outcome y)
         else rest = [] \<and> r = request_outcome x"
    unfolding authed_run_def by blast
  note first = exchange_ends [OF x]
  show ?thesis
  proof (cases "\<exists>res. x = Inr res \<and> rs_status res = 401")
    case False
    with rest first l show ?thesis by (auto split: if_splits)
  next
    case True
    with rest obtain l2 t l3 where r: "rest = l2 @ l3" "refresh_run (nonce_after l1 nonce) l2 t"
      and t: "if t = None then l3 = [] \<and> r = request_outcome x
         else \<exists>y. exchange 2 (carries url meth (authorize t headers) body)
                (nonce_after l2 (nonce_after l1 nonce)) l3 y \<and> r = request_outcome y" by auto
    have no: "\<not> reached url l1" "\<not> reached url l2"
      using exchange_reached [OF x] True refresh_not_reached [OF r(2) url] by (auto simp: turned_away_def)
    show ?thesis
    proof (cases t)
      case None
      with t no first l r(1) show ?thesis by simp
    next
      case (Some tok)
      with t obtain y where y: "exchange 2 (carries url meth (authorize t headers) body)
          (nonce_after l2 (nonce_after l1 nonce)) l3 y" "r = request_outcome y" by auto
      from exchange_ends [OF y(1)] y(2) no l r(1) show ?thesis by (auto split: if_splits)
    qed
  qed
qed

lemma api_ends:
  assumes "api_run path options token nonce l r" and "opt_auth options \<noteq> Some False"
    and url: "url = request_url path (opt_params options)" "url \<noteq> ''/api/auth/refresh''"
  shows "if reached url l
    then \<exists>rq res. (rq, Inr res) \<in> set l \<and> rq_url rq = url \<and> \<not> turned_away res \<and> r = request_outcome (Inr res)
    else isl r"
proof -
  from assms(1,2) obtain meth headers body l1 l2 t n2 where l: "l = l1 @ l2"
    and l1: "l1 = [] \<or> refresh_run nonce l1 t" and l2: "authed_run url meth headers body n2 l2 r"
    unfolding url(1) by (rule api_run_authE) blast
  have "\<not> reached url l1" using l1 refresh_not_reached [OF _ url(2)] by auto
  with authed_ends [OF l2 url(2)] l show ?thesis by (auto split: if_splits)
qed



section \<open>The service at the other end\<close>

lemma messages_url_not_refresh: "messages_url room cur aft \<noteq> ''/api/auth/refresh''"
  by (simp add: messages_url_def request_url_def)

lemma query_params:
  assumes "well_formed_endpoint (ChatMessages room)"
  shows "QueryParam ''cursor'' (messages_url room cur aft) = str_of cur"
    and "QueryParam ''after'' (messages_url room cur aft) = str_of aft"
proof -
  let ?ps = "[(''cursor'', map_option PStr cur), (''after'', map_option PStr aft)]"
  have "parse_query (query_part (messages_url room cur aft)) = Some (sent_params ?ps)"
    unfolding messages_url_def
    by (subst query_part_request_url) (use assms in \<open>simp_all add: parse_query_toString\<close>)
  then show "QueryParam ''cursor'' (messages_url room cur aft) = str_of cur"
    "QueryParam ''after'' (messages_url room cur aft) = str_of aft"
    by (cases cur; cases aft; simp add: QueryParam_def str_of_def)+
qed

lemma ListMessages_errors:
  "ListMessages clock db user req = Inl e \<Longrightarrow> fst (ParseError e) \<in> {403, 500} \<and> snd (ParseError e) \<noteq> []"
  by (auto simp: ListMessages_def ListByRoomId_def split: if_splits option.splits)

lemma error_response_neq [simp]: "error_response m \<noteq> JNull"
  by (simp add: error_response_def jobject_def)

lemma outcome_error:
  assumes "rs_status res \<in> {403, 500}" and "rs_text res = stringify (error_response m)" and "m \<noteq> []"
  shows "request_outcome (Inr res) = Inl (ApiError (rs_status res) ''UNKNOWN'' m None)"
proof -
  have "\<not> rs_ok res" using assms(1) by (auto simp: rs_ok_def)
  with assms(2,3) show ?thesis
    by (simp add: request_outcome_def json_parse_stringify api_error_def error_response_def jfield_jobject_Cons
        string_or_def) (simp add: jobject_def)
qed

lemma outcome_ok:
  "rs_status res = 200 \<Longrightarrow> rs_text res = stringify v \<Longrightarrow> request_outcome (Inr res) = Inr v"
  by (simp add: request_outcome_def json_parse_stringify rs_ok_def)

lemma handler_outcome:
  assumes "well_formed_endpoint (ChatMessages room)"
    and "(rs_status res, rs_text res) = (fst h, stringify (snd h))"
    and "h = list_handler clock db user room (messages_url room cur aft)"
  shows "request_outcome (Inr res) = call_outcome
    (ListMessages clock db user \<lparr>lr_room = room, lr_cursor = str_of cur, lr_after = str_of aft\<rparr>)"
proof -
  have "room \<noteq> []" using assms(1) by (simp add: well_formed_endpoint_def plain_segment_def)
  let ?x = "ListMessages clock db user \<lparr>lr_room = room, lr_cursor = str_of cur, lr_after = str_of aft\<rparr>"
  show ?thesis
  proof (cases ?x)
    case (Inl e)
    with assms \<open>room \<noteq> []\<close> have "rs_status res = fst (ParseError e)" "rs_text res = stringify (error_response (snd (ParseError e)))"
      by (simp_all add: list_handler_def query_params split: prod.splits)
    with ListMessages_errors [OF Inl] outcome_error [of res "snd (ParseError e)"] show ?thesis
      by (simp add: call_outcome_def Inl)
  next
    case (Inr r)
    with assms \<open>room \<noteq> []\<close> show ?thesis
      by (simp add: list_handler_def query_params call_outcome_def outcome_ok)
  qed
qed

lemma list_page:
  assumes "ListByRoomId clock rs (str_of cur) = Inr p"
  shows "load_page clock rs cur = Some (page_of_json (list_response p))"
  using assms
  by (auto simp: ListByRoomId_def str_of_def load_page_def list_messages_def json_parse_stringify js_defs
      split: option.splits if_splits)


section \<open>Properties\<close>



text \<open>A visitor who is no member of the room, signed in with a token that has not expired.\<close>

definition sample_db :: chat_db where
  "sample_db = \<lparr>valid_uuid = (\<lambda>i. True), members = (\<lambda>i. Some [''u1'']), rows_of = (\<lambda>i. [msg_at ''m1'' ''t'' ''hi''])\<rparr>"

definition stack_platform :: "string \<Rightarrow> nat platform" where
  "stack_platform user = sample_platform\<lparr>fetch := (\<lambda>rq w.
     (Inr \<lparr>rs_status = fst (list_handler stamp_clock sample_db user ''r1'' (rq_url rq)), rs_nonce = None,
           rs_text = stringify (snd (list_handler stamp_clock sample_db user ''r1'' (rq_url rq)))\<rparr>, w))\<rparr>"

definition stack_client :: "(nat \<times> traffic) client" where
  "stack_client =
     \<lparr>cachedKey = Some \<lparr>privateKey = Some 7, publicJwk = sample_jwk\<rparr>,
      idbKey = Some \<lparr>privateKey = Some 7, publicJwk = sample_jwk\<rparr>,
      world = (7, []), accessToken = Some ''h.e30.s'', dpopNonce = None\<rparr>"

lemma stack_served: "served_by (stack_platform user) (list_handler stamp_clock sample_db user ''r1'') url"
  by (auto simp: served_by_def stack_platform_def)

lemma sample_room_path: "well_formed_endpoint (ChatMessages ''r1'')"
  by code_simp

lemma stranger_handler:
  "list_handler stamp_clock sample_db ''eve'' ''r1'' url = (403, error_response ''You are not a member of this room'')"
  by (simp add: list_handler_def ListMessages_def sample_db_def)

lemma stranger_reaches:
  "\<exists>r s' rq a. fetchMessages (logged (stack_platform ''eve'')) ''r1'' None None stack_client = (r, s')
     \<and> log_of s' = [(rq, a)] \<and> rq_url rq = messages_url ''r1'' None None \<and> served a"
  by (simp add: fetchMessages_def apiGet_def eval_client stack_platform_def stack_client_def stranger_handler
      logged_def lift_world_def token_live exp_passed_def isUseNonceResponse_def messages_url_def
      served_def turned_away_def json_parse_stringify del: stringify.simps)



lemma shown_map_nodes [simp]: "shown_node (map_node g n) = shown_node n" "shown (map_nodes g ns) = shown ns"
  by (induction g n and g ns rule: map_node_map_nodes.induct) simp_all

text \<open>
  The page of a room does not show that its messages could not be loaded: \<open>useMessages\<close> returns the error, but
  the page does not take it, and a visitor who is refused reads that there are no messages yet.
\<close>

theorem refused_room_looks_empty:
  assumes "\<not> cq_room_loading q" and "\<not> cq_loading q" and "cp_feed s = None"
  shows "''No messages yet'' \<in> set (shown (ChatPage time q bubbles ml inp ild s))"
  using assms by (simp add: ChatPage_def Let_def message_list_view_def allMessages_def)

end
