(* ===== verification/Page_Setup.thy ===== *)
theory Page_Setup
  imports Static_Pages
begin

text \<open>
  The top of the pages, under \<^verbatim>\<open>src/frontend/src\<close>: which queries each page of a signed-in visitor asks for, the
  values its forms start with, and what \<open>AuthProvider\<close> hands to all of them.
\<close>


section \<open>use-auth.tsx\<close>

record 'w auth_context =
  ctx_user :: "user option"
  ctx_isLoading :: bool
  ctx_isAuthenticated :: bool
  ctx_readOnly :: bool
  ctx_login :: "login_request \<Rightarrow> ('w, unit) app_act"
  ctx_register :: "register_request \<Rightarrow> ('w, unit) app_act"
  ctx_logout :: "('w, unit) app_act"
  ctx_checkSession :: "('w, bool) app_act"
  ctx_refreshSession :: "('w, unit) app_act"

definition context_value :: "'w platform \<Rightarrow> 'w app \<Rightarrow> 'w auth_context" where
  "context_value pl s =
     \<lparr>ctx_user = auth_user s, ctx_isLoading = isLoading s, ctx_isAuthenticated = isAuthenticated s,
      ctx_readOnly = readOnly s, ctx_login = login pl, ctx_register = register pl, ctx_logout = logout pl,
      ctx_checkSession = checkSession pl, ctx_refreshSession = refreshSession pl\<rparr>"


section \<open>The queries of the pages\<close>

text \<open>\<open>useIsAdmin\<close> asks for the room and for the visitor's membership.\<close>

definition isAdmin_queries :: "'w platform \<Rightarrow> user option \<Rightarrow> bool \<Rightarrow> string \<Rightarrow> 'w query list" where
  "isAdmin_queries pl u ro roomId = [useRoom pl roomId ro, memberQuery pl roomId u ro]"

definition sidebar_queries :: "'w platform \<Rightarrow> user option \<Rightarrow> bool \<Rightarrow> 'w query list" where
  "sidebar_queries pl u ro = [useRooms pl u ro]"

definition members_dialog_queries :: "'w platform \<Rightarrow> bool \<Rightarrow> string \<Rightarrow> 'w query list" where
  "members_dialog_queries pl ro roomId = [useRoomMembers pl roomId ro]"

definition chat_page_queries :: "'w platform \<Rightarrow> user option \<Rightarrow> bool \<Rightarrow> string \<Rightarrow> string option \<Rightarrow> 'w query list" where
  "chat_page_queries pl u ro roomId pageParam =
     useRoom pl roomId ro # isAdmin_queries pl u ro roomId @ [messagesQuery pl roomId ro pageParam]"

definition settings_page_queries :: "'w platform \<Rightarrow> user option \<Rightarrow> bool \<Rightarrow> string \<Rightarrow> 'w query list" where
  "settings_page_queries pl u ro roomId =
     useRoom pl roomId ro # isAdmin_queries pl u ro roomId @ [useRoomMembers pl roomId ro]"

text \<open>The condition of the effect that opens the socket.\<close>

definition opens_socket :: "user option \<Rightarrow> bool \<Rightarrow> string \<Rightarrow> bool" where
  "opens_socket u ro roomId \<longleftrightarrow> truthy_str roomId \<and> has_id u \<and> \<not> ro"

text \<open>Everything a room page with its dialogs and the sidebar beside it asks for.\<close>

definition room_queries_of :: "'w platform \<Rightarrow> user option \<Rightarrow> bool \<Rightarrow> string \<Rightarrow> string option \<Rightarrow> 'w query list" where
  "room_queries_of pl u ro roomId pageParam =
     sidebar_queries pl u ro @ chat_page_queries pl u ro roomId pageParam @ members_dialog_queries pl ro roomId
       @ settings_page_queries pl u ro roomId"


section \<open>The values of the forms\<close>

definition profile_defaults :: "user option \<Rightarrow> profile_form" where
  "profile_defaults u =
     \<lparr>pf_name = Some (case u of None \<Rightarrow> [] | Some v \<Rightarrow> user_name v),
      pf_email = Some (str_of (Option.bind u user_email))\<rparr>"

text \<open>The forms without default values: their inputs are empty.\<close>

definition blank_login :: login_request where
  "blank_login = \<lparr>login_email = [], login_password = []\<rparr>"

definition blank_register :: register_request where
  "blank_register = \<lparr>reg_name = [], reg_email = [], reg_password = []\<rparr>"

definition blank_password :: password_form where
  "blank_password = \<lparr>currentPassword = [], newPassword = []\<rparr>"

text \<open>The view of the return from the identity provider while its effect runs, also what its boundary falls back to.\<close>

definition oauth_view :: "'e node list" where
  "oauth_view = [Txt ''spinner'', Txt ''Signing you in...'']"


section \<open>Properties\<close>

lemmas setup_defs = room_queries_of_def sidebar_queries_def chat_page_queries_def members_dialog_queries_def
  settings_page_queries_def isAdmin_queries_def messagesQuery_def

lemmas query_hook_defs = useRooms_def useRoom_def memberQuery_def useRoomMembers_def

lemma query_parts:
  "enabled (useRooms pl u ro) \<longleftrightarrow> has_id u \<and> \<not> ro" "queryKey (useRooms pl u ro) = [KStr ''rooms'', uid u]"
  "enabled (useRoom pl i ro) \<longleftrightarrow> i \<noteq> [] \<and> \<not> ro" "queryKey (useRoom pl i ro) = [KStr ''room'', KStr i]"
  "enabled (memberQuery pl i u ro) \<longleftrightarrow> i \<noteq> [] \<and> has_id u \<and> \<not> ro"
  "queryKey (memberQuery pl i u ro) = [KStr ''roomMember'', KStr i, uid u]"
  "enabled (useRoomMembers pl i ro) \<longleftrightarrow> i \<noteq> [] \<and> \<not> ro"
  "queryKey (useRoomMembers pl i ro) = [KStr ''roomMembers'', KStr i]"
  by (simp_all add: query_hook_defs js_defs)

text \<open>
  A room asks for its own data only, and a read-only session asks for nothing. Of the queries of the
  pages of a room, its dialogs and the sidebar, each is about this room or the visitor's list of rooms, no two
  different queries share a cache entry, and none is enabled in a read-only session, without a
  signed-in user for what is the user's, or without a room; and the socket is opened only when the
  messages are asked for.
\<close>

theorem read_only_quiet:
  assumes "q \<in> set (room_queries_of pl u ro roomId p)" and "q' \<in> set (room_queries_of pl u ro roomId p)"
  shows "(enabled q \<longrightarrow> \<not> ro \<and> (queryKey q = [KStr ''rooms'', uid u] \<and> has_id u \<or> roomId \<noteq> [] \<and> queryKey q ! 1 = KStr roomId))
    \<and> (queryKey q = queryKey q' \<longrightarrow> queryFn q = queryFn q' \<and> enabled q = enabled q')
    \<and> (opens_socket u ro roomId \<longrightarrow> enabled (messagesQuery pl roomId ro p))"
proof -
  have cases: "q \<in> {useRooms pl u ro, useRoom pl roomId ro, memberQuery pl roomId u ro, useRoomMembers pl roomId ro,
      messagesQuery pl roomId ro p}"
    if "q \<in> set (room_queries_of pl u ro roomId p)" for q
    using that unfolding setup_defs by auto
  have "enabled q \<longrightarrow> \<not> ro \<and> (queryKey q = [KStr ''rooms'', uid u] \<and> has_id u \<or> roomId \<noteq> [] \<and> queryKey q ! 1 = KStr roomId)"
    using cases [OF assms(1)] by (auto simp: query_parts messagesQuery_def messages_key_def js_defs)
  moreover have "q = q'" if "queryKey q = queryKey q'"
    using cases [OF assms(1)] cases [OF assms(2)] that
    by (auto simp: query_parts messagesQuery_def messages_key_def)
  moreover have "opens_socket u ro roomId \<longrightarrow> enabled (messagesQuery pl roomId ro p)"
    by (simp add: opens_socket_def messagesQuery_def)
  ultimately show ?thesis by blast
qed

theorem read_only_quiet_witness:
  "\<not> enabled (useRoomMembers sample_platform ''r1'' True) \<and> queryKey (useRoom sample_platform ''r1'' True) ! 1 = KStr ''r1''"
proof -
  have m: "useRoomMembers sample_platform ''r1'' True \<in> set (room_queries_of sample_platform (Some sample_user) True ''r1'' None)"
    by (simp add: setup_defs)
  have "\<not> enabled (useRoomMembers sample_platform ''r1'' True)" using read_only_quiet [OF m m] by blast
  then show ?thesis by (simp add: query_parts)
qed

text \<open>
  The profile form starts with the user's own data. Saved as it is, it sends them back; but for a user
  without an e-mail address it starts with an empty one, which its own schema refuses, so that such a user
  cannot change the name.
\<close>

theorem profile_defaults_saved:
  "profile_onSubmit pl (profile_defaults (Some v)) =
     andThen (save_user pl \<lparr>uu_name = Some (user_name v), uu_email = Some (str_of (user_email v)), uu_password = None\<rparr>
       ''Profile updated successfully'' ''Failed to update profile'') (\<lambda>_. ret ())
   \<and> (user_email v = None \<and> \<not> is_email [] \<longrightarrow>
       (''email'', Some ''Invalid email address'') \<in> set (profileSchema is_email ((profile_defaults (Some v))\<lparr>pf_name := n\<rparr>)))"
  by (simp add: profile_onSubmit_def profile_defaults_def profileSchema_def z_defs str_of_def)

text \<open>A form that was not filled in is not sent.\<close>

theorem blank_forms_refused:
  assumes "\<not> is_email []"
  shows "loginSchema is_email blank_login \<noteq> []" and "registerSchema is_email blank_register \<noteq> []"
    and "passwordSchema blank_password \<noteq> []"
  using assms
  by (simp_all add: loginSchema_def registerSchema_def passwordSchema_def blank_login_def blank_register_def
      blank_password_def z_defs)

end
