(* ===== verification/Controls.thy ===== *)
theory Controls
  imports Widgets Static_Pages
begin

text \<open>
  The plain controls under \<^verbatim>\<open>src/frontend/src/components/ui\<close>, the logo and the document around the pages
  (\<^verbatim>\<open>app/layout.tsx\<close>). Each control renders one element with a class list of its own and hands
  everything else it is given to the element. The libraries that join class names are parameters. The last
  section shows that the nodes the views of the pages are made of behave as these controls do.
\<close>


section \<open>Elements\<close>

text \<open>
  An attribute is a text, a flag or the event its handler raises. Attributes are in the order of the source;
  a later one overrides an earlier one.
\<close>

datatype 'e attr = Text string | Flag bool | Raises 'e

type_synonym 'e props = "(string \<times> 'e attr) list"

record 'e element =
  tag_name :: string
  attrs :: "'e props"

definition prop_of :: "string \<Rightarrow> 'e props \<Rightarrow> 'e attr option" where
  "prop_of k ps = map_of (rev ps) k"

definition text_of :: "string \<Rightarrow> 'e props \<Rightarrow> string option" where
  "text_of k ps = (case prop_of k ps of Some (Text s) \<Rightarrow> Some s | _ \<Rightarrow> None)"

text \<open>\<open>{ a, b, ...props }\<close>: what is left after the named ones are taken out.\<close>

definition rest_of :: "string list \<Rightarrow> 'e props \<Rightarrow> 'e props" where
  "rest_of taken ps = filter (\<lambda>p. fst p \<notin> set taken) ps"

text \<open>
  The class libraries: \<open>clsx\<close> joins the names that are given, \<open>twMerge\<close> drops overridden ones, \<open>cva\<close> picks
  the classes of the variants.
\<close>

record cva_config =
  cva_base :: string
  cva_variants :: "(string \<times> (string \<times> string) list) list"
  cva_defaults :: "(string \<times> string) list"

record class_library =
  twMerge :: "string \<Rightarrow> string"
  clsx :: "string option list \<Rightarrow> string"
  cva :: "cva_config \<Rightarrow> (string \<times> string option) list \<Rightarrow> string"

definition cn :: "class_library \<Rightarrow> string option list \<Rightarrow> string" where
  "cn st inputs = twMerge st (clsx st inputs)"


section \<open>The controls\<close>

definition plain_control :: "class_library \<Rightarrow> string \<Rightarrow> string \<Rightarrow> 'e props \<Rightarrow> 'e element" where
  "plain_control st tg base ps =
     \<lparr>tag_name = tg,
      attrs = (''className'', Text (cn st [Some base, text_of ''className'' ps])) # rest_of [''className''] ps\<rparr>"

definition Card :: "class_library \<Rightarrow> 'e props \<Rightarrow> 'e element" where
  "Card st = plain_control st ''div'' ''rounded-xl border border-gray-800 bg-gray-900 text-gray-100 shadow-sm''"

definition CardHeader :: "class_library \<Rightarrow> 'e props \<Rightarrow> 'e element" where
  "CardHeader st = plain_control st ''div'' ''flex flex-col space-y-1.5 p-6''"

definition CardTitle :: "class_library \<Rightarrow> 'e props \<Rightarrow> 'e element" where
  "CardTitle st = plain_control st ''h3'' ''text-lg font-semibold leading-none tracking-tight''"

definition CardDescription :: "class_library \<Rightarrow> 'e props \<Rightarrow> 'e element" where
  "CardDescription st = plain_control st ''p'' ''text-sm text-gray-400''"

definition CardContent :: "class_library \<Rightarrow> 'e props \<Rightarrow> 'e element" where
  "CardContent st = plain_control st ''div'' ''p-6 pt-0''"

definition CardFooter :: "class_library \<Rightarrow> 'e props \<Rightarrow> 'e element" where
  "CardFooter st = plain_control st ''div'' ''flex items-center p-6 pt-0''"

definition Label :: "class_library \<Rightarrow> 'e props \<Rightarrow> 'e element" where
  "Label st = plain_control st ''label''
     ''text-sm font-medium text-gray-300 leading-none peer-disabled:cursor-not-allowed peer-disabled:opacity-70''"

definition Textarea :: "class_library \<Rightarrow> 'e props \<Rightarrow> 'e element" where
  "Textarea st = plain_control st ''textarea''
     ''flex min-h-[80px] w-full rounded-lg border border-gray-700 bg-gray-900 px-3 py-2 text-sm text-gray-100 placeholder:text-gray-500 focus:outline-none focus:ring-2 focus:ring-blue-500 focus:border-transparent disabled:cursor-not-allowed disabled:opacity-50 resize-none''"

definition Skeleton :: "class_library \<Rightarrow> 'e props \<Rightarrow> 'e element" where
  "Skeleton st = plain_control st ''div'' ''animate-pulse rounded-md bg-gray-800''"

definition ScrollArea :: "class_library \<Rightarrow> 'e props \<Rightarrow> 'e element" where
  "ScrollArea st = plain_control st ''div'' ''overflow-auto''"

definition Avatar :: "class_library \<Rightarrow> 'e props \<Rightarrow> 'e element" where
  "Avatar st = plain_control st ''div'' ''relative flex h-10 w-10 shrink-0 overflow-hidden rounded-full''"

definition AvatarFallback :: "class_library \<Rightarrow> 'e props \<Rightarrow> 'e element" where
  "AvatarFallback st = plain_control st ''div''
     ''flex h-full w-full items-center justify-center rounded-full bg-gray-800 text-sm font-medium text-gray-400''"

definition DialogContent :: "class_library \<Rightarrow> 'e props \<Rightarrow> 'e element" where
  "DialogContent st = plain_control st ''div''
     ''relative z-50 w-full max-w-lg rounded-xl border border-gray-800 bg-gray-900 p-6 shadow-lg''"

definition DialogHeader :: "class_library \<Rightarrow> 'e props \<Rightarrow> 'e element" where
  "DialogHeader st = plain_control st ''div'' ''flex flex-col space-y-1.5 mb-4''"

definition DialogTitle :: "class_library \<Rightarrow> 'e props \<Rightarrow> 'e element" where
  "DialogTitle st = plain_control st ''h2'' ''text-lg font-semibold leading-none''"

definition DialogDescription :: "class_library \<Rightarrow> 'e props \<Rightarrow> 'e element" where
  "DialogDescription st = plain_control st ''p'' ''text-sm text-gray-400''"

text \<open>Controls with attributes of their own before the given ones.\<close>

definition AvatarImage :: "class_library \<Rightarrow> 'e props \<Rightarrow> 'e element" where
  "AvatarImage st ps =
     (let el = plain_control st ''img'' ''aspect-square h-full w-full object-cover'' ps
      in el\<lparr>attrs := (''alt'', Text []) # attrs el\<rparr>)"

definition given :: "string \<Rightarrow> 'e props \<Rightarrow> 'e props" where
  "given k ps = (case prop_of k ps of None \<Rightarrow> [] | Some a \<Rightarrow> [(k, a)])"

definition Input :: "class_library \<Rightarrow> 'e props \<Rightarrow> 'e element" where
  "Input st ps =
     \<lparr>tag_name = ''input'',
      attrs = given ''type'' ps
        @ (''className'', Text (cn st
             [Some ''flex h-10 w-full rounded-lg border border-gray-700 bg-gray-900 px-3 py-2 text-sm text-gray-100 placeholder:text-gray-500 focus:outline-none focus:ring-2 focus:ring-blue-500 focus:border-transparent disabled:cursor-not-allowed disabled:opacity-50'',
              text_of ''className'' ps]))
        # rest_of [''className'', ''type''] ps\<rparr>"

definition DialogClose :: "class_library \<Rightarrow> 'e props \<Rightarrow> 'e element" where
  "DialogClose st ps =
     \<lparr>tag_name = ''button'',
      attrs = given ''onClick'' ps
        @ (''className'', Text (cn st
             [Some ''absolute right-4 top-4 rounded-sm opacity-70 hover:opacity-100 transition-opacity text-gray-400 hover:text-gray-200'',
              text_of ''className'' ps]))
        # (''aria-label'', Text ''Close'') # rest_of [''onClick'', ''className''] ps\<rparr>"

definition buttonVariants :: cva_config where
  "buttonVariants =
     \<lparr>cva_base = ''inline-flex items-center justify-center whitespace-nowrap rounded-lg text-sm font-medium transition-colors focus-visible:outline-none focus-visible:ring-2 focus-visible:ring-offset-2 focus-visible:ring-blue-500 disabled:pointer-events-none disabled:opacity-50'',
      cva_variants =
        [(''variant'',
          [(''default'', ''bg-blue-600 text-white hover:bg-blue-700''),
           (''destructive'', ''bg-red-600 text-white hover:bg-red-700''),
           (''outline'', ''border border-gray-700 bg-transparent hover:bg-gray-800 text-gray-200''),
           (''secondary'', ''bg-gray-800 text-gray-200 hover:bg-gray-700''),
           (''ghost'', ''hover:bg-gray-800 text-gray-400 hover:text-gray-200''),
           (''link'', ''text-blue-400 underline-offset-4 hover:underline'')]),
         (''size'',
          [(''default'', ''h-10 px-4 py-2''), (''sm'', ''h-9 rounded-md px-3''),
           (''lg'', ''h-11 rounded-lg px-8''), (''icon'', ''h-10 w-10'')])],
      cva_defaults = [(''variant'', ''default''), (''size'', ''default'')]\<rparr>"

definition Button :: "class_library \<Rightarrow> 'e props \<Rightarrow> 'e element" where
  "Button st ps =
     \<lparr>tag_name = ''button'',
      attrs = (''className'', Text (cn st [Some (cva st buttonVariants
          [(''variant'', text_of ''variant'' ps), (''size'', text_of ''size'' ps), (''className'', text_of ''className'' ps)])]))
        # rest_of [''className'', ''variant'', ''size''] ps\<rparr>"

definition badgeVariants :: cva_config where
  "badgeVariants =
     \<lparr>cva_base = ''inline-flex items-center rounded-full px-2.5 py-0.5 text-xs font-medium transition-colors'',
      cva_variants =
        [(''variant'',
          [(''default'', ''bg-blue-600/20 text-blue-400 border border-blue-600/30''),
           (''secondary'', ''bg-gray-800 text-gray-400 border border-gray-700''),
           (''destructive'', ''bg-red-600/20 text-red-400 border border-red-600/30''),
           (''success'', ''bg-green-600/20 text-green-400 border border-green-600/30''),
           (''outline'', ''text-gray-400 border border-gray-700'')])],
      cva_defaults = [(''variant'', ''default'')]\<rparr>"

definition Badge :: "class_library \<Rightarrow> 'e props \<Rightarrow> 'e element" where
  "Badge st ps =
     \<lparr>tag_name = ''div'',
      attrs = (''className'', Text (cn st [Some (cva st badgeVariants [(''variant'', text_of ''variant'' ps)]),
          text_of ''className'' ps]))
        # rest_of [''className'', ''variant''] ps\<rparr>"

definition Logo :: "class_library \<Rightarrow> string option \<Rightarrow> 'e element" where
  "Logo st className =
     \<lparr>tag_name = ''svg'',
      attrs = [(''viewBox'', Text ''0 0 24 24''), (''fill'', Text ''none''), (''stroke'', Text ''currentColor''),
        (''strokeWidth'', Text ''2''), (''strokeLinecap'', Text ''round''), (''strokeLinejoin'', Text ''round''),
        (''role'', Text ''img''), (''aria-label'', Text ''Chinwag logo''),
        (''className'', Text (cn st [Some ''h-8 w-8 text-blue-500'', className]))]\<rparr>"


section \<open>layout.tsx\<close>

record metadata =
  md_title :: string
  md_description :: string

definition root_metadata :: metadata where
  "root_metadata = \<lparr>md_title = ''Chinwag'', md_description = ''Simple streaming chat application''\<rparr>"

definition html_element :: "'e element" where
  "html_element =
     \<lparr>tag_name = ''html'',
      attrs = [(''lang'', Text ''en''), (''className'', Text ''dark''), (''suppressHydrationWarning'', Flag True)]\<rparr>"

definition theme_props :: "'e props" where
  "theme_props = [(''attribute'', Text ''class''), (''defaultTheme'', Text ''dark''), (''forcedTheme'', Text ''dark''),
     (''disableTransitionOnChange'', Flag True)]"


section \<open>What a press does\<close>

text \<open>A press on an element raises the event of its handler, unless it is disabled.\<close>

definition press :: "'e element \<Rightarrow> 'e option" where
  "press el =
     (if prop_of ''disabled'' (attrs el) = Some (Flag True) then None
      else case prop_of ''onClick'' (attrs el) of Some (Raises e) \<Rightarrow> Some e | _ \<Rightarrow> None)"

lemma prop_of_Cons: "prop_of k ((l, a) # ps) = (case prop_of k ps of None \<Rightarrow> if k = l then Some a else None | Some b \<Rightarrow> Some b)"
  by (auto simp: prop_of_def map_add_def split: option.splits)

lemma prop_of_append: "prop_of k (ps @ qs) = (case prop_of k qs of None \<Rightarrow> prop_of k ps | Some b \<Rightarrow> Some b)"
  by (auto simp: prop_of_def map_add_def split: option.splits)

lemma prop_of_Nil [simp]: "prop_of k [] = None"
  by (simp add: prop_of_def)

lemma prop_of_rest: "prop_of k (rest_of taken ps) = (if k \<in> set taken then None else prop_of k ps)"
proof (induction ps rule: rev_induct)
  case (snoc p ps)
  then show ?case by (cases p) (auto simp: prop_of_def rest_of_def)
qed (simp add: rest_of_def)

lemma prop_of_given: "prop_of k (given l ps) = (if k = l then prop_of l ps else None)"
  by (auto simp: given_def prop_of_def split: option.splits)

lemmas prop_simps = prop_of_Cons prop_of_append prop_of_rest prop_of_given

text \<open>The controls that pass on all but the class list.\<close>

definition plain_controls :: "(class_library \<Rightarrow> 'e props \<Rightarrow> 'e element) list" where
  "plain_controls = [Card, CardHeader, CardTitle, CardDescription, CardContent, CardFooter, Label, Textarea, Skeleton,
     ScrollArea, Avatar, AvatarFallback, DialogContent, DialogHeader, DialogTitle, DialogDescription, Input]"

lemmas plain_defs = Card_def CardHeader_def CardTitle_def CardDescription_def CardContent_def CardFooter_def
  Label_def Textarea_def Skeleton_def ScrollArea_def Avatar_def AvatarFallback_def DialogContent_def DialogHeader_def
  DialogTitle_def DialogDescription_def Input_def plain_control_def

lemma plain_controls_pass: "c \<in> set plain_controls \<Longrightarrow> k \<noteq> ''className'' \<Longrightarrow> prop_of k (attrs (c st ps)) = prop_of k ps"
  by (auto simp: plain_controls_def plain_defs prop_simps split: option.splits)

text \<open>
  A control hands on what it is given. Every attribute but the class list, and the variant and the size
  of a button or badge, reaches the element unchanged, handlers and the disabled flag included; a
  given text for the label of a closing button or the image replaces the default one.
\<close>

theorem controls_transparent:
  assumes "k \<notin> {''className'', ''variant'', ''size''}"
  shows "(\<forall>c \<in> set plain_controls. prop_of k (attrs (c st ps)) = prop_of k ps)
    \<and> prop_of k (attrs (Button st ps)) = prop_of k ps \<and> prop_of k (attrs (Badge st ps)) = prop_of k ps
    \<and> prop_of k (attrs (DialogClose st ps))
        = (if k = ''aria-label'' \<and> prop_of k ps = None then Some (Text ''Close'') else prop_of k ps)
    \<and> prop_of k (attrs (AvatarImage st ps)) = (if k = ''alt'' \<and> prop_of k ps = None then Some (Text []) else prop_of k ps)"
  using assms
  by (auto simp: plain_controls_pass Button_def Badge_def DialogClose_def AvatarImage_def plain_control_def Let_def
      prop_simps split: option.splits)

definition sample_library :: class_library where
  "sample_library = \<lparr>twMerge = (\<lambda>s. s), clsx = (\<lambda>xs. intercalate '' '' (List.map_filter id xs)), cva = (\<lambda>c vs. cva_base c)\<rparr>"

definition sample_props :: "nat props" where
  "sample_props = [(''disabled'', Flag True), (''variant'', Text ''ghost''), (''onClick'', Raises 3)]"

theorem controls_transparent_witness:
  "prop_of ''disabled'' (attrs (Button sample_library sample_props)) = Some (Flag True)"
proof -
  have "prop_of ''disabled'' (attrs (Button sample_library sample_props)) = prop_of ''disabled'' sample_props"
    using controls_transparent [of "''disabled''" sample_library sample_props] by simp
  then show ?thesis by (simp add: sample_props_def prop_simps)
qed

text \<open>
  A node \<open>Act\<close> of a view is a \<open>Button\<close>, whatever its variant, size and class: what it offers is what a
  press on the button does. Closing buttons and the overlay of a dialog raise what they are given.
\<close>

theorem act_is_button:
  shows "offers_node (Act l en e) = set_option (press (Button st
      ([(''variant'', Text v), (''size'', Text z), (''className'', Text c), (''onClick'', Raises e), (''disabled'', Flag (\<not> en))])))"
    and "offers_node (Act l True e) = set_option (press (DialogClose st [(''onClick'', Raises e)]))"
  by (simp_all add: press_def Button_def DialogClose_def prop_simps)

end
