(* ===== verification/Unit_Tests.thy ===== *)
theory Unit_Tests
  imports Rest_Api Room_Dialogs Room_Settings
begin

text \<open>
  The assertions of the repository's own unit tests, under \<^verbatim>\<open>src/frontend/src\<close>, as theorems about the
  definitions: \<^verbatim>\<open>lib/api-paths.test.ts\<close>, \<^verbatim>\<open>lib/api-client.test.ts\<close>, \<^verbatim>\<open>lib/dpop.test.ts\<close>,
  \<^verbatim>\<open>features/room/api/room-api.test.ts\<close> and \<^verbatim>\<open>features/room/components/form-schemas.test.ts\<close>. A test with a
  value from the clock or from random numbers is a theorem about every such value. The test of \<open>cn\<close>
  (\<^verbatim>\<open>lib/utils.test.ts\<close>) is about merging class names, which is not modelled; the claims of a proof are
  \<open>Dpop.createDPoPProof_claims\<close>.
\<close>


section \<open>api-paths.test.ts\<close>

lemma test_auth_paths:
  "API_PATHS AuthWhoami = ''/auth/whoami''" "API_PATHS AuthLogin = ''/auth/login''"
  "API_PATHS AuthRegister = ''/auth/user''" "API_PATHS AuthGoogle = ''/auth/google''"
  "API_PATHS AuthGoogleCallback = ''/auth/google/callback''" "API_PATHS AuthLogout = ''/auth/logout''"
  "API_PATHS (AuthUser ''abc-123'') = ''/auth/user/abc-123''"
  by simp_all

lemma test_room_paths:
  "API_PATHS (RoomsList ''user-1'') = ''/users/user-1/rooms''" "API_PATHS (RoomsGet ''room-1'') = ''/rooms/room-1''"
  "API_PATHS RoomsCreate = ''/rooms''" "API_PATHS (RoomsUpdate ''room-1'') = ''/rooms/room-1''"
  "API_PATHS (RoomsDelete ''room-1'') = ''/rooms/room-1''"
  "API_PATHS (RoomsMembers ''room-1'') = ''/rooms/room-1/members''"
  "API_PATHS (RoomsMember ''room-1'' ''user-1'') = ''/rooms/room-1/members/user-1''"
  "API_PATHS (RoomsInvite ''room-1'') = ''/rooms/room-1/invite''"
  "API_PATHS (RoomsJoinInvite ''token-abc'') = ''/rooms/invite/token-abc/join''"
  "API_PATHS (RoomsPop ''room-1'') = ''/rooms/room-1/pop''"
  by simp_all

lemma test_chat_paths:
  "API_PATHS (ChatMessages ''room-1'') = ''/chat/rooms/room-1/messages''"
  "API_PATHS (ChatMessage ''room-1'' ''msg-1'') = ''/chat/rooms/room-1/messages/msg-1''"
  by simp_all


section \<open>api-client.test.ts\<close>

lemma test_access_token:
  "andThen (setAccessToken (Some ''test-token-123'')) (\<lambda>_. getAccessToken) s
     = (Inr (Some ''test-token-123''), s\<lparr>accessToken := Some ''test-token-123''\<rparr>)"
  "andThen (setAccessToken (Some ''token'')) (\<lambda>_. andThen (setAccessToken None) (\<lambda>_. getAccessToken)) s
     = (Inr None, s\<lparr>accessToken := None\<rparr>)"
  by (simp_all add: client_defs act_simps)


section \<open>dpop.test.ts\<close>

text \<open>
  The second call finds the key of the first, and the URL for signing in with Google carries its
  thumbprint; a thumbprint has 43 characters when the hash has 32 bytes.
\<close>

lemma test_key_persisted:
  assumes "getOrCreateDPoPKey pl s = (Inr k, s')" and "key_inv s"
  shows "getOrCreateDPoPKey pl s' = (Inr k, s')"
    and "getGoogleAuthorizeURL pl ''http://localhost:8000/auth/google'' s'
      = (Inr (''http://localhost:8000/auth/google?jkt='' @ encodeURIComponent (computeJkt pl (publicJwk k))), s')"
proof -
  show again: "getOrCreateDPoPKey pl s' = (Inr k, s')"
    using getOrCreate_result(2) [OF assms refl] by (simp add: getOrCreate_cached)
  then show "getGoogleAuthorizeURL pl ''http://localhost:8000/auth/google'' s'
      = (Inr (''http://localhost:8000/auth/google?jkt='' @ encodeURIComponent (computeJkt pl (publicJwk k))), s')"
    by (simp add: getGoogleAuthorizeURL_def andThen_Inr ret_def)
qed

lemma test_thumbprint: "length (sha256 pl bs) = 32 \<Longrightarrow> length (base64url (sha256 pl bs)) = 43"
  by (simp add: length_base64url)


section \<open>room-api.test.ts\<close>

text \<open>Each function calls the client with the path and the body the test names.\<close>

lemma test_room_api:
  "fetchRooms pl ''user-1'' = apiGet pl ''/users/user-1/rooms'' None"
  "fetchRoom pl ''room-1'' = apiGet pl ''/rooms/room-1'' None"
  "createRoom pl \<lparr>cr_name = ''New Room'', cr_description = Some ''A room'', cr_max_members = None, cr_pop_at = None\<rparr>
     = apiPost pl ''/rooms'' (Some (JObj [(''name'', JStr ''New Room''), (''description'', JStr ''A room'')])) None"
  "updateRoom pl ''room-1'' \<lparr>ur_name = Some ''Updated'', ur_description = None, ur_max_members = None\<rparr>
     = apiPut pl ''/rooms/room-1'' (Some (JObj [(''name'', JStr ''Updated'')]))"
  "deleteRoom pl ''room-1'' = apiDelete pl ''/rooms/room-1''"
  "fetchRoomMembers pl ''room-1'' = apiGet pl ''/rooms/room-1/members'' None"
  "fetchRoomMember pl ''room-1'' ''u1'' = apiGet pl ''/rooms/room-1/members/u1'' None"
  "addRoomMember pl ''room-1'' ''u1'' (Some 0)
     = apiPost pl ''/rooms/room-1/members'' (Some (JObj [(''user_id'', JStr ''u1''), (''role'', JNum 0)])) None"
  "addRoomMember pl ''room-1'' ''u1'' None
     = apiPost pl ''/rooms/room-1/members'' (Some (JObj [(''user_id'', JStr ''u1'')])) None"
  "removeRoomMember pl ''room-1'' ''u1'' = apiDelete pl ''/rooms/room-1/members/u1''"
  "updateRoomMember pl ''room-1'' ''u1'' ADMIN
     = apiPut pl ''/rooms/room-1/members/u1'' (Some (JObj [(''role'', JNum 1)]))"
  "createInviteLink pl ''room-1'' (Some \<lparr>ci_single_use = Some True, ci_ttl_hours = Some 24\<rparr>)
     = apiPost pl ''/rooms/room-1/invite'' (Some (JObj [(''single_use'', JBool True), (''ttl_hours'', JNum 24)])) None"
  "createInviteLink pl ''room-1'' None = apiPost pl ''/rooms/room-1/invite'' (Some (JObj [])) None"
  "joinRoomViaInvite pl ''token-abc'' = apiPost pl ''/rooms/invite/token-abc/join'' None None"
  "popRoom pl ''room-1'' = apiPost pl ''/rooms/room-1/pop'' None None"
  by (simp_all add: fetchRooms_def fetchRoom_def createRoom_def updateRoom_def deleteRoom_def fetchRoomMembers_def
      fetchRoomMember_def addRoomMember_def removeRoomMember_def updateRoomMember_def createInviteLink_def
      joinRoomViaInvite_def popRoom_def create_room_body_def update_room_body_def member_body_def
      update_room_member_body_def create_invite_link_body_def jobject_def List.map_filter_simps)


section \<open>form-schemas.test.ts\<close>

abbreviation settings_input :: "string \<Rightarrow> string option \<Rightarrow> string option \<Rightarrow> settings_form" where
  "settings_input n d m \<equiv> \<lparr>sf_name = n, sf_description = d, sf_max_members = m\<rparr>"

lemma test_settings_schema:
  "roomSettingsSchema (settings_input ''My Room'' (Some ''A room'') (Some ''50'')) = []"
  "roomSettingsSchema (settings_input ''Room'' None None) = []"
  "roomSettingsSchema (settings_input [] None None) = [(''name'', Some ''Room name is required'')]"
  "roomSettingsSchema (settings_input (replicate 101 CHR ''a'') None None) \<noteq> []"
  "roomSettingsSchema (settings_input ''Room'' None (Some ''1'')) = [(''max_members'', Some ''Must be between 2 and 1000'')]"
  "roomSettingsSchema (settings_input ''Room'' None (Some ''1001'')) \<noteq> []"
  "roomSettingsSchema (settings_input ''Room'' None (Some [])) = []"
  by (simp_all add: roomSettingsSchema_def z_defs js_Number_def is_digit_def read_nat_def)

abbreviation create_input :: "string \<Rightarrow> bool \<Rightarrow> string option \<Rightarrow> create_form" where
  "create_input n a p \<equiv> \<lparr>cf_name = n, cf_description = None, cf_auto_pop = a, cf_pop_at = p\<rparr>"

lemma test_create_schema:
  "createRoomSchema dt now (create_input ''New Room'' False None) = []"
  "createRoomSchema dt now (create_input [] a p) \<noteq> []"
  "createRoomSchema dt now (create_input ''Room'' True None) = [(''pop_at'', Some ''Auto-pop time is required'')]"
  "createRoomSchema dt now (create_input ''Room'' False (Some past)) = []"
  by (simp_all add: createRoomSchema_def pop_issues_def z_defs js_defs)

lemma test_create_schema_times:
  assumes "past \<noteq> []" and "parse_date dt past = Some t" and "t \<le> now"
    and "future \<noteq> []" and "parse_date dt future = Some u" and "now < u"
  shows "createRoomSchema dt now (create_input ''Room'' True (Some past)) = [(''pop_at'', Some ''Pop time must be in the future'')]"
    and "createRoomSchema dt now (create_input ''Room'' True (Some future)) = []"
  using assms by (simp_all add: createRoomSchema_def pop_issues_def z_defs js_defs)

end
