(* ===== verification/Spec2Isabelle.thy ===== *)
theory Spec2Isabelle
  imports Query_Hooks Request_Gate Key_Race Ws_Client Live_Room Wire_Types Widgets Site_Map Room_Access Page_Setup Controls
    Unit_Tests
begin

text \<open>
  Chinwag is a chat application. Its services are written in Go and stand behind a gateway; this
  development models its web client, the TypeScript under \<^verbatim>\<open>src/frontend/src\<close> (all paths below are
  relative to it).

  \<^bold>\<open>The parts and how they interact.\<close> A page calls a hook, a hook calls a function of the REST layer,
  and that calls \<open>apiRequest\<close> of \<^verbatim>\<open>lib/api-client.ts\<close>, which adds a token (refreshed when it has
  expired or was refused) and a DPoP proof from \<^verbatim>\<open>lib/dpop.ts\<close>; all proofs go through one gate, so
  that they carry the nonces of the server in order. Messages also arrive over a WebSocket,
  \<^verbatim>\<open>services/websocket-client.ts\<close>, whose events the hook \<^verbatim>\<open>use-messages.ts\<close> folds into the cached
  pages of a room. \<^verbatim>\<open>use-auth.tsx\<close> keeps the session, which guards and pages read.

  \<^bold>\<open>The theories.\<close>
  \<^item> \<open>Prelude\<close>: state actions with errors, with the predicate \<open>adds_to\<close> that says which entries an action may log and
    a rule per combinator; runs of step relations and the locale of their invariants, codecs, strings, numbers as text. \<open>Js_Base64\<close>, \<open>Js_Json\<close>, \<open>Js_Url\<close>: what the client uses of
    the JavaScript library, each with its round trip.
  \<^item> \<open>Models\<close>: \<^verbatim>\<open>types/*.ts\<close>, with the JSON of the request bodies. \<open>Api_Paths\<close>:
    \<^verbatim>\<open>lib/api-paths.ts\<close>, an endpoint per entry; different well-formed endpoints have different paths.
  \<^item> \<open>Dpop\<close>: \<^verbatim>\<open>lib/dpop.ts\<close> and \<^verbatim>\<open>proxy.ts\<close>; key store, proofs, thumbprints. \<open>Key_Race\<close>: overlapping
    calls of \<open>getOrCreateDPoPKey\<close> as steps.
  \<^item> \<open>Api_Client\<close>: \<^verbatim>\<open>lib/api-client.ts\<close> as state actions on the record \<open>client\<close>, one definition per
    function. \<open>Request_Gate\<close>: the gate and the shared refresh as step relations, and the proof that a
    body of the gate is a run of \<open>doFetch\<close>.
  \<^item> \<open>Ws_Client\<close>: the socket client as a record with a function per method and handler, and the browser's
    events as steps. \<open>Auth_Session\<close>: \<^verbatim>\<open>use-auth.tsx\<close> and the two guards. \<open>Message_Feed\<close>:
    \<^verbatim>\<open>use-messages.ts\<close>, with the refinement of the cache to a map from ids to messages.
  \<^item> \<open>Live_Room\<close>: an open room over the network. The steps of the machine \<open>live\<close> are messages posted on the
    server, frames on the socket, losses of the connection and answers to the request for the gap; frames
    are JSON text, decoded by the codecs of messages and events; the answer is computed by the query of
    the chat service, of which \<open>listAfter\<close>, \<open>decodeCursor\<close> and the page limit are translated from Go.
    \<open>History\<close>: scrolling back through a room, the infinite query against \<open>ListByRoomId\<close> of the same service,
    with messages posted and deleted in between. \<open>Room_Access\<close>: the same call through the whole stack, from
    \<open>fetchMessages\<close> over the client's exchange and the query string to the handler and \<open>ListMessages\<close> of the chat
    service, with its test of membership and its errors.
  \<^item> \<open>Rest_Api\<close>: \<^verbatim>\<open>room-api.ts\<close>, \<^verbatim>\<open>chat-api.ts\<close>, \<^verbatim>\<open>admin-api.ts\<close>. \<open>Query_Hooks\<close>: \<^verbatim>\<open>use-rooms.ts\<close> and
    \<^verbatim>\<open>use-admin.ts\<close>; a mutation's contract is the locale \<open>mutation_contract\<close>. \<open>Wire_Types\<close>: the interfaces of
    the request bodies as types of JSON values.
  \<^item> \<open>Ui_Base\<close>: pages and dialogs. A component is a record of its React state, a function per handler, and
    a view: a list of nodes with the texts and the controls, each control with the event it raises, so
    that \<open>offers\<close> is the set of things a user can do. \<open>Message_Input\<close>, \<open>Message_View\<close>: the components of
    \<^verbatim>\<open>features/chat/components\<close>, the box and the bubble as step machines. \<open>Room_Dialogs\<close>:
    \<^verbatim>\<open>features/room/components\<close>. \<open>Room_Settings\<close>, \<open>Account_Pages\<close>, \<open>Admin_Pages\<close>: the pages under
    \<^verbatim>\<open>app\<close>. \<open>Chat_Page\<close>: the page of a room, which puts list, box and dialogs together. \<open>App_Shell\<close>:
    sidebar, layout, redirects, drop-down menu. \<open>Page_Setup\<close>: the top of the pages, the queries they ask for and
    the values their forms start with. \<open>Static_Pages\<close>: landing page, home, the pages for errors and
    missing addresses, providers. \<open>Widgets\<close>: \<^verbatim>\<open>components/ui/dialog.tsx\<close> with the document's listeners as
    steps. \<open>Controls\<close>: the plain controls of \<^verbatim>\<open>components/ui\<close> as the elements they render, and that the nodes of the
    views behave as they do. \<open>Site_Map\<close>: the files of the application directory as addresses, against which guards,
    links and navigations are checked.
  \<^item> \<open>Unit_Tests\<close>: the assertions of the repository's own unit tests, proved of the definitions.

  \<^bold>\<open>What is shown.\<close> For the client: proofs bind the request as the backend sees it behind the proxy;
  requests follow their specification on the wire; nonces are used once and in order; nobody waits
  forever at the gate; a refresh always settles. For the socket: one activity at a time, backoff within
  bounds, nothing after disconnect. For the session: guards show pages only to who may see them on every
  reachable session, redirects settle in one step, signing out leaves nothing behind. For the messages:
  the feed is the map of its messages and never shows one twice; after a reconnection with a full answer the
  room shows what the server has, and an open room can always get there. The cases in which it does not
  (a failed request for the gap, a gap of more than a page, a cursor from an unconfirmed message, an empty
  room) are theorems of \<open>Live_Room\<close> too. The pages of a room are its newest messages without a gap, and scrolling
  back reaches its beginning; what a request for them returns is what the service's function computes for the
  caller, whatever refreshes and retries it took. Request bodies have their declared types. For the pages: each
  control is offered only to who may use it, acts on the entry it stands at, sends what the form says, and
  shows every failure; forms and filters round-trip; every link and navigation leads to a page, behind the
  guard of its directory; dialogs leave no listener and no scroll lock behind. Where the code falls short of its intention the
  theorem says what it does.

  \<^bold>\<open>Bounds.\<close> \<open>doFetch\<close> makes at most three network requests, the first and two retries, which is the
  recursion of \<open>nonce_loop\<close> on 2; an API request makes at most twelve. The socket client asks for at most eleven
  tickets in a row, one and ten reconnections. A body of the gate settles within four steps. No definition
  needs fuel: every loop of the code is structural recursion or a run of a step relation. A page of messages
  after a cursor has fifty entries, the default of the server, since the client names no limit.

  \<^bold>\<open>Parameters.\<close> Code that is not in the repository is an argument: the record \<open>platform\<close> for WebCrypto,
  IndexedDB, \<open>fetch\<close>, clock and randomness; the matching of query keys; the test for an e-mail address; the
  formats of dates and numbers; the dates of the create dialog. Hypotheses about them state documented
  behaviour and are named where they are used. In \<open>Live_Room\<close> the projection the chat service reads is up to
  date, the socket is subscribed to the room from its opening until it is lost, frames come in order, and the
  events are new messages; edits and deletions are treated in \<open>Message_Feed\<close>. In \<open>History\<close> a page is loaded
  and appended in one step, as the query library does it when nothing else changes its cache meanwhile.

  In \<open>Room_Access\<close> an answer to the address of the messages comes from the gateway's authentication, which sends a
  401 or a challenge for a nonce, or from the handler (\<open>served_by\<close>); the service's message cache, which the listing
  fills and never reads, is left out. In \<open>Controls\<close> the libraries that join class names are parameters.

  \<^bold>\<open>Faithfulness.\<close> Strings are lists of characters below code unit 256, so the dashes and dots beyond that in
  labels are written in ASCII; labels are shortened where the code shows an icon. Handlers of a page run
  their request to its end; what may come in between is modelled where it matters, in \<open>Request_Gate\<close>,
  \<open>Key_Race\<close>, \<open>Ws_Client\<close>, \<open>Message_Feed\<close>, \<open>Message_Input\<close> and \<open>Message_View\<close>.

  \<^bold>\<open>Not modelled.\<close> The Go services but for the listing of messages named above, and the deployment (other languages);
  the layout of the pages and their icons, class lists outside the plain controls; the caches of the query library beyond the keys they are asked to invalidate.
\<close>

end
